(* ===== verification/Cache_Prelude.thy ===== *)
theory Cache_Prelude
  imports Main "HOL-Library.Word" "HOL-Library.AList" "HOL-Library.Sublist"
begin

unbundle bit_operations_syntax

text \<open>
  Shared vocabulary of the development: machine types, error numbers, C++ exceptions,
  byte buffers (\<open>splice\<close> is what \<open>memcpy\<close>, \<open>pread\<close> into a buffer and
  \<open>pwrite\<close> into a file do), decimal and hexadecimal printing (\<open>std::to_string\<close>,
  \<open>std::hex\<close>), \<open>std::string::find\<close> and \<open>substr\<close>, and a locale for
  invariants of transition systems.  Nothing here models a component; the lemmas are the
  ones the component theories share, collected in the \<open>named_theorems\<close> below.
\<close>

named_theorems buf_simps \<open>lengths and elements of byte buffers\<close>
named_theorems part_simps \<open>block and part arithmetic\<close>
named_theorems str_simps \<open>strings: find, substr, decimal and hexadecimal printing\<close>

type_synonym byte = "8 word"
type_synonym u64 = "64 word"
type_synonym bytes = "byte list"

text \<open>\<open>std::numeric_limits<std::size_t>::max()\<close>, that is \<open>SIZE_MAX\<close> and
  \<open>std::string::npos\<close>.\<close>

abbreviation SIZE_MAX :: u64 where
  "SIZE_MAX \<equiv> - 1"

lemma unat_u64_less: "unat (w :: u64) < 18446744073709551616"
  by (rule order_less_le_trans [OF unsigned_less]) simp

lemma sint_small: "unat (w :: u64) < 9223372036854775808 \<Longrightarrow> sint w = int (unat w)"
proof -
  assume "unat w < 9223372036854775808"
  then have "int (unat w) < int 9223372036854775808" by (simp only: of_nat_less_iff)
  then have "uint w < 2 ^ 63" by (simp only: uint_nat) simp
  moreover have "- (2 ^ 63) \<le> uint w" by (rule order_trans [of _ 0]) simp_all
  ultimately have "signed_take_bit 63 (uint w) = uint w"
    by (intro signed_take_bit_int_eq_self)
  then show ?thesis by (simp add: sint_uint)
qed

lemma sint_bounds: "- 9223372036854775808 \<le> sint (w :: u64)" "sint (w :: u64) < 9223372036854775808"
  using sint_greater_eq [of w] sint_less [of w] by simp_all

text \<open>Differences and sums of signed values that do not overflow.\<close>

lemma unat_diff_signed:
  assumes "sint a < sint (b :: u64)"
  shows "int (unat (b - a)) = sint b - sint a"
proof -
  have "uint (word_of_int (sint b - sint a) :: u64) = (sint b - sint a) mod 18446744073709551616"
    by (simp only: uint_word_of_int) simp
  moreover have "word_of_int (sint b - sint a) = b - a" by simp
  ultimately show ?thesis using assms sint_bounds [of a] sint_bounds [of b] by simp
qed

lemma sint_add_signed:
  assumes "sint a + int (unat n) < 9223372036854775808"
  shows "sint (a + n :: u64) = sint a + int (unat n)"
proof -
  have "sint (word_of_int (sint a + int (unat n)) :: u64) = signed_take_bit 63 (sint a + int (unat n))"
    by (simp only: sint_sbintrunc') simp
  moreover have "word_of_int (sint a + int (unat n)) = a + n" by simp
  moreover have "signed_take_bit 63 (sint a + int (unat n)) = sint a + int (unat n)"
    by (rule signed_take_bit_int_eq_self)
      (use assms sint_bounds [of a] in \<open>simp_all add: add_increasing2\<close>)
  ultimately show ?thesis by simp
qed

section \<open>Error numbers and exceptions\<close>

abbreviation ENOENT :: int where "ENOENT \<equiv> 2"
abbreviation EIO :: int where "EIO \<equiv> 5"
abbreviation EBADF :: int where "EBADF \<equiv> 9"
abbreviation EACCES :: int where "EACCES \<equiv> 13"
abbreviation EEXIST :: int where "EEXIST \<equiv> 17"
abbreviation ENODEV :: int where "ENODEV \<equiv> 19"
abbreviation ENOTDIR :: int where "ENOTDIR \<equiv> 20"
abbreviation EISDIR :: int where "EISDIR \<equiv> 21"
abbreviation EINVAL :: int where "EINVAL \<equiv> 22"
abbreviation ENOSYS :: int where "ENOSYS \<equiv> 38"
abbreviation ENOTEMPTY :: int where "ENOTEMPTY \<equiv> 39"

text \<open>The C++ exceptions the modelled code can raise, and undefined behaviour as an outcome
  of its own (a dereference of a pointer that points to no object).\<close>

datatype exn = Out_of_range | Invalid_argument | Filesystem_error int | Undefined_behaviour

section \<open>Byte buffers\<close>

text \<open>\<open>splice d off s\<close>: the buffer \<open>d\<close> with \<open>s\<close> copied over it from index
  \<open>off\<close> on.\<close>

definition splice :: "'a list \<Rightarrow> nat \<Rightarrow> 'a list \<Rightarrow> 'a list" where
  "splice d off s = take off d @ s @ drop (off + length s) d"

lemma length_splice [buf_simps]:
  "off + length s \<le> length d \<Longrightarrow> length (splice d off s) = length d"
  by (simp add: splice_def)

lemma nth_splice [buf_simps]:
  "off + length s \<le> length d \<Longrightarrow> i < length d \<Longrightarrow>
   splice d off s ! i = (if off \<le> i \<and> i < off + length s then s ! (i - off) else d ! i)"
  by (auto simp: splice_def nth_append min_def)

lemma splice_Nil [simp]: "splice d off [] = d"
  by (simp add: splice_def)

lemma take_drop_splice [buf_simps]:
  "off + length s \<le> length d \<Longrightarrow> take (length s) (drop off (splice d off s)) = s"
  by (simp add: splice_def)

lemma splice_take [buf_simps]:
  "off \<le> length d \<Longrightarrow> take off (splice d off s) = take off d"
  by (simp add: splice_def)

lemma splice_splice_adjacent:
  assumes "off + length s + length t \<le> length d"
  shows "splice (splice d off s) (off + length s) t = splice d off (s @ t)"
proof -
  have "take (off + length s) (take off d @ s @ drop (off + length s) d) = take off d @ s"
    using assms by simp
  moreover have "drop (off + length s + length t) (take off d @ s @ drop (off + length s) d)
      = drop (off + length s + length t) d"
    using assms by (simp add: add.commute)
  ultimately show ?thesis by (simp add: splice_def add.assoc)
qed

lemma splice_0_full: "length s = length d \<Longrightarrow> splice d 0 s = s"
  by (simp add: splice_def)

text \<open>A slice of a byte sequence: what a range read of a file returns.\<close>

definition slice :: "nat \<Rightarrow> nat \<Rightarrow> 'a list \<Rightarrow> 'a list" where
  "slice off n xs = take n (drop off xs)"

lemma length_slice [buf_simps]: "length (slice off n xs) = min n (length xs - off)"
  by (simp add: slice_def)

lemma nth_slice [buf_simps]: "i < n \<Longrightarrow> off + i < length xs \<Longrightarrow> slice off n xs ! i = xs ! (off + i)"
  by (simp add: slice_def)

lemma slice_slice [buf_simps]:
  "i + k \<le> n \<Longrightarrow> slice i k (slice off n xs) = slice (off + i) k xs"
  by (simp add: slice_def take_drop add.commute add.left_commute min_def)

lemma slice_append_adjacent: "slice off m xs @ slice (off + m) n xs = slice off (m + n) xs"
  by (simp add: slice_def take_add add.commute)

lemma slice_self_bound:
  assumes "d = slice off (length d) F" and "d \<noteq> []"
  shows "off + length d \<le> length F"
proof -
  have "length d = min (length d) (length F - off)"
    using arg_cong [OF assms(1), of length] by (simp add: length_slice)
  moreover have "0 < length d" using assms(2) by simp
  ultimately show ?thesis by linarith
qed

lemma slice_0_all: "length xs \<le> n \<Longrightarrow> slice 0 n xs = xs"
  by (simp add: slice_def)

lemma slice_empty [simp]: "slice off 0 xs = []"
  by (simp add: slice_def)

section \<open>Strings\<close>

text \<open>\<open>std::string::substr(pos, n)\<close> throws \<open>std::out_of_range\<close> when \<open>pos\<close> is
  past the end.\<close>

definition substr :: "string \<Rightarrow> nat \<Rightarrow> nat \<Rightarrow> exn + string" where
  "substr s pos n = (if length s < pos then Inl Out_of_range else Inr (slice pos n s))"

text \<open>\<open>find_from p i s\<close> is the least index \<open>j \<ge> i\<close> at which \<open>p\<close> occurs in the
  string whose suffix from \<open>i\<close> on is \<open>s\<close>.\<close>

fun find_from :: "string \<Rightarrow> nat \<Rightarrow> string \<Rightarrow> nat option" where
  "find_from p i [] = (if p = [] then Some i else None)"
| "find_from p i (c # s) = (if prefix p (c # s) then Some i else find_from p (Suc i) s)"

text \<open>\<open>s.find(p, pos)\<close>; \<open>None\<close> is \<open>npos\<close>.\<close>

definition str_find :: "string \<Rightarrow> string \<Rightarrow> nat \<Rightarrow> nat option" where
  "str_find s p pos = (if length s < pos then None else find_from p pos (drop pos s))"

lemma find_from_Some:
  "find_from p i s = Some j \<Longrightarrow>
   i \<le> j \<and> j + length p \<le> i + length s \<and> prefix p (drop (j - i) s)"
proof (induction p i s rule: find_from.induct)
  case (1 p i)
  then show ?case by (auto split: if_splits)
next
  case (2 p i c s)
  show ?case
  proof (cases "prefix p (c # s)")
    case True
    with "2.prems" show ?thesis by (auto dest: prefix_length_le)
  next
    case False
    with "2.prems" have "find_from p (Suc i) s = Some j" by simp
    from "2.IH" [OF False this] show ?thesis
      by (auto simp: drop_Cons' Suc_diff_Suc)
  qed
qed

lemma find_from_first:
  "find_from p i s = Some j \<Longrightarrow> i \<le> k \<Longrightarrow> k < j \<Longrightarrow> \<not> prefix p (drop (k - i) s)"
proof (induction p i s arbitrary: k rule: find_from.induct)
  case (1 p i)
  then show ?case by (auto split: if_splits)
next
  case (2 p i c s)
  then show ?case
    by (cases "k = i") (auto split: if_splits simp: drop_Cons' Suc_diff_Suc)
qed

lemma find_from_None:
  "find_from p i s = None \<Longrightarrow> k \<le> length s \<Longrightarrow> \<not> prefix p (drop k s)"
proof (induction p i s arbitrary: k rule: find_from.induct)
  case (1 p i)
  then show ?case by (auto split: if_splits)
next
  case (2 p i c s)
  then show ?case by (cases k) (auto split: if_splits)
qed

lemma str_find_Some:
  "str_find s p pos = Some j \<Longrightarrow> pos \<le> j \<and> j + length p \<le> length s \<and> prefix p (drop j s)"
  by (auto simp: str_find_def split: if_splits dest!: find_from_Some)

lemma str_find_first:
  "str_find s p pos = Some j \<Longrightarrow> pos \<le> k \<Longrightarrow> k < j \<Longrightarrow> \<not> prefix p (drop k s)"
  by (auto simp: str_find_def split: if_splits dest!: find_from_first [where k = k])

lemma str_find_None:
  "str_find s p pos = None \<Longrightarrow> pos \<le> k \<Longrightarrow> k \<le> length s \<Longrightarrow> \<not> prefix p (drop k s)"
  by (auto simp: str_find_def split: if_splits dest!: find_from_None [where k = "k - pos"])

section \<open>Decimal and hexadecimal printing\<close>

definition digit :: "nat \<Rightarrow> char" where
  "digit d = (if d < 10 then char_of (48 + d) else char_of (87 + d))"

definition undigit :: "char \<Rightarrow> nat" where
  "undigit c = (if of_char c < (87::nat) then of_char c - 48 else of_char c - 87)"

lemma undigit_digit: "d < 16 \<Longrightarrow> undigit (digit d) = d"
  by (simp add: digit_def undigit_def)

lemma digit_ge: "d < 16 \<Longrightarrow> \<not> of_char (digit d) < (48::nat)"
  by (simp add: digit_def)

text \<open>\<open>std::to_string\<close> of an unsigned value.\<close>

fun to_dec :: "nat \<Rightarrow> string" where
  "to_dec n = (if n < 10 then [digit n] else to_dec (n div 10) @ [digit (n mod 10)])"

declare to_dec.simps [simp del]

definition of_dec :: "string \<Rightarrow> nat" where
  "of_dec s = foldl (\<lambda>a c. 10 * a + undigit c) 0 s"

lemma of_dec_snoc: "of_dec (s @ [c]) = 10 * of_dec s + undigit c"
  by (simp add: of_dec_def)

lemma of_dec_to_dec [str_simps]: "of_dec (to_dec n) = n"
proof (induction n rule: to_dec.induct)
  case (1 n)
  show ?case
  proof (cases "n < 10")
    case True
    then show ?thesis by (simp add: to_dec.simps of_dec_def undigit_digit)
  next
    case False
    then show ?thesis
      using 1 by (simp add: to_dec.simps [of n] of_dec_snoc undigit_digit)
  qed
qed

lemma to_dec_inject [str_simps]: "to_dec m = to_dec n \<longleftrightarrow> m = n"
  by (metis of_dec_to_dec)

lemma to_dec_nonempty [simp]: "to_dec n \<noteq> []"
  by (subst to_dec.simps) simp

lemma to_dec_no_sep:
  assumes "of_char c < (48::nat)"
  shows "c \<notin> set (to_dec n)"
proof (induction n rule: to_dec.induct)
  case (1 n)
  have "n mod 10 < 16" by (simp add: less_trans [OF mod_less_divisor])
  then show ?case
    using 1 digit_ge [of "n mod 10"] digit_ge [of n] assms
    by (subst to_dec.simps) auto
qed

text \<open>\<open>std::to_string\<close> of a signed value.\<close>

definition to_string_int :: "int \<Rightarrow> string" where
  "to_string_int i = (if i < 0 then CHR ''-'' # to_dec (nat (- i)) else to_dec (nat i))"

text \<open>\<open>hex_digits k n\<close>: the \<open>k\<close> low hexadecimal digits of \<open>n\<close>, most significant
  first, which is what \<open>std::hex << std::setw(k) << std::setfill('0')\<close> prints of a value
  below \<open>16 ^ k\<close>.\<close>

fun hex_digits :: "nat \<Rightarrow> nat \<Rightarrow> string" where
  "hex_digits 0 n = []"
| "hex_digits (Suc k) n = hex_digits k (n div 16) @ [digit (n mod 16)]"

definition of_hex :: "string \<Rightarrow> nat" where
  "of_hex s = foldl (\<lambda>a c. 16 * a + undigit c) 0 s"

lemma of_hex_snoc: "of_hex (s @ [c]) = 16 * of_hex s + undigit c"
  by (simp add: of_hex_def)

lemma length_hex_digits [str_simps]: "length (hex_digits k n) = k"
  by (induction k arbitrary: n) auto

lemma of_hex_hex_digits: "n < 16 ^ k \<Longrightarrow> of_hex (hex_digits k n) = n"
proof (induction k arbitrary: n)
  case 0
  then show ?case by (simp add: of_hex_def)
next
  case (Suc k)
  then have "n div 16 < 16 ^ k" by (simp add: less_mult_imp_div_less mult.commute)
  then show ?case using Suc.IH by (simp add: of_hex_snoc undigit_digit)
qed

lemma hex_digits_no_sep: "of_char c < (48::nat) \<Longrightarrow> c \<notin> set (hex_digits k n)"
  by (induction k arbitrary: n) (auto simp: digit_ge)

text \<open>What a C function reads of \<open>s.c_str()\<close>: the characters before the first NUL.\<close>

definition c_str :: "string \<Rightarrow> string" where
  "c_str s = takeWhile (\<lambda>c. c \<noteq> CHR 0x00) s"

lemma c_str_id: "CHR 0x00 \<notin> set s \<Longrightarrow> c_str s = s"
  by (auto simp: c_str_def takeWhile_eq_all_conv)

lemma c_str_idem [simp]: "c_str (c_str s) = c_str s"
  by (simp add: c_str_def takeWhile_idem)

section \<open>Invariants of transition systems\<close>

text \<open>A component whose operations interleave is a set of initial states and a step
  relation; an invariant that holds initially and is kept by every step holds in every
  reachable state.\<close>

locale transition_system =
  fixes start :: "'s \<Rightarrow> bool"
    and step :: "'s \<Rightarrow> 's \<Rightarrow> bool"
    and inv :: "'s \<Rightarrow> bool"
  assumes start_inv: "start s \<Longrightarrow> inv s"
    and step_inv: "inv s \<Longrightarrow> step s t \<Longrightarrow> inv t"
begin

lemma steps_inv: "step\<^sup>*\<^sup>* s t \<Longrightarrow> inv s \<Longrightarrow> inv t"
  by (induction rule: rtranclp_induct) (auto intro: step_inv)

lemma reachable_inv: "start s \<Longrightarrow> step\<^sup>*\<^sup>* s t \<Longrightarrow> inv t"
  using start_inv steps_inv by blast

end

section \<open>Simulation\<close>

text \<open>A component that answers calls, and a specification of it that may refuse a call.  If one step
  of the component answers as the specification does and keeps the two related, so does any sequence
  of calls that the specification accepts.\<close>

fun run_calls :: "('o \<Rightarrow> 'c \<Rightarrow> 'r \<times> 'c) \<Rightarrow> 'o list \<Rightarrow> 'c \<Rightarrow> 'r list \<times> 'c" where
  "run_calls f [] c = ([], c)"
| "run_calls f (x # xs) c = (case f x c of (r, c1) \<Rightarrow> case run_calls f xs c1 of (rs, c2) \<Rightarrow> (r # rs, c2))"

fun run_spec :: "('o \<Rightarrow> 'a \<Rightarrow> ('r \<times> 'a) option) \<Rightarrow> 'o list \<Rightarrow> 'a \<Rightarrow> ('r list \<times> 'a) option" where
  "run_spec f [] a = Some ([], a)"
| "run_spec f (x # xs) a =
     (case f x a of
        None \<Rightarrow> None
      | Some (r, a1) \<Rightarrow> (case run_spec f xs a1 of None \<Rightarrow> None | Some (rs, a2) \<Rightarrow> Some (r # rs, a2)))"

locale forward_simulation =
  fixes sim :: "'a \<Rightarrow> 'c \<Rightarrow> bool"
    and spec :: "'o \<Rightarrow> 'a \<Rightarrow> ('r \<times> 'a) option"
    and impl :: "'o \<Rightarrow> 'c \<Rightarrow> ('e + 'r) \<times> 'c"
  assumes sim_step: "sim a c \<Longrightarrow> spec x a = Some (r, a') \<Longrightarrow> \<exists>c'. impl x c = (Inr r, c') \<and> sim a' c'"
begin

lemma sim_run:
  "run_spec spec xs a = Some (rs, a') \<Longrightarrow> sim a c \<Longrightarrow>
   \<exists>c'. run_calls impl xs c = (map Inr rs, c') \<and> sim a' c'"
proof (induction xs arbitrary: a c rs)
  case (Cons x xs)
  from Cons.prems(1) obtain r a1 rs1 where s: "spec x a = Some (r, a1)" "run_spec spec xs a1 = Some (rs1, a')"
    "rs = r # rs1"
    by (auto split: option.splits)
  obtain c1 where c1: "impl x c = (Inr r, c1)" "sim a1 c1" using sim_step [OF Cons.prems(2) s(1)] by blast
  obtain c2 where "run_calls impl xs c1 = (map Inr rs1, c2)" "sim a' c2" using Cons.IH [OF s(2) c1(2)] by blast
  with c1 s(3) show ?case by simp
qed simp

end

end
