(* ===== verification/Posix_Fs.thy ===== *)
theory Posix_Fs
  imports Cache_Prelude
begin

text \<open>
  The file system calls the program makes (\<open>open\<close>, \<open>pread\<close>, \<open>pwrite\<close>,
  \<open>write\<close>, \<open>mkdir\<close>, \<open>rmdir\<close>, \<open>unlink\<close>, \<open>opendir\<close>/\<open>readdir\<close>
  and their \<open>std::filesystem\<close> counterparts), on an explicit state: an association list
  from resolved paths to nodes, whose order is the order a directory iteration visits them
  in.  Two fields let the environment refuse a call: \<open>deny\<close> gives the error number with
  which a path cannot be opened or changed (permissions, name too long), \<open>ioerr\<close> the
  one with which a transfer on it fails.  Symbolic links, hard links and partial transfers on
  regular files are not modelled; a descriptor is the resolved path it was opened on, since
  every descriptor of the program is closed in the function that opens it.
\<close>

section \<open>State and path resolution\<close>

datatype node = Dir | File bytes

type_synonym key = "string list"

record fsys =
  cwd :: key
  nodes :: "(key \<times> node) list"
  deny :: "key \<Rightarrow> int option"
  ioerr :: "key \<Rightarrow> int option"

fun split_slash :: "string \<Rightarrow> string list" where
  "split_slash [] = [[]]"
| "split_slash (c # s) =
     (if c = CHR ''/'' then [] # split_slash s
      else (case split_slash s of [] \<Rightarrow> [[c]] | w # ws \<Rightarrow> (c # w) # ws))"

definition norm_step :: "key \<Rightarrow> string \<Rightarrow> key" where
  "norm_step acc c =
     (if c = [] \<or> c = ''.'' then acc else if c = ''..'' then butlast acc else acc @ [c])"

definition absolute :: "string \<Rightarrow> bool" where
  "absolute p \<longleftrightarrow> p \<noteq> [] \<and> hd p = CHR ''/''"

definition resolve :: "fsys \<Rightarrow> string \<Rightarrow> key" where
  "resolve fs p = foldl norm_step (if absolute p then [] else cwd fs) (split_slash p)"

definition lookup :: "fsys \<Rightarrow> key \<Rightarrow> node option" where
  "lookup fs k = (if k = [] then Some Dir else map_of (nodes fs) k)"

definition set_node :: "key \<Rightarrow> node \<Rightarrow> fsys \<Rightarrow> fsys" where
  "set_node k n fs = fs\<lparr>nodes := AList.update k n (nodes fs)\<rparr>"

definition del_node :: "key \<Rightarrow> fsys \<Rightarrow> fsys" where
  "del_node k fs = fs\<lparr>nodes := AList.delete k (nodes fs)\<rparr>"

text \<open>The paths of the entries of a directory, in iteration order.\<close>

definition children :: "fsys \<Rightarrow> key \<Rightarrow> key list" where
  "children fs k = filter (\<lambda>p. p \<noteq> [] \<and> butlast p = k) (map fst (nodes fs))"

section \<open>System calls\<close>

datatype oflag = O_RDONLY | O_WRONLY | O_RDWR | O_CREAT | O_TRUNC

text \<open>A result \<open>Inl e\<close> is a return of \<open>-1\<close> with \<open>errno = e\<close>.\<close>

definition sys_open :: "string \<Rightarrow> oflag list \<Rightarrow> fsys \<Rightarrow> (int + key) \<times> fsys" where
  "sys_open p fl fs =
     (let k = resolve fs p in
      if p = [] then (Inl ENOENT, fs)
      else case deny fs k of
        Some e \<Rightarrow> (Inl e, fs)
      | None \<Rightarrow>
          (case lookup fs k of
             Some Dir \<Rightarrow>
               (if O_WRONLY \<in> set fl \<or> O_RDWR \<in> set fl \<or> O_CREAT \<in> set fl
                then (Inl EISDIR, fs) else (Inr k, fs))
           | Some (File bs) \<Rightarrow>
               (Inr k, if O_TRUNC \<in> set fl then set_node k (File []) fs else fs)
           | None \<Rightarrow>
               (if O_CREAT \<in> set fl then
                  (case lookup fs (butlast k) of
                     Some Dir \<Rightarrow> (Inr k, set_node k (File []) fs)
                   | Some (File _) \<Rightarrow> (Inl ENOTDIR, fs)
                   | None \<Rightarrow> (Inl ENOENT, fs))
                else (Inl ENOENT, fs))))"

definition sys_pread :: "key \<Rightarrow> nat \<Rightarrow> int \<Rightarrow> fsys \<Rightarrow> int + bytes" where
  "sys_pread k len off fs =
     (if off < 0 then Inl EINVAL
      else case ioerr fs k of
        Some e \<Rightarrow> Inl e
      | None \<Rightarrow>
          (case lookup fs k of
             Some (File bs) \<Rightarrow> Inr (slice (nat off) len bs)
           | Some Dir \<Rightarrow> Inl EISDIR
           | None \<Rightarrow> Inl EBADF))"

text \<open>Writing past the end of a file fills the gap with zero bytes; writing nothing changes
  nothing.\<close>

definition file_write :: "bytes \<Rightarrow> nat \<Rightarrow> bytes \<Rightarrow> bytes" where
  "file_write bs off d =
     (if d = [] then bs
      else take off (bs @ replicate (off - length bs) 0) @ d @ drop (off + length d) bs)"

definition sys_pwrite :: "key \<Rightarrow> bytes \<Rightarrow> int \<Rightarrow> fsys \<Rightarrow> (int + nat) \<times> fsys" where
  "sys_pwrite k d off fs =
     (if off < 0 then (Inl EINVAL, fs)
      else case ioerr fs k of
        Some e \<Rightarrow> (Inl e, fs)
      | None \<Rightarrow>
          (case lookup fs k of
             Some (File bs) \<Rightarrow>
               (Inr (length d), set_node k (File (file_write bs (nat off) d)) fs)
           | _ \<Rightarrow> (Inl EBADF, fs)))"

text \<open>\<open>mkdir\<close>, \<open>rmdir\<close> and \<open>unlink\<close> return the error number, or \<open>None\<close>.\<close>

definition sys_mkdir :: "string \<Rightarrow> fsys \<Rightarrow> int option \<times> fsys" where
  "sys_mkdir p fs =
     (let k = resolve fs p in
      if p = [] then (Some ENOENT, fs)
      else case lookup fs k of
        Some _ \<Rightarrow> (Some EEXIST, fs)
      | None \<Rightarrow>
          (case lookup fs (butlast k) of
             None \<Rightarrow> (Some ENOENT, fs)
           | Some (File _) \<Rightarrow> (Some ENOTDIR, fs)
           | Some Dir \<Rightarrow>
               (case deny fs k of Some e \<Rightarrow> (Some e, fs) | None \<Rightarrow> (None, set_node k Dir fs))))"

definition sys_rmdir :: "string \<Rightarrow> fsys \<Rightarrow> int option \<times> fsys" where
  "sys_rmdir p fs =
     (let k = resolve fs p in
      if p = [] then (Some ENOENT, fs)
      else case lookup fs k of
        None \<Rightarrow> (Some ENOENT, fs)
      | Some (File _) \<Rightarrow> (Some ENOTDIR, fs)
      | Some Dir \<Rightarrow>
          (case deny fs k of
             Some e \<Rightarrow> (Some e, fs)
           | None \<Rightarrow>
               (if k = [] \<or> children fs k \<noteq> [] then (Some ENOTEMPTY, fs)
                else (None, del_node k fs))))"

definition sys_unlink :: "string \<Rightarrow> fsys \<Rightarrow> int option \<times> fsys" where
  "sys_unlink p fs =
     (let k = resolve fs p in
      if p = [] then (Some ENOENT, fs)
      else case lookup fs k of
        None \<Rightarrow> (Some ENOENT, fs)
      | Some Dir \<Rightarrow> (Some EISDIR, fs)
      | Some (File _) \<Rightarrow>
          (case deny fs k of Some e \<Rightarrow> (Some e, fs) | None \<Rightarrow> (None, del_node k fs)))"

section \<open>The standard library's \<open>filesystem\<close> functions\<close>

definition fs_exists :: "fsys \<Rightarrow> string \<Rightarrow> bool" where
  "fs_exists fs p \<longleftrightarrow> p \<noteq> [] \<and> lookup fs (resolve fs p) \<noteq> None"

text \<open>\<open>fs::path(a) / fs::path(b)\<close>: an absolute \<open>b\<close> replaces \<open>a\<close>.\<close>

definition path_join :: "string \<Rightarrow> string \<Rightarrow> string" where
  "path_join a b =
     (if absolute b then b
      else if a = [] \<or> last a = CHR ''/'' then a @ b
      else a @ ''/'' @ b)"

text \<open>\<open>parent_path()\<close>, up to redundant separators at its end, which resolution drops.\<close>

definition parent_path :: "string \<Rightarrow> string" where
  "parent_path p = rev (dropWhile (\<lambda>c. c \<noteq> CHR ''/'') (rev p))"

fun mkdirs :: "key list \<Rightarrow> fsys \<Rightarrow> int option \<times> fsys" where
  "mkdirs [] fs = (None, fs)"
| "mkdirs (k # ks) fs =
     (case lookup fs k of
        Some Dir \<Rightarrow> mkdirs ks fs
      | Some (File _) \<Rightarrow> (Some ENOTDIR, fs)
      | None \<Rightarrow>
          (case deny fs k of
             Some e \<Rightarrow> (Some e, fs)
           | None \<Rightarrow> mkdirs ks (set_node k Dir fs)))"

text \<open>\<open>create_directories\<close> makes every missing ancestor; the error is what its throwing
  overload throws.\<close>

definition create_directories :: "string \<Rightarrow> fsys \<Rightarrow> int option \<times> fsys" where
  "create_directories p fs =
     (if p = [] then (Some ENOENT, fs) else mkdirs (prefixes (resolve fs p)) fs)"

text \<open>\<open>fs::remove(p, ec)\<close>: a missing path is no error, a directory must be empty.\<close>

definition fs_remove :: "key \<Rightarrow> fsys \<Rightarrow> int option \<times> fsys" where
  "fs_remove k fs =
     (case lookup fs k of
        None \<Rightarrow> (None, fs)
      | Some n \<Rightarrow>
          (case deny fs k of
             Some e \<Rightarrow> (Some e, fs)
           | None \<Rightarrow>
               (if k = [] \<or> n = Dir \<and> children fs k \<noteq> [] then (Some ENOTEMPTY, fs)
                else (None, del_node k fs))))"

text \<open>Bytes of the regular files a \<open>recursive_directory_iterator\<close> visits.\<close>

definition tree_bytes :: "fsys \<Rightarrow> key \<Rightarrow> nat" where
  "tree_bytes fs k =
     sum_list (map (\<lambda>(p, n). case n of File bs \<Rightarrow> if strict_prefix k p then length bs else 0
                                      | Dir \<Rightarrow> 0) (nodes fs))"

section \<open>Lookup after an update\<close>

lemma lookup_root [simp]: "lookup fs [] = Some Dir"
  by (simp add: lookup_def)

lemma lookup_set_node:
  "k \<noteq> [] \<Longrightarrow> lookup (set_node k n fs) k' = (if k' = k then Some n else lookup fs k')"
  by (simp add: lookup_def set_node_def update_conv)

lemma lookup_del_node:
  "k \<noteq> [] \<Longrightarrow> lookup (del_node k fs) k' = (if k' = k then None else lookup fs k')"
  by (simp add: lookup_def del_node_def delete_conv)

lemma fields_set_node [simp]:
  "cwd (set_node k n fs) = cwd fs" "deny (set_node k n fs) = deny fs"
  "ioerr (set_node k n fs) = ioerr fs"
  by (simp_all add: set_node_def)

lemma fields_del_node [simp]:
  "cwd (del_node k fs) = cwd fs" "deny (del_node k fs) = deny fs"
  "ioerr (del_node k fs) = ioerr fs"
  by (simp_all add: del_node_def)

lemma resolve_cong: "cwd fs = cwd fs' \<Longrightarrow> resolve fs p = resolve fs' p"
  by (simp add: resolve_def)

lemma resolve_set_node [simp]: "resolve (set_node k n fs) p = resolve fs p"
  by (rule resolve_cong) simp

lemma resolve_del_node [simp]: "resolve (del_node k fs) p = resolve fs p"
  by (rule resolve_cong) simp

text \<open>Two states agree on their environment: no operation changes it.\<close>

definition same_env :: "fsys \<Rightarrow> fsys \<Rightarrow> bool" where
  "same_env fs fs' \<longleftrightarrow> cwd fs' = cwd fs \<and> deny fs' = deny fs \<and> ioerr fs' = ioerr fs"

lemma same_env_refl [simp]: "same_env fs fs"
  by (simp add: same_env_def)

lemma same_env_trans: "same_env a b \<Longrightarrow> same_env b c \<Longrightarrow> same_env a c"
  by (simp add: same_env_def)

lemma same_env_set_node [simp]: "same_env fs (set_node k n fs)"
  by (simp add: same_env_def)

lemma same_env_del_node [simp]: "same_env fs (del_node k fs)"
  by (simp add: same_env_def)

lemma same_env_resolve: "same_env fs fs' \<Longrightarrow> resolve fs' p = resolve fs p"
  by (rule resolve_cong) (simp add: same_env_def)

section \<open>Resolution of composed paths\<close>

definition plain :: "string \<Rightarrow> bool" where
  "plain w \<longleftrightarrow> w \<noteq> [] \<and> w \<noteq> ''.'' \<and> w \<noteq> ''..'' \<and> CHR ''/'' \<notin> set w"

lemma split_slash_nonempty [simp]: "split_slash s \<noteq> []"
  by (induction s) (auto split: list.splits)

lemma split_slash_append:
  "split_slash (a @ CHR ''/'' # b) = split_slash a @ split_slash b"
proof (induction a)
  case (Cons c a)
  then show ?case by (auto split: list.splits)
qed simp

lemma split_slash_plain: "CHR ''/'' \<notin> set w \<Longrightarrow> split_slash w = [w]"
  by (induction w) auto

lemma norm_step_plain: "plain w \<Longrightarrow> norm_step acc w = acc @ [w]"
  by (simp add: norm_step_def plain_def)

lemma absolute_append [simp]: "a \<noteq> [] \<Longrightarrow> absolute (a @ b) = absolute a"
  by (simp add: absolute_def)

lemma resolve_append_plain:
  assumes "a \<noteq> []" and "plain w"
  shows "resolve fs (a @ CHR ''/'' # w) = resolve fs a @ [w]"
  using assms by (simp add: resolve_def split_slash_append split_slash_plain norm_step_plain plain_def)

section \<open>Well-formed file systems\<close>

text \<open>Keys are distinct and non-empty and the parent of every node is a directory.\<close>

definition fs_wf :: "fsys \<Rightarrow> bool" where
  "fs_wf fs \<longleftrightarrow> distinct (map fst (nodes fs)) \<and>
     (\<forall>k n. lookup fs k = Some n \<longrightarrow> k \<noteq> [] \<longrightarrow> lookup fs (butlast k) = Some Dir) \<and>
     [] \<notin> set (map fst (nodes fs))"

lemma fs_wf_parent:
  "fs_wf fs \<Longrightarrow> lookup fs k = Some n \<Longrightarrow> k \<noteq> [] \<Longrightarrow> lookup fs (butlast k) = Some Dir"
  by (simp add: fs_wf_def)

lemma butlast_neq_self: "k \<noteq> [] \<Longrightarrow> butlast k \<noteq> k"
  by (metis append_butlast_last_id append_self_conv list.distinct(1))

lemma fs_wf_set_node:
  assumes wf: "fs_wf fs" and k: "k \<noteq> []" and par: "lookup fs (butlast k) = Some Dir"
    and dir: "n \<noteq> Dir \<Longrightarrow> lookup fs k \<noteq> Some Dir"
  shows "fs_wf (set_node k n fs)"
proof -
  have "distinct (map fst (nodes (set_node k n fs)))"
    using wf by (simp add: fs_wf_def set_node_def distinct_update)
  moreover have "[] \<notin> set (map fst (nodes (set_node k n fs)))"
    using wf k by (auto simp: fs_wf_def set_node_def dom_update)
  moreover have "lookup (set_node k n fs) (butlast k') = Some Dir"
    if look: "lookup (set_node k n fs) k' = Some n'" and ne: "k' \<noteq> []" for k' n'
  proof (cases "k' = k")
    case True
    then show ?thesis using par k butlast_neq_self [OF k] by (simp add: lookup_set_node)
  next
    case False
    with look k have "lookup fs k' = Some n'" by (simp add: lookup_set_node)
    with wf ne have "lookup fs (butlast k') = Some Dir" by (simp add: fs_wf_def)
    then show ?thesis using dir k by (auto simp: lookup_set_node)
  qed
  ultimately show ?thesis by (simp add: fs_wf_def)
qed

lemma children_lookup:
  assumes "fs_wf fs"
  shows "p \<in> set (children fs k) \<longleftrightarrow> p \<noteq> [] \<and> butlast p = k \<and> lookup fs p \<noteq> None"
proof -
  have "map_of (nodes fs) p \<noteq> None \<longleftrightarrow> p \<in> set (map fst (nodes fs))"
    by (metis (no_types, lifting) domIff dom_map_of_conv_image_fst image_set)
  then show ?thesis by (auto simp: children_def lookup_def)
qed

lemma fs_wf_del_node:
  assumes wf: "fs_wf fs" and k: "k \<noteq> []" and leaf: "lookup fs k = Some Dir \<Longrightarrow> children fs k = []"
  shows "fs_wf (del_node k fs)"
proof -
  have "distinct (map fst (nodes (del_node k fs)))"
    using wf by (simp add: fs_wf_def del_node_def distinct_delete)
  moreover have "[] \<notin> set (map fst (nodes (del_node k fs)))"
    using wf by (simp add: fs_wf_def del_node_def delete_keys)
  moreover have "lookup (del_node k fs) (butlast k') = Some Dir"
    if look: "lookup (del_node k fs) k' = Some n'" and ne: "k' \<noteq> []" for k' n'
  proof -
    from look k have fsk: "lookup fs k' = Some n'"
      by (simp add: lookup_del_node split: if_splits)
    with wf ne have par: "lookup fs (butlast k') = Some Dir" by (simp add: fs_wf_def)
    have "butlast k' \<noteq> k"
    proof
      assume eq: "butlast k' = k"
      with par leaf have "children fs k = []" by simp
      with children_lookup [OF wf, of k' k] fsk ne eq show False by simp
    qed
    with par k show ?thesis by (simp add: lookup_del_node)
  qed
  ultimately show ?thesis by (simp add: fs_wf_def)
qed

section \<open>What the calls do\<close>

lemma length_file_write [buf_simps]:
  "length (file_write bs off d) = (if d = [] then length bs else max (length bs) (off + length d))"
  by (auto simp: file_write_def max_def)

lemma file_write_read_back [buf_simps]: "slice off (length d) (file_write bs off d) = d"
  by (simp add: file_write_def slice_def)

lemma nth_file_write:
  "i < length (file_write bs off d) \<Longrightarrow>
   file_write bs off d ! i =
     (if off \<le> i \<and> i < off + length d then d ! (i - off)
      else if i < length bs then bs ! i else 0)"
proof (cases "d = []")
  case False
  assume i: "i < length (file_write bs off d)"
  let ?pad = "take off (bs @ replicate (off - length bs) (0::byte))"
  have len: "length ?pad = off" by simp
  have pad: "i < off \<Longrightarrow> ?pad ! i = (if i < length bs then bs ! i else 0)"
    by (simp add: nth_append)
  have "file_write bs off d = ?pad @ d @ drop (off + length d) bs"
    using False by (simp add: file_write_def)
  with len pad i show ?thesis
    using False by (auto simp: nth_append length_file_write split: if_splits)
qed (auto simp: file_write_def)

text \<open>Reading a range that a write does not touch and that lies inside the old file.\<close>

lemma file_write_frame:
  assumes "i + n \<le> length bs" and "i + n \<le> off \<or> off + length d \<le> i"
  shows "slice i n (file_write bs off d) = slice i n bs"
proof (rule nth_equalityI)
  have len: "i + n \<le> length (file_write bs off d)"
    using assms(1) by (auto simp: length_file_write)
  then show "length (slice i n (file_write bs off d)) = length (slice i n bs)"
    using assms(1) by (simp add: length_slice)
  fix j
  assume "j < length (slice i n (file_write bs off d))"
  with len have j: "j < n" by (simp add: length_slice)
  with len assms(1) have "slice i n (file_write bs off d) ! j = file_write bs off d ! (i + j)"
    and "slice i n bs ! j = bs ! (i + j)"
    by (simp_all add: nth_slice)
  moreover have "file_write bs off d ! (i + j) = bs ! (i + j)"
    using j len assms nth_file_write [of "i + j" bs off d] by auto
  ultimately show "slice i n (file_write bs off d) ! j = slice i n bs ! j" by simp
qed

lemma sys_open_env: "same_env fs (snd (sys_open p fl fs))"
  by (auto simp: sys_open_def Let_def split: option.splits node.splits)

lemma sys_open_wf: "fs_wf fs \<Longrightarrow> fs_wf (snd (sys_open p fl fs))"
proof -
  assume wf: "fs_wf fs"
  have "fs_wf (set_node k (File bs) fs)"
    if "lookup fs k = Some (File bs')" for k bs bs'
  proof -
    from that have "k \<noteq> []" by auto
    with wf that show ?thesis by (auto intro: fs_wf_set_node fs_wf_parent)
  qed
  moreover have "fs_wf (set_node k (File bs) fs)"
    if "lookup fs k = None" "lookup fs (butlast k) = Some Dir" for k bs
  proof -
    from that have "k \<noteq> []" by auto
    with wf that show ?thesis by (auto intro: fs_wf_set_node)
  qed
  ultimately show ?thesis
    using wf by (auto simp: sys_open_def Let_def split: option.splits node.splits)
qed

lemma sys_pwrite_env: "same_env fs (snd (sys_pwrite k d off fs))"
  by (auto simp: sys_pwrite_def split: option.splits node.splits)

lemma sys_pwrite_wf: "fs_wf fs \<Longrightarrow> fs_wf (snd (sys_pwrite k d off fs))"
proof -
  assume wf: "fs_wf fs"
  have "fs_wf (set_node k (File bs) fs)"
    if "lookup fs k = Some (File bs')" for k bs bs'
  proof -
    from that have "k \<noteq> []" by auto
    with wf that show ?thesis by (auto intro: fs_wf_set_node fs_wf_parent)
  qed
  then show ?thesis using wf by (auto simp: sys_pwrite_def split: option.splits node.splits)
qed

lemma sys_mkdir_env: "same_env fs (snd (sys_mkdir p fs))"
  by (auto simp: sys_mkdir_def Let_def split: option.splits node.splits)

lemma sys_mkdir_wf: "fs_wf fs \<Longrightarrow> fs_wf (snd (sys_mkdir p fs))"
proof -
  assume wf: "fs_wf fs"
  have "fs_wf (set_node k Dir fs)" if "lookup fs k = None" "lookup fs (butlast k) = Some Dir" for k
  proof -
    from that have "k \<noteq> []" by auto
    with wf that show ?thesis by (auto intro: fs_wf_set_node)
  qed
  then show ?thesis using wf by (auto simp: sys_mkdir_def Let_def split: option.splits node.splits)
qed

lemma sys_mkdir_lookup:
  "lookup (snd (sys_mkdir p fs)) k =
     (if k = resolve fs p \<and> fst (sys_mkdir p fs) = None then Some Dir else lookup fs k)"
proof -
  have "lookup (set_node (resolve fs p) Dir fs) k = (if k = resolve fs p then Some Dir else lookup fs k)"
    if "lookup fs (resolve fs p) = None"
    by (rule lookup_set_node) (use that in auto)
  then show ?thesis by (auto simp: sys_mkdir_def Let_def split: option.splits node.splits)
qed

lemma sys_rmdir_env: "same_env fs (snd (sys_rmdir p fs))"
  by (auto simp: sys_rmdir_def Let_def split: option.splits node.splits)

lemma sys_rmdir_wf: "fs_wf fs \<Longrightarrow> fs_wf (snd (sys_rmdir p fs))"
  by (auto simp: sys_rmdir_def Let_def intro: fs_wf_del_node split: option.splits node.splits)

lemma sys_unlink_env: "same_env fs (snd (sys_unlink p fs))"
  by (auto simp: sys_unlink_def Let_def split: option.splits node.splits)

lemma sys_unlink_wf: "fs_wf fs \<Longrightarrow> fs_wf (snd (sys_unlink p fs))"
proof -
  assume wf: "fs_wf fs"
  have "fs_wf (del_node k fs)" if "lookup fs k = Some (File bs)" for k bs
  proof -
    from that have "k \<noteq> []" by auto
    with wf that show ?thesis by (auto intro: fs_wf_del_node)
  qed
  then show ?thesis using wf by (auto simp: sys_unlink_def Let_def split: option.splits node.splits)
qed

lemma fs_remove_env: "same_env fs (snd (fs_remove k fs))"
  by (auto simp: fs_remove_def split: option.splits)

lemma fs_remove_wf: "fs_wf fs \<Longrightarrow> fs_wf (snd (fs_remove k fs))"
  by (auto simp: fs_remove_def intro: fs_wf_del_node split: option.splits)

lemma mkdirs_env: "same_env fs (snd (mkdirs ks fs))"
proof (induction ks fs rule: mkdirs.induct)
  case (2 k ks fs)
  then show ?case
    by (auto split: option.splits node.splits intro: same_env_trans [OF same_env_set_node])
qed simp

lemma mkdirs_file:
  "lookup fs k = Some (File bs) \<Longrightarrow> lookup (snd (mkdirs ks fs)) k = Some (File bs)"
proof (induction ks fs rule: mkdirs.induct)
  case (2 k' ks fs)
  have "lookup (set_node k' Dir fs) k = Some (File bs)" if "lookup fs k' = None"
  proof -
    from that have "k' \<noteq> []" by auto
    then show ?thesis using that "2.prems" by (auto simp: lookup_set_node)
  qed
  with 2 show ?case by (auto split: option.splits node.splits)
qed simp

text \<open>Creating directories never makes a regular file appear.\<close>

lemma mkdirs_no_file:
  "lookup fs k \<noteq> Some (File bs) \<Longrightarrow> lookup (snd (mkdirs ks fs)) k \<noteq> Some (File bs)"
proof (induction ks fs rule: mkdirs.induct)
  case (2 k' ks fs)
  have "lookup (set_node k' Dir fs) k \<noteq> Some (File bs)" if "lookup fs k' = None"
  proof -
    from that have "k' \<noteq> []" by auto
    then show ?thesis using "2.prems" by (auto simp: lookup_set_node)
  qed
  with 2 show ?case by (auto split: option.splits node.splits)
qed simp

lemma mkdirs_all_dirs: "\<forall>k \<in> set ks. lookup fs k = Some Dir \<Longrightarrow> mkdirs ks fs = (None, fs)"
  by (induction ks) auto

lemma fs_wf_prefixes:
  assumes "fs_wf fs" and "lookup fs k = Some Dir"
  shows "\<forall>p \<in> set (prefixes k). lookup fs p = Some Dir"
  using assms(2)
proof (induction k rule: rev_induct)
  case (snoc x k)
  then have "lookup fs k = Some Dir" using fs_wf_parent [OF assms(1) snoc.prems] by simp
  with snoc show ?case by (auto simp: prefixes_snoc)
qed simp

lemma create_directories_existing:
  assumes "fs_wf fs" and "p \<noteq> []" and "lookup fs (resolve fs p) = Some Dir"
  shows "create_directories p fs = (None, fs)"
  using assms by (simp add: create_directories_def mkdirs_all_dirs [OF fs_wf_prefixes])

lemma parent_path_plain: "CHR ''/'' \<notin> set w \<Longrightarrow> parent_path (a @ CHR ''/'' # w) = a @ ''/''"
proof -
  assume "CHR ''/'' \<notin> set w"
  then have "dropWhile (\<lambda>c. c \<noteq> CHR ''/'') (rev w @ CHR ''/'' # rev a) = CHR ''/'' # rev a"
    by (induction w rule: rev_induct) auto
  then show ?thesis by (simp add: parent_path_def)
qed

lemma resolve_trailing_slash: "a \<noteq> [] \<Longrightarrow> resolve fs (a @ ''/'') = resolve fs a"
  using split_slash_append [of a "[]"] by (simp add: resolve_def norm_step_def)

end
