(* ===== verification/Fs_Layout.thy ===== *)
theory Fs_Layout
  imports Posix_Fs
begin

text \<open>
  \<^verbatim>\<open>cache/fs_layout.h\<close>: where the bytes and the dirty bitmap of an object live below the
  cache root, and \<^verbatim>\<open>hash_hex\<close> of \<^verbatim>\<open>cache/cache_manager.cc\<close>, which names
  the object.  The main facts: an object name is 16 lower case hexadecimal digits, resolved
  part paths of different objects or parts differ, and a data file never coincides with a
  bitmap file.
\<close>

section \<open>Definitions\<close>

definition kMaxPartSize :: u64 where
  "kMaxPartSize = 2 * 1024 * 1024 * 1024"

definition kFilesPerDir :: u64 where
  "kFilesPerDir = 256"

definition shard_dir :: "string \<Rightarrow> exn + string" where
  "shard_dir hash_hex =
     (case substr hash_hex 0 2 of
        Inl e \<Rightarrow> Inl e
      | Inr a \<Rightarrow>
          (case substr hash_hex 2 2 of
             Inl e \<Rightarrow> Inl e
           | Inr b \<Rightarrow> Inr (a @ ''/'' @ b)))"

definition data_part_path :: "string \<Rightarrow> string \<Rightarrow> u64 \<Rightarrow> exn + string" where
  "data_part_path cache_root hash_hex part_idx =
     (case shard_dir hash_hex of
        Inl e \<Rightarrow> Inl e
      | Inr sd \<Rightarrow>
          Inr (cache_root @ ''/'' @ sd @ ''/'' @ hash_hex @ ''.'' @ to_dec (unat part_idx) @ ''.blk''))"

definition bitmap_path :: "string \<Rightarrow> string \<Rightarrow> u64 \<Rightarrow> exn + string" where
  "bitmap_path cache_root hash_hex part_idx =
     (case shard_dir hash_hex of
        Inl e \<Rightarrow> Inl e
      | Inr sd \<Rightarrow>
          Inr (cache_root @ ''/'' @ sd @ ''/'' @ hash_hex @ ''.'' @ to_dec (unat part_idx) @ ''.dmap''))"

text \<open>\<open>hash\<close> stands for \<open>std::hash<std::string>\<close>.\<close>

definition hash_hex :: "(string \<Rightarrow> u64) \<Rightarrow> string \<Rightarrow> string" where
  "hash_hex hash s = hex_digits 16 (unat (hash s))"

section \<open>Object names\<close>

definition hex_char :: "char \<Rightarrow> bool" where
  "hex_char c \<longleftrightarrow> c \<in> digit ` {..<16}"

definition hash_ok :: "string \<Rightarrow> bool" where
  "hash_ok h \<longleftrightarrow> length h = 16 \<and> (\<forall>c \<in> set h. hex_char c)"

lemma hex_char_digits: "c \<in> set (hex_digits k n) \<Longrightarrow> hex_char c"
  by (induction k arbitrary: n) (auto simp: hex_char_def)

lemma hash_ok_hash_hex [simp, intro]: "hash_ok (hash_hex hash s)"
  by (simp add: hash_ok_def hash_hex_def length_hex_digits hex_char_digits)

lemma hex_char_no_sep: "hex_char c \<Longrightarrow> c \<noteq> CHR ''/'' \<and> c \<noteq> CHR ''.''"
proof -
  assume "hex_char c"
  then obtain d where "d < 16" and "c = digit d" by (auto simp: hex_char_def)
  then have "\<not> of_char c < (48::nat)" by (simp add: digit_ge)
  then show ?thesis by auto
qed

lemma hash_hex_eq_iff: "hash_hex hash s = hash_hex hash t \<longleftrightarrow> hash s = hash t"
proof
  have bound: "unat w < 16 ^ 16" for w :: u64
    using unat_u64_less [of w] by simp
  assume "hash_hex hash s = hash_hex hash t"
  then have "of_hex (hash_hex hash s) = of_hex (hash_hex hash t)" by simp
  with bound have "unat (hash s) = unat (hash t)"
    by (simp add: hash_hex_def of_hex_hex_digits)
  then show "hash s = hash t" by (rule word_unat_eq_iff [THEN iffD2])
qed (simp add: hash_hex_def)

section \<open>Resolved paths\<close>

text \<open>The keys of the two shard directories, of a data part and of a bitmap.\<close>

definition shard1_key :: "key \<Rightarrow> string \<Rightarrow> key" where
  "shard1_key rk h = rk @ [take 2 h]"

definition shard2_key :: "key \<Rightarrow> string \<Rightarrow> key" where
  "shard2_key rk h = rk @ [take 2 h, slice 2 2 h]"

definition blk_key :: "key \<Rightarrow> string \<Rightarrow> nat \<Rightarrow> key" where
  "blk_key rk h i = rk @ [take 2 h, slice 2 2 h, h @ ''.'' @ to_dec i @ ''.blk'']"

definition dmap_key :: "key \<Rightarrow> string \<Rightarrow> nat \<Rightarrow> key" where
  "dmap_key rk h i = rk @ [take 2 h, slice 2 2 h, h @ ''.'' @ to_dec i @ ''.dmap'']"

lemmas key_defs = shard1_key_def shard2_key_def blk_key_def dmap_key_def

lemma shard_dir_ok: "2 \<le> length h \<Longrightarrow> shard_dir h = Inr (take 2 h @ ''/'' @ slice 2 2 h)"
  by (simp add: shard_dir_def substr_def slice_def)

lemma shard_dir_short: "length h < 2 \<Longrightarrow> shard_dir h = Inl Out_of_range"
  by (simp add: shard_dir_def substr_def)

lemma hash_ok_length: "hash_ok h \<Longrightarrow> length h = 16"
  by (simp add: hash_ok_def)

lemma hash_ok_chars: "hash_ok h \<Longrightarrow> CHR ''/'' \<notin> set h \<and> CHR ''.'' \<notin> set h"
  using hex_char_no_sep by (fastforce simp: hash_ok_def)

lemma plain_part:
  assumes "set w \<subseteq> set h" and "w \<noteq> []" and "hash_ok h"
  shows "plain w"
proof -
  have "CHR ''/'' \<notin> set w" and "CHR ''.'' \<notin> set w"
    using assms hash_ok_chars [of h] by auto
  moreover from this(2) have "w \<noteq> ''.''" and "w \<noteq> ''..''" by auto
  ultimately show ?thesis using assms(2) by (simp add: plain_def)
qed

lemma plain_shards:
  assumes "hash_ok h"
  shows "plain (take 2 h)" and "plain (slice 2 2 h)"
proof -
  show "plain (take 2 h)"
    by (rule plain_part [OF set_take_subset _ assms])
      (use hash_ok_length [OF assms] in auto)
  have "set (slice 2 2 h) \<subseteq> set h"
    by (metis set_drop_subset set_take_subset slice_def subset_trans)
  then show "plain (slice 2 2 h)"
    by (rule plain_part [OF _ _ assms])
      (use hash_ok_length [OF assms] in \<open>auto simp: slice_def\<close>)
qed

lemma plain_file:
  assumes "hash_ok h" and "CHR ''/'' \<notin> set ext"
  shows "plain (h @ ''.'' @ to_dec i @ ext)"
proof -
  have "length h = 16" and "CHR ''/'' \<notin> set h"
    using assms hash_ok_length hash_ok_chars by auto
  moreover have "CHR ''/'' \<notin> set (to_dec i)" by (rule to_dec_no_sep) simp
  moreover have "w \<noteq> ''.'' \<and> w \<noteq> ''..''" if "16 \<le> length w" for w :: string
    using that by auto
  ultimately show ?thesis using assms(2) by (simp add: plain_def)
qed

lemma resolve_shard1:
  assumes "hash_ok h" and "root \<noteq> []"
  shows "resolve fs (root @ ''/'' @ take 2 h) = shard1_key (resolve fs root) h"
  using resolve_append_plain [OF assms(2) plain_shards(1) [OF assms(1)]]
  by (simp add: shard1_key_def)

lemma resolve_shard2:
  assumes "hash_ok h" and "root \<noteq> []"
  shows "resolve fs (root @ ''/'' @ take 2 h @ ''/'' @ slice 2 2 h) = shard2_key (resolve fs root) h"
  using resolve_append_plain [of "root @ ''/'' @ take 2 h", OF _ plain_shards(2) [OF assms(1)]]
    resolve_shard1 [OF assms]
  by (simp add: shard1_key_def shard2_key_def)

lemma resolve_part_file:
  assumes "hash_ok h" and "root \<noteq> []" and "CHR ''/'' \<notin> set ext"
  shows "resolve fs (root @ ''/'' @ (take 2 h @ ''/'' @ slice 2 2 h) @ ''/'' @ h @ ''.'' @ to_dec i @ ext)
    = shard2_key (resolve fs root) h @ [h @ ''.'' @ to_dec i @ ext]"
  using resolve_append_plain [of "root @ ''/'' @ take 2 h @ ''/'' @ slice 2 2 h",
      OF _ plain_file [OF assms(1,3)]]
    resolve_shard2 [OF assms(1,2)]
  by simp

lemma resolve_data_part_path:
  assumes "hash_ok h" and "root \<noteq> []"
  shows "\<exists>p. data_part_path root h i = Inr p \<and> p \<noteq> [] \<and>
    resolve fs p = blk_key (resolve fs root) h (unat i)"
  using resolve_part_file [OF assms, of "''.blk''"] assms hash_ok_length [OF assms(1)]
  by (simp add: data_part_path_def shard_dir_ok blk_key_def shard2_key_def)

lemma resolve_bitmap_path:
  assumes "hash_ok h" and "root \<noteq> []"
  shows "\<exists>p. bitmap_path root h i = Inr p \<and> p \<noteq> [] \<and>
    resolve fs p = dmap_key (resolve fs root) h (unat i)"
  using resolve_part_file [OF assms, of "''.dmap''"] assms hash_ok_length [OF assms(1)]
  by (simp add: bitmap_path_def shard_dir_ok dmap_key_def shard2_key_def)

section \<open>Different objects, parts and bitmaps have different files\<close>

lemma file_name_inject:
  assumes "hash_ok h" and "hash_ok h'"
    and "h @ ''.'' @ to_dec i @ ext = h' @ ''.'' @ to_dec j @ ext"
  shows "h = h' \<and> i = j"
  using assms hash_ok_length [OF assms(1)] hash_ok_length [OF assms(2)]
  by (simp add: to_dec_inject)

lemma blk_key_inject:
  assumes "hash_ok h" and "hash_ok h'"
  shows "blk_key rk h i = blk_key rk h' j \<longleftrightarrow> h = h' \<and> i = j"
proof
  assume "blk_key rk h i = blk_key rk h' j"
  then have "h @ ''.'' @ to_dec i @ ''.blk'' = h' @ ''.'' @ to_dec j @ ''.blk''"
    by (simp add: blk_key_def)
  with file_name_inject [OF assms] show "h = h' \<and> i = j" by blast
qed simp

lemma dmap_key_inject:
  assumes "hash_ok h" and "hash_ok h'"
  shows "dmap_key rk h i = dmap_key rk h' j \<longleftrightarrow> h = h' \<and> i = j"
proof
  assume "dmap_key rk h i = dmap_key rk h' j"
  then have "h @ ''.'' @ to_dec i @ ''.dmap'' = h' @ ''.'' @ to_dec j @ ''.dmap''"
    by (simp add: dmap_key_def)
  with file_name_inject [OF assms] show "h = h' \<and> i = j" by blast
qed simp

lemma blk_dmap_differ [simp]: "blk_key rk h i \<noteq> dmap_key rk h' j"
proof
  assume "blk_key rk h i = dmap_key rk h' j"
  then have "last (h @ ''.'' @ to_dec i @ ''.blk'') = last (h' @ ''.'' @ to_dec j @ ''.dmap'')"
    by (simp add: blk_key_def dmap_key_def)
  then show False by simp
qed

lemma shard_keys_differ [simp]:
  "blk_key rk h i \<noteq> shard1_key rk h'" "blk_key rk h i \<noteq> shard2_key rk h'"
  "shard1_key rk h' \<noteq> blk_key rk h i" "shard2_key rk h' \<noteq> blk_key rk h i"
  "dmap_key rk h i \<noteq> shard1_key rk h'" "dmap_key rk h i \<noteq> shard2_key rk h'"
  "shard1_key rk h' \<noteq> dmap_key rk h i" "shard2_key rk h' \<noteq> dmap_key rk h i"
  "shard1_key rk h \<noteq> shard2_key rk h'" "shard2_key rk h' \<noteq> shard1_key rk h"
  by (simp_all add: key_defs)

lemma keys_nonempty [simp]:
  "blk_key rk h i \<noteq> []" "dmap_key rk h i \<noteq> []" "shard1_key rk h \<noteq> []" "shard2_key rk h \<noteq> []"
  by (simp_all add: key_defs)

lemma butlast_keys [simp]:
  "butlast (blk_key rk h i) = shard2_key rk h" "butlast (dmap_key rk h i) = shard2_key rk h"
  "butlast (shard2_key rk h) = shard1_key rk h" "butlast (shard1_key rk h) = rk"
  by (simp_all add: key_defs butlast_append)

end
