(* ===== verification/Block_Store.thy ===== *)
theory Block_Store
  imports Fs_Layout
begin

text \<open>
  \<^verbatim>\<open>cache/block_store.h\<close> and \<^verbatim>\<open>cache/block_store.cc\<close>: objects cut
  into part files of at most 2 GiB below the cache root.  \<open>store_abs\<close> abstracts the file
  system to the contents of the parts of each object; the locale \<open>object_store\<close> is the
  contract the cache manager relies on (reads return slices of a part, writes are
  \<open>file_write\<close> on one part, deletion drops one object), and the interpretation at the end
  shows that the file system operations refine it.
\<close>

section \<open>The class\<close>

record bstore =
  bs_root :: string
  bs_block_size :: u64

definition BlockStore :: "string \<Rightarrow> u64 \<Rightarrow> bstore" where
  "BlockStore cache_root block_sz = \<lparr>bs_root = cache_root, bs_block_size = block_sz\<rparr>"

definition bs_init :: "bstore \<Rightarrow> fsys \<Rightarrow> bool \<times> fsys" where
  "bs_init st fs =
     (if \<not> fs_exists fs (bs_root st) then
        (case create_directories (bs_root st) fs of
           (Some _, fs') \<Rightarrow> (False, fs')
         | (None, fs') \<Rightarrow> (True, fs'))
      else (True, fs))"

definition ensure_shard_dirs :: "string \<Rightarrow> string \<Rightarrow> fsys \<Rightarrow> (exn + unit) \<times> fsys" where
  "ensure_shard_dirs root hh fs =
     (case substr hh 0 2 of
        Inl e \<Rightarrow> (Inl e, fs)
      | Inr a \<Rightarrow>
          (case substr hh 2 2 of
             Inl e \<Rightarrow> (Inl e, fs)
           | Inr b \<Rightarrow>
               (let lvl1 = root @ ''/'' @ a;
                    lvl2 = lvl1 @ ''/'' @ b;
                    fs1 = snd (sys_mkdir lvl1 fs);
                    fs2 = snd (sys_mkdir lvl2 fs1)
                in (Inr (), fs2))))"

text \<open>The result is a descriptor or the negated error number.\<close>

definition open_file :: "string \<Rightarrow> oflag list \<Rightarrow> fsys \<Rightarrow> (int + key) \<times> fsys" where
  "open_file path fl fs =
     (case sys_open path fl fs of
        (Inl e, fs') \<Rightarrow> (Inl (- e), fs')
      | (Inr k, fs') \<Rightarrow> (Inr k, fs'))"

text \<open>The return value and the caller's buffer afterwards.\<close>

definition bs_read :: "bstore \<Rightarrow> string \<Rightarrow> bytes \<Rightarrow> u64 \<Rightarrow> u64 \<Rightarrow> fsys \<Rightarrow> exn + int \<times> bytes" where
  "bs_read st hh buf len off fs =
     (let part_idx = off div kMaxPartSize;
          part_off = off mod kMaxPartSize
      in case data_part_path (bs_root st) hh part_idx of
           Inl e \<Rightarrow> Inl e
         | Inr path \<Rightarrow>
             (case open_file path [O_RDONLY] fs of
                (Inl rc, fs') \<Rightarrow> Inr (rc, buf)
              | (Inr fd, fs') \<Rightarrow>
                  (case sys_pread fd (unat len) (sint part_off) fs' of
                     Inl e \<Rightarrow> Inr (- e, buf)
                   | Inr d \<Rightarrow> Inr (int (length d), splice buf 0 d))))"

definition bs_write ::
    "bstore \<Rightarrow> string \<Rightarrow> bytes \<Rightarrow> u64 \<Rightarrow> bool \<Rightarrow> fsys \<Rightarrow> (exn + int) \<times> fsys" where
  "bs_write st hh buf off mark_dirty fs =
     (case ensure_shard_dirs (bs_root st) hh fs of
        (Inl e, fs0) \<Rightarrow> (Inl e, fs0)
      | (Inr _, fs0) \<Rightarrow>
          (let part_idx = off div kMaxPartSize;
               part_off = off mod kMaxPartSize
           in case data_part_path (bs_root st) hh part_idx of
                Inl e \<Rightarrow> (Inl e, fs0)
              | Inr path \<Rightarrow>
                  (case open_file path [O_RDWR, O_CREAT] fs0 of
                     (Inl rc, fs1) \<Rightarrow> (Inr rc, fs1)
                   | (Inr fd, fs1) \<Rightarrow>
                       (case sys_pwrite fd buf (sint part_off) fs1 of
                          (Inl e, fs2) \<Rightarrow> (Inr (- e), fs2)
                        | (Inr n, fs2) \<Rightarrow> (Inr (int n), fs2)))))"

text \<open>The loop over the directory's entries: those whose name starts with the hash go.\<close>

fun delete_entries :: "string \<Rightarrow> key list \<Rightarrow> bool \<Rightarrow> fsys \<Rightarrow> bool \<times> fsys" where
  "delete_entries hh [] ok fs = (ok, fs)"
| "delete_entries hh (k # ks) ok fs =
     (if prefix hh (last k) then
        (case fs_remove k fs of
           (Some _, fs') \<Rightarrow> delete_entries hh ks False fs'
         | (None, fs') \<Rightarrow> delete_entries hh ks ok fs')
      else delete_entries hh ks ok fs)"

text \<open>\<open>dir.substr(0, dir.find_last_of('/'))\<close>.\<close>

definition before_last_slash :: "string \<Rightarrow> string" where
  "before_last_slash p = rev (tl (dropWhile (\<lambda>c. c \<noteq> CHR ''/'') (rev p)))"

definition delete_object :: "bstore \<Rightarrow> string \<Rightarrow> fsys \<Rightarrow> (exn + bool) \<times> fsys" where
  "delete_object st hh fs =
     (case shard_dir hh of
        Inl e \<Rightarrow> (Inl e, fs)
      | Inr sd \<Rightarrow>
          (let dir = bs_root st @ ''/'' @ sd in
           if \<not> fs_exists fs dir then (Inr True, fs)
           else if lookup fs (resolve fs dir) \<noteq> Some Dir then (Inl (Filesystem_error ENOTDIR), fs)
           else
             (case delete_entries hh (children fs (resolve fs dir)) True fs of
                (ok, fs1) \<Rightarrow>
                  (let fs2 = snd (fs_remove (resolve fs1 dir) fs1);
                       fs3 = snd (fs_remove (resolve fs2 (before_last_slash dir)) fs2)
                   in (Inr ok, fs3)))))"

section \<open>Part arithmetic\<close>

abbreviation part_size :: nat where
  "part_size \<equiv> 2147483648"

lemma unat_kMaxPartSize [part_simps]: "unat kMaxPartSize = part_size"
  by (simp add: kMaxPartSize_def)

lemma unat_part_idx [part_simps]: "unat (off div kMaxPartSize) = unat off div part_size"
  by (simp add: unat_div kMaxPartSize_def)

lemma unat_part_off [part_simps]: "unat (off mod kMaxPartSize) = unat off mod part_size"
  by (simp add: unat_mod kMaxPartSize_def)

lemma sint_part_off [part_simps]: "sint (off mod kMaxPartSize) = int (unat off mod part_size)"
proof -
  have "unat (off mod kMaxPartSize) < part_size" by (simp add: unat_part_off)
  then show ?thesis by (simp add: sint_small unat_part_off)
qed

section \<open>The abstract store and the states the operations work in\<close>

definition store_key :: "bstore \<Rightarrow> fsys \<Rightarrow> key" where
  "store_key st fs = resolve fs (bs_root st)"

text \<open>The contents of the parts of every object.\<close>

definition store_abs :: "bstore \<Rightarrow> fsys \<Rightarrow> string \<Rightarrow> nat \<Rightarrow> bytes option" where
  "store_abs st fs h i =
     (case lookup fs (blk_key (store_key st fs) h i) of Some (File c) \<Rightarrow> Some c | _ \<Rightarrow> None)"

text \<open>The cache root is a directory, no regular file sits where a shard directory belongs, no
  directory where a part belongs, and the environment refuses nothing below the shards.\<close>

definition store_ok :: "bstore \<Rightarrow> fsys \<Rightarrow> bool" where
  "store_ok st fs \<longleftrightarrow>
     fs_wf fs \<and> bs_root st \<noteq> [] \<and> lookup fs (store_key st fs) = Some Dir \<and>
     (\<forall>h bs. hash_ok h \<longrightarrow> lookup fs (shard1_key (store_key st fs) h) \<noteq> Some (File bs) \<and>
        lookup fs (shard2_key (store_key st fs) h) \<noteq> Some (File bs)) \<and>
     (\<forall>h. hash_ok h \<longrightarrow> deny fs (shard1_key (store_key st fs) h) = None \<and>
        deny fs (shard2_key (store_key st fs) h) = None) \<and>
     (\<forall>h i. hash_ok h \<longrightarrow> lookup fs (blk_key (store_key st fs) h i) \<noteq> Some Dir \<and>
        deny fs (blk_key (store_key st fs) h i) = None \<and>
        ioerr fs (blk_key (store_key st fs) h i) = None)"

lemma store_key_env: "same_env fs fs' \<Longrightarrow> store_key st fs' = store_key st fs"
  by (simp add: store_key_def same_env_resolve)

lemma store_okD:
  assumes "store_ok st fs"
  shows "fs_wf fs" and "bs_root st \<noteq> []" and "lookup fs (store_key st fs) = Some Dir"
    and "hash_ok h \<Longrightarrow> lookup fs (shard1_key (store_key st fs) h) \<noteq> Some (File bs)"
    and "hash_ok h \<Longrightarrow> lookup fs (shard2_key (store_key st fs) h) \<noteq> Some (File bs)"
    and "hash_ok h \<Longrightarrow> deny fs (shard1_key (store_key st fs) h) = None"
    and "hash_ok h \<Longrightarrow> deny fs (shard2_key (store_key st fs) h) = None"
    and "hash_ok h \<Longrightarrow> lookup fs (blk_key (store_key st fs) h i) \<noteq> Some Dir"
    and "hash_ok h \<Longrightarrow> deny fs (blk_key (store_key st fs) h i) = None"
    and "hash_ok h \<Longrightarrow> ioerr fs (blk_key (store_key st fs) h i) = None"
  using assms by (auto simp: store_ok_def)

text \<open>A change of the file system that adds only directories, parts and bitmaps of the store,
  or only removes nodes, keeps a state usable.\<close>

lemma store_ok_change:
  assumes ok: "store_ok st fs" and env: "same_env fs fs'" and wf: "fs_wf fs'"
    and root: "lookup fs' (store_key st fs) = Some Dir"
    and shards: "\<And>h bs. hash_ok h \<Longrightarrow> lookup fs' (shard1_key (store_key st fs) h) \<noteq> Some (File bs)"
      "\<And>h bs. hash_ok h \<Longrightarrow> lookup fs' (shard2_key (store_key st fs) h) \<noteq> Some (File bs)"
    and parts: "\<And>h i. hash_ok h \<Longrightarrow> lookup fs' (blk_key (store_key st fs) h i) \<noteq> Some Dir"
  shows "store_ok st fs'"
  using assms store_key_env [OF env, of st] store_okD [OF ok] env
  unfolding store_ok_def same_env_def by simp

section \<open>Writes\<close>

lemma mkdir_missing_or_dir:
  assumes "p \<noteq> []" and "resolve fs p = k" and "k \<noteq> []" and "lookup fs (butlast k) = Some Dir"
    and "\<And>bs. lookup fs k \<noteq> Some (File bs)" and "deny fs k = None"
  shows "lookup (snd (sys_mkdir p fs)) k' = (if k' = k then Some Dir else lookup fs k')"
proof (cases "lookup fs k")
  case None
  then show ?thesis using assms by (simp add: sys_mkdir_def lookup_set_node)
next
  case (Some n)
  then have "n = Dir" using assms(5) by (cases n) auto
  then show ?thesis using Some assms by (simp add: sys_mkdir_def)
qed

lemma ensure_shard_dirs_ok:
  assumes ok: "store_ok st fs" and h: "hash_ok h"
    and res: "ensure_shard_dirs (bs_root st) h fs = (r, fs')"
  shows "r = Inr ()" and "same_env fs fs'" and "fs_wf fs'"
    and "lookup fs' k = (if k = shard1_key (store_key st fs) h \<or> k = shard2_key (store_key st fs) h
                         then Some Dir else lookup fs k)"
proof -
  note okD = store_okD [OF ok]
  let ?rk = "store_key st fs"
  let ?l1 = "bs_root st @ ''/'' @ take 2 h"
  let ?l2 = "?l1 @ ''/'' @ slice 2 2 h"
  define fs1 where "fs1 = snd (sys_mkdir ?l1 fs)"
  have eqs: "r = Inr ()" "fs' = snd (sys_mkdir ?l2 fs1)"
    using res hash_ok_length [OF h]
    by (auto simp: ensure_shard_dirs_def substr_def slice_def Let_def fs1_def)
  have env1: "same_env fs fs1" unfolding fs1_def by (rule sys_mkdir_env)
  have r1: "resolve fs ?l1 = shard1_key ?rk h"
    using resolve_shard1 [OF h okD(2)] by (simp only: store_key_def)
  have r2: "resolve fs1 ?l2 = shard2_key ?rk h"
    using resolve_shard2 [OF h okD(2)]
    by (simp only: store_key_def same_env_resolve [OF env1] append_assoc)
  have l1: "lookup fs1 k' = (if k' = shard1_key ?rk h then Some Dir else lookup fs k')" for k'
    unfolding fs1_def by (rule mkdir_missing_or_dir [OF _ r1]) (simp_all add: okD(3) okD(4,6) [OF h])
  have d2: "deny fs1 (shard2_key ?rk h) = None"
    using env1 okD(7) [OF h] by (simp add: same_env_def)
  have l2: "lookup fs' k' = (if k' = shard2_key ?rk h then Some Dir else lookup fs1 k')" for k'
    unfolding eqs(2)
    by (rule mkdir_missing_or_dir [OF _ r2]) (simp_all add: d2 l1 okD(5) [OF h])
  show "r = Inr ()" by (fact eqs(1))
  show "same_env fs fs'" unfolding eqs(2) by (rule same_env_trans [OF env1 sys_mkdir_env])
  show "fs_wf fs'" unfolding eqs(2) fs1_def using okD(1) by (intro sys_mkdir_wf)
  show "lookup fs' k = (if k = shard1_key ?rk h \<or> k = shard2_key ?rk h then Some Dir else lookup fs k)"
    by (simp add: l2 l1)
qed

lemma open_creat_part:
  assumes "p \<noteq> []" and "resolve fs p = k" and "k \<noteq> []" and "deny fs k = None"
    and "lookup fs k = Some (File c) \<or> lookup fs k = None \<and> c = [] \<and> lookup fs (butlast k) = Some Dir"
  shows "fst (sys_open p [O_RDWR, O_CREAT] fs) = Inr k"
    and "lookup (snd (sys_open p [O_RDWR, O_CREAT] fs)) k' =
      (if k' = k then Some (File c) else lookup fs k')"
  using assms by (auto simp: sys_open_def lookup_set_node)

text \<open>One write: the shards exist afterwards, the part holds the old contents overwritten, every
  other node is as before.\<close>

lemma bs_write_ok:
  assumes ok: "store_ok st fs" and h: "hash_ok h"
    and res: "bs_write st h d off m fs = (r, fs')"
  defines "rk \<equiv> store_key st fs" and "i \<equiv> unat off div part_size"
  shows "r = Inr (int (length d))" and "same_env fs fs'" and "fs_wf fs'"
    and "lookup fs' k =
      (if k = blk_key rk h i
       then Some (File (file_write (case store_abs st fs h i of None \<Rightarrow> [] | Some c \<Rightarrow> c)
                          (unat off mod part_size) d))
       else if k = shard1_key rk h \<or> k = shard2_key rk h then Some Dir else lookup fs k)"
proof -
  note okD = store_okD [OF ok]
  obtain r0 fs0 where dirs: "ensure_shard_dirs (bs_root st) h fs = (r0, fs0)" by force
  note e = ensure_shard_dirs_ok [OF ok h dirs]
  obtain p where p: "data_part_path (bs_root st) h (off div kMaxPartSize) = Inr p" "p \<noteq> []"
    "resolve fs p = blk_key rk h i"
    using resolve_data_part_path [OF h okD(2), of "off div kMaxPartSize" fs]
    by (auto simp: rk_def i_def store_key_def unat_part_idx)
  define old where "old = (case store_abs st fs h i of None \<Rightarrow> [] | Some c \<Rightarrow> c)"
  define fs1 where "fs1 = snd (sys_open p [O_RDWR, O_CREAT] fs0)"
  have same: "lookup fs0 (blk_key rk h i) = lookup fs (blk_key rk h i)"
    "lookup fs0 (shard2_key rk h) = Some Dir"
    by (simp_all add: e(4) rk_def)
  have rp: "resolve fs0 p = blk_key rk h i" and dp: "deny fs0 (blk_key rk h i) = None"
    using p(3) same_env_resolve [OF e(2)] e(2) okD(9) [OF h, of i]
    by (simp_all add: same_env_def rk_def)
  have before: "lookup fs0 (blk_key rk h i) = Some (File old) \<or>
      lookup fs0 (blk_key rk h i) = None \<and> old = [] \<and>
      lookup fs0 (butlast (blk_key rk h i)) = Some Dir"
    using same okD(8) [OF h, of i]
    by (simp add: old_def store_abs_def rk_def split: option.splits node.splits)
  have openr: "sys_open p [O_RDWR, O_CREAT] fs0 = (Inr (blk_key rk h i), fs1)"
    "lookup fs1 (blk_key rk h i) = Some (File old)"
    "\<And>k. k \<noteq> blk_key rk h i \<Longrightarrow> lookup fs1 k = lookup fs0 k"
    using open_creat_part [OF p(2) rp _ dp before] by (simp_all add: fs1_def prod_eq_iff)
  have io: "ioerr fs1 (blk_key rk h i) = None"
    using okD(10) [OF h] e(2) sys_open_env [of fs0 p "[O_RDWR, O_CREAT]"]
    by (auto simp: fs1_def same_env_def rk_def)
  define fs2 where "fs2 = set_node (blk_key rk h i) (File (file_write old (unat off mod part_size) d)) fs1"
  have pw: "sys_pwrite (blk_key rk h i) d (sint (off mod kMaxPartSize)) fs1 = (Inr (length d), fs2)"
    using io openr(2) by (simp add: sys_pwrite_def sint_part_off fs2_def)
  have eq: "r = Inr (int (length d))" "fs' = fs2"
    using res dirs e(1) p(1) openr(1) pw by (auto simp: bs_write_def open_file_def Let_def)
  show "r = Inr (int (length d))" by (fact eq(1))
  have "same_env fs0 fs1" unfolding fs1_def by (rule sys_open_env)
  moreover have "same_env fs1 fs2" by (simp add: fs2_def)
  ultimately show "same_env fs fs'" using e(2) eq(2) by (auto intro: same_env_trans)
  have "fs_wf fs1" unfolding fs1_def by (rule sys_open_wf [OF e(3)])
  then have "fs_wf fs2"
    using sys_pwrite_wf [of fs1 "blk_key rk h i" d "sint (off mod kMaxPartSize)"] pw by simp
  then show "fs_wf fs'" using eq(2) by simp
  show "lookup fs' k =
      (if k = blk_key rk h i then Some (File (file_write (case store_abs st fs h i of
                 None \<Rightarrow> [] | Some c \<Rightarrow> c) (unat off mod part_size) d))
       else if k = shard1_key rk h \<or> k = shard2_key rk h then Some Dir else lookup fs k)"
    by (simp add: eq(2) fs2_def lookup_set_node openr(3) e(4) rk_def old_def)
qed

lemma bs_write_store_ok:
  assumes ok: "store_ok st fs" and h: "hash_ok h" and res: "bs_write st h d off m fs = (r, fs')"
  shows "store_ok st fs'"
proof (rule store_ok_change [OF ok])
  note w = bs_write_ok [OF ok h res] and okD = store_okD [OF ok]
  show "same_env fs fs'" "fs_wf fs'" by (fact w)+
  have "store_key st fs \<noteq> blk_key (store_key st fs) h i" for i
    by (simp add: key_defs)
  then show "lookup fs' (store_key st fs) = Some Dir"
    using okD(3) by (simp add: w(4))
  show "lookup fs' (shard1_key (store_key st fs) h') \<noteq> Some (File bs)"
    "lookup fs' (shard2_key (store_key st fs) h') \<noteq> Some (File bs)"
    "lookup fs' (blk_key (store_key st fs) h' i) \<noteq> Some Dir" if "hash_ok h'" for h' bs i
    using that okD by (auto simp: w(4))
qed

lemma bs_write_abs:
  assumes ok: "store_ok st fs" and h: "hash_ok h" and h': "hash_ok h'"
    and res: "bs_write st h d off m fs = (r, fs')"
  shows "store_abs st fs' h' j =
    (if h' = h \<and> j = unat off div part_size
     then Some (file_write (case store_abs st fs h j of None \<Rightarrow> [] | Some c \<Rightarrow> c)
            (unat off mod part_size) d)
     else store_abs st fs h' j)"
  using bs_write_ok(2,4) [OF ok h res] store_key_env [of fs fs' st] blk_key_inject [OF h' h]
  by (auto simp: store_abs_def)

section \<open>Reads\<close>

lemma bs_read_ok:
  assumes ok: "store_ok st fs" and h: "hash_ok h"
  shows "bs_read st h buf len off fs =
    Inr (case store_abs st fs h (unat off div part_size) of
           None \<Rightarrow> (- ENOENT, buf)
         | Some c \<Rightarrow>
             (let d = slice (unat off mod part_size) (unat len) c
              in (int (length d), splice buf 0 d)))"
proof -
  note okD = store_okD [OF ok]
  let ?k = "blk_key (store_key st fs) h (unat off div part_size)"
  obtain p where p: "data_part_path (bs_root st) h (off div kMaxPartSize) = Inr p" "p \<noteq> []"
    "resolve fs p = ?k"
    using resolve_data_part_path [OF h okD(2), of "off div kMaxPartSize" fs]
    by (auto simp: store_key_def unat_part_idx)
  show ?thesis
  proof (cases "lookup fs ?k")
    case None
    then show ?thesis
      using p okD(9) [OF h] by (simp add: bs_read_def open_file_def sys_open_def store_abs_def)
  next
    case (Some n)
    with okD(8) [OF h] obtain c where c: "n = File c" by (cases n) auto
    then have "sys_open p [O_RDONLY] fs = (Inr ?k, fs)"
      using p okD(9) [OF h] Some by (simp add: sys_open_def)
    then show ?thesis
      using p(1) c okD(10) [OF h] Some
      by (simp add: bs_read_def open_file_def sys_pread_def sint_part_off store_abs_def Let_def)
  qed
qed

section \<open>Deletion\<close>

lemma fs_remove_lookup:
  "lookup (snd (fs_remove k fs)) k' =
     (if k' = k \<and> fst (fs_remove k fs) = None then None else lookup fs k')"
  by (auto simp: fs_remove_def lookup_del_node split: option.splits)

lemma fs_remove_file:
  "lookup fs k = Some (File c) \<Longrightarrow> deny fs k = None \<Longrightarrow> lookup (snd (fs_remove k fs)) k = None"
  by (cases "k = []") (auto simp: fs_remove_def lookup_del_node)

lemma delete_entries_env: "same_env fs (snd (delete_entries h ks ok fs))"
proof (induction h ks ok fs rule: delete_entries.induct)
  case (2 h k ks ok fs)
  then show ?case
    using fs_remove_env [of fs k] by (auto split: prod.splits option.splits intro: same_env_trans)
qed simp

lemma delete_entries_wf: "fs_wf fs \<Longrightarrow> fs_wf (snd (delete_entries h ks ok fs))"
proof (induction h ks ok fs rule: delete_entries.induct)
  case (2 h k ks ok fs)
  then show ?case using fs_remove_wf [of fs k] by (auto split: prod.splits option.splits)
qed simp

lemma delete_entries_other:
  "k' \<notin> set ks \<or> \<not> prefix h (last k') \<Longrightarrow>
   lookup (snd (delete_entries h ks ok fs)) k' = lookup fs k'"
proof (induction h ks ok fs rule: delete_entries.induct)
  case (2 h k ks ok fs)
  then show ?case
    using fs_remove_lookup [of k fs k'] by (auto split: prod.splits option.splits)
qed simp

text \<open>Nothing appears, and a matching regular file that may be removed is gone.\<close>

lemma delete_entries_shrinks:
  "lookup (snd (delete_entries h ks ok fs)) k' = None \<or>
   lookup (snd (delete_entries h ks ok fs)) k' = lookup fs k'"
proof (induction h ks ok fs rule: delete_entries.induct)
  case (2 h k ks ok fs)
  then show ?case
    using fs_remove_lookup [of k fs k'] by (auto split: prod.splits option.splits if_splits)
qed simp

lemma delete_entries_gone:
  "k' \<in> set ks \<Longrightarrow> prefix h (last k') \<Longrightarrow> deny fs k' = None \<Longrightarrow> lookup fs k' \<noteq> Some Dir \<Longrightarrow>
   lookup (snd (delete_entries h ks ok fs)) k' = None"
proof (induction h ks ok fs rule: delete_entries.induct)
  case (2 h k ks ok fs)
  obtain r fs1 where rem: "fs_remove k fs = (r, fs1)" by force
  have env: "deny fs1 = deny fs" using fs_remove_env [of fs k] rem by (simp add: same_env_def)
  show ?case
  proof (cases "k' = k")
    case True
    have "lookup fs1 k = None"
    proof (cases "lookup fs k")
      case None
      then show ?thesis using rem fs_remove_lookup [of k fs k] by (simp split: if_splits)
    next
      case (Some n)
      with "2.prems"(4) True obtain c where "n = File c" by (cases n) auto
      then show ?thesis using Some "2.prems"(3) True rem fs_remove_file [of fs k] by simp
    qed
    then have "lookup (snd (delete_entries h ks ok' fs1)) k = None" for ok'
      using delete_entries_shrinks [of h ks ok' fs1 k] by auto
    then show ?thesis using True "2.prems" rem by (auto split: option.splits)
  next
    case False
    then have "lookup fs1 k' = lookup fs k'" using fs_remove_lookup [of k fs k'] rem by simp
    with False "2.prems" "2.IH" rem env show ?thesis by (auto split: option.splits)
  qed
qed simp

lemma before_last_slash_shard:
  "CHR ''/'' \<notin> set w \<Longrightarrow> before_last_slash (a @ CHR ''/'' # w) = a"
proof -
  assume "CHR ''/'' \<notin> set w"
  then have "dropWhile (\<lambda>c. c \<noteq> CHR ''/'') (rev w @ CHR ''/'' # rev a) = CHR ''/'' # rev a"
    by (induction w rule: rev_induct) auto
  then show ?thesis by (simp add: before_last_slash_def)
qed

text \<open>The two shapes a deletion takes: the object's directory is missing, or its entries are
  removed and then the two shard directories, if they are empty.\<close>

lemma delete_object_cases:
  assumes ok: "store_ok st fs" and h: "hash_ok h" and res: "delete_object st h fs = (r, fs')"
  defines "rk \<equiv> store_key st fs"
  obtains (missing) "lookup fs (shard2_key rk h) = None" "r = Inr True" "fs' = fs"
  | (present) ok1 fs1 where "lookup fs (shard2_key rk h) = Some Dir"
      "delete_entries h (children fs (shard2_key rk h)) True fs = (ok1, fs1)"
      "r = Inr ok1"
      "fs' = snd (fs_remove (shard1_key rk h) (snd (fs_remove (shard2_key rk h) fs1)))"
proof -
  note okD = store_okD [OF ok]
  let ?dir = "bs_root st @ ''/'' @ (take 2 h @ ''/'' @ slice 2 2 h)"
  let ?up = "bs_root st @ ''/'' @ take 2 h"
  have sd: "shard_dir h = Inr (take 2 h @ ''/'' @ slice 2 2 h)"
    using hash_ok_length [OF h] by (simp add: shard_dir_ok)
  have rdir: "resolve fs0 ?dir = shard2_key rk h" "resolve fs0 ?up = shard1_key rk h"
    if "same_env fs fs0" for fs0
    using resolve_shard1 [OF h okD(2)] resolve_shard2 [OF h okD(2)]
    by (simp_all add: rk_def store_key_def same_env_resolve [OF that])
  have up: "before_last_slash ?dir = ?up"
    using before_last_slash_shard [of "slice 2 2 h" ?up] plain_shards(2) [OF h]
    by (simp add: plain_def)
  show thesis
  proof (cases "lookup fs (shard2_key rk h)")
    case None
    then have "r = Inr True" "fs' = fs"
      using res rdir(1) [of fs] by (simp_all add: delete_object_def sd fs_exists_def)
    with None show thesis by (rule missing)
  next
    case (Some n)
    with okD(5) [OF h] have n: "n = Dir" by (cases n) (auto simp: rk_def)
    obtain ok1 fs1 where del: "delete_entries h (children fs (shard2_key rk h)) True fs = (ok1, fs1)"
      by force
    have e1: "same_env fs fs1" using delete_entries_env [of fs h _ True] del by (metis snd_conv)
    then have "same_env fs (snd (fs_remove (shard2_key rk h) fs1))"
      by (rule same_env_trans [OF _ fs_remove_env])
    from rdir(2) [OF this] rdir(1) [OF e1] rdir(1) [of fs] up del res Some n
    have "r = Inr ok1" "fs' = snd (fs_remove (shard1_key rk h) (snd (fs_remove (shard2_key rk h) fs1)))"
      by (auto simp: delete_object_def sd fs_exists_def Let_def)
    with Some n del show thesis by (auto intro: present)
  qed
qed

lemma delete_object_frame:
  assumes ok: "store_ok st fs" and h: "hash_ok h" and res: "delete_object st h fs = (r, fs')"
  shows "same_env fs fs'" and "fs_wf fs'" and "\<exists>b. r = Inr b"
    and "lookup fs' k = None \<or> lookup fs' k = lookup fs k"
    and "k \<noteq> shard1_key (store_key st fs) h \<Longrightarrow> k \<noteq> shard2_key (store_key st fs) h \<Longrightarrow>
      butlast k \<noteq> shard2_key (store_key st fs) h \<or> \<not> prefix h (last k) \<Longrightarrow> lookup fs' k = lookup fs k"
proof -
  let ?s1 = "shard1_key (store_key st fs) h" and ?s2 = "shard2_key (store_key st fs) h"
  have "same_env fs fs' \<and> fs_wf fs' \<and> (\<exists>b. r = Inr b) \<and>
      (lookup fs' k = None \<or> lookup fs' k = lookup fs k) \<and>
      (k \<noteq> ?s1 \<longrightarrow> k \<noteq> ?s2 \<longrightarrow> butlast k \<noteq> ?s2 \<or> \<not> prefix h (last k) \<longrightarrow> lookup fs' k = lookup fs k)"
    using ok h res
  proof (cases rule: delete_object_cases)
    case missing
    then show ?thesis using store_okD(1) [OF ok] by auto
  next
    case (present ok1 fs1)
    let ?ks = "children fs ?s2"
    have fs1: "fs1 = snd (delete_entries h ?ks True fs)" using present(2) by simp
    have "lookup fs' k = (if lookup fs' k = None then None else lookup fs1 k)"
      by (simp add: present(4) fs_remove_lookup)
    then have "lookup fs' k = None \<or> lookup fs' k = lookup fs k"
      using delete_entries_shrinks [of h ?ks True fs k] by (auto simp: fs1 split: if_splits)
    moreover have "lookup fs' k = lookup fs k"
      if "k \<noteq> ?s1" "k \<noteq> ?s2" "butlast k \<noteq> ?s2 \<or> \<not> prefix h (last k)"
      using that delete_entries_other [of k ?ks h True fs]
      by (auto simp: present(4) fs_remove_lookup fs1 children_def)
    moreover have "fs_wf fs'"
      unfolding present(4) fs1 by (intro fs_remove_wf delete_entries_wf store_okD(1) [OF ok])
    moreover have "same_env fs fs'"
      unfolding present(4) fs1 by (intro same_env_trans [OF _ fs_remove_env] delete_entries_env)
    ultimately show ?thesis using present(3) by blast
  qed
  then show "same_env fs fs'" "fs_wf fs'" "\<exists>b. r = Inr b"
    "lookup fs' k = None \<or> lookup fs' k = lookup fs k"
    "k \<noteq> ?s1 \<Longrightarrow> k \<noteq> ?s2 \<Longrightarrow> butlast k \<noteq> ?s2 \<or> \<not> prefix h (last k) \<Longrightarrow> lookup fs' k = lookup fs k"
    by blast+
qed

lemma delete_object_gone:
  assumes ok: "store_ok st fs" and h: "hash_ok h" and res: "delete_object st h fs = (r, fs')"
  shows "lookup fs' (blk_key (store_key st fs) h i) = None"
  using ok h res
proof (cases rule: delete_object_cases)
  case missing
  have "lookup fs (blk_key (store_key st fs) h i) \<noteq> Some n" for n
    using missing(1) fs_wf_parent [OF store_okD(1) [OF ok], of "blk_key (store_key st fs) h i" n] by auto
  then show ?thesis using missing(3) by (cases "lookup fs (blk_key (store_key st fs) h i)") auto
next
  case (present ok1 fs1)
  let ?k = "blk_key (store_key st fs) h i" and ?ks = "children fs (shard2_key (store_key st fs) h)"
  have fs1: "fs1 = snd (delete_entries h ?ks True fs)" using present(2) by simp
  have pre: "prefix h (last ?k)" by (simp add: blk_key_def)
  have "lookup fs1 ?k = None"
  proof (cases "lookup fs ?k")
    case None
    then show ?thesis using delete_entries_shrinks [of h ?ks True fs ?k] by (simp add: fs1)
  next
    case (Some n)
    then have "?k \<in> set ?ks" by (simp add: children_lookup [OF store_okD(1) [OF ok]])
    from delete_entries_gone [OF this pre store_okD(9) [OF ok h] store_okD(8) [OF ok h]]
    show ?thesis by (simp add: fs1)
  qed
  then show ?thesis by (simp add: present(4) fs_remove_lookup)
qed

lemma delete_object_store_ok:
  assumes ok: "store_ok st fs" and h: "hash_ok h" and res: "delete_object st h fs = (r, fs')"
  shows "store_ok st fs'"
proof (rule store_ok_change [OF ok])
  note d = delete_object_frame [OF ok h res] and okD = store_okD [OF ok]
  show "same_env fs fs'" "fs_wf fs'" by (fact d)+
  have "butlast rk \<noteq> shard2_key rk h" "rk \<noteq> shard1_key rk h" "rk \<noteq> shard2_key rk h" for rk
  proof -
    have "length (butlast rk) < length (shard2_key rk h)" by (simp add: shard2_key_def)
    then show "butlast rk \<noteq> shard2_key rk h" by (metis less_irrefl)
  qed (simp_all add: key_defs)
  then show "lookup fs' (store_key st fs) = Some Dir" using okD(3) d(5) by metis
  show "lookup fs' (shard1_key (store_key st fs) h') \<noteq> Some (File bs)"
    "lookup fs' (shard2_key (store_key st fs) h') \<noteq> Some (File bs)"
    "lookup fs' (blk_key (store_key st fs) h' i) \<noteq> Some Dir" if "hash_ok h'" for h' bs i
    using that okD d(4) by (metis option.distinct(1))+
qed

lemma delete_object_abs:
  assumes ok: "store_ok st fs" and h: "hash_ok h" and h': "hash_ok h'"
    and res: "delete_object st h fs = (r, fs')"
  shows "store_abs st fs' h' j = (if h' = h then None else store_abs st fs h' j)"
proof (cases "h' = h")
  case True
  then show ?thesis
    using delete_object_gone [OF ok h res] delete_object_frame(1) [OF ok h res]
    by (simp add: store_abs_def store_key_env)
next
  case False
  have "\<not> prefix h (last (blk_key (store_key st fs) h' j))"
    using False hash_ok_length [OF h] hash_ok_length [OF h']
    by (auto simp: blk_key_def prefix_def append_eq_append_conv)
  then have "lookup fs' (blk_key (store_key st fs) h' j) = lookup fs (blk_key (store_key st fs) h' j)"
    using delete_object_frame(5) [OF ok h res, of "blk_key (store_key st fs) h' j"] by simp
  then show ?thesis
    using False delete_object_frame(1) [OF ok h res] by (simp add: store_abs_def store_key_env)
qed

section \<open>The contract of an object store\<close>

text \<open>\<open>coherent F c\<close>: the parts \<open>c\<close> of an object hold a copy of the file \<open>F\<close>,
  each part a (possibly short) run of \<open>F\<close> from the part's first byte on.\<close>

definition coherent :: "bytes \<Rightarrow> (nat \<Rightarrow> bytes option) \<Rightarrow> bool" where
  "coherent F c \<longleftrightarrow> (\<forall>i d. c i = Some d \<longrightarrow> d = slice (i * part_size) (length d) F)"

definition part_len :: "(nat \<Rightarrow> bytes option) \<Rightarrow> nat \<Rightarrow> nat" where
  "part_len c i = (case c i of None \<Rightarrow> 0 | Some d \<Rightarrow> length d)"

lemma file_write_coherent:
  assumes c: "c = slice b (length c) F" and off: "off \<le> length c"
    and d: "d = slice (b + off) (length d) F"
  shows "file_write c off d = slice b (length (file_write c off d)) F"
proof (cases "d = []")
  case False
  have dl: "b + off + length d \<le> length F"
    by (rule slice_self_bound [OF d False])
  have cl: "b + length c \<le> length F \<or> c = []"
    using slice_self_bound [OF c] by blast
  show ?thesis
  proof (rule nth_equalityI)
    show "length (file_write c off d) = length (slice b (length (file_write c off d)) F)"
      using dl cl False by (auto simp: length_file_write length_slice max_def)
    fix i
    assume i: "i < length (file_write c off d)"
    then have iF: "b + i < length F" using dl cl False by (auto simp: length_file_write max_def split: if_splits)
    have "d ! (i - off) = F ! (b + i)" if "off \<le> i" "i < off + length d"
      using that iF by (subst d) (simp add: nth_slice)
    moreover have "c ! i = F ! (b + i)" if "i < length c"
      using that iF by (subst c) (simp add: nth_slice)
    ultimately have "file_write c off d ! i = F ! (b + i)"
      using i off False by (auto simp: nth_file_write length_file_write max_def split: if_splits)
    then show "file_write c off d ! i = slice b (length (file_write c off d)) F ! i"
      using i iF by (simp add: nth_slice)
  qed
qed (use c in \<open>simp add: file_write_def\<close>)

locale object_store =
  fixes ok :: "'s \<Rightarrow> bool"
    and contents :: "'s \<Rightarrow> string \<Rightarrow> nat \<Rightarrow> bytes option"
    and rd :: "string \<Rightarrow> bytes \<Rightarrow> u64 \<Rightarrow> u64 \<Rightarrow> 's \<Rightarrow> exn + int \<times> bytes"
    and wr :: "string \<Rightarrow> bytes \<Rightarrow> u64 \<Rightarrow> bool \<Rightarrow> 's \<Rightarrow> (exn + int) \<times> 's"
    and del :: "string \<Rightarrow> 's \<Rightarrow> (exn + bool) \<times> 's"
  assumes rd_contents: "ok s \<Longrightarrow> hash_ok h \<Longrightarrow>
      rd h buf len off s =
        Inr (case contents s h (unat off div part_size) of
               None \<Rightarrow> (- ENOENT, buf)
             | Some c \<Rightarrow>
                 (let d = slice (unat off mod part_size) (unat len) c
                  in (int (length d), splice buf 0 d)))"
    and wr_result: "ok s \<Longrightarrow> hash_ok h \<Longrightarrow> wr h d off m s = (r, s') \<Longrightarrow> r = Inr (int (length d))"
    and wr_ok: "ok s \<Longrightarrow> hash_ok h \<Longrightarrow> wr h d off m s = (r, s') \<Longrightarrow> ok s'"
    and wr_contents: "ok s \<Longrightarrow> hash_ok h \<Longrightarrow> hash_ok h' \<Longrightarrow> wr h d off m s = (r, s') \<Longrightarrow>
      contents s' h' j =
        (if h' = h \<and> j = unat off div part_size
         then Some (file_write (case contents s h j of None \<Rightarrow> [] | Some c \<Rightarrow> c)
                (unat off mod part_size) d)
         else contents s h' j)"
    and del_ok: "ok s \<Longrightarrow> hash_ok h \<Longrightarrow> del h s = (r', s') \<Longrightarrow> ok s'"
    and del_contents: "ok s \<Longrightarrow> hash_ok h \<Longrightarrow> hash_ok h' \<Longrightarrow> del h s = (r', s') \<Longrightarrow>
      contents s' h' j = (if h' = h then None else contents s h' j)"
begin

lemma read_after_write:
  assumes "ok s" and "hash_ok h" and "wr h d off m s = (r, s')" and "unat len = length d"
  shows "rd h buf len off s' = Inr (int (length d), splice buf 0 d)"
proof -
  have "contents s' h (unat off div part_size) =
      Some (file_write (case contents s h (unat off div part_size) of None \<Rightarrow> [] | Some c \<Rightarrow> c)
        (unat off mod part_size) d)"
    by (simp add: wr_contents [OF assms(1,2,2,3)])
  then show ?thesis
    by (simp add: rd_contents [OF wr_ok [OF assms(1-3)] assms(2)] assms(4) file_write_read_back Let_def)
qed

lemma write_other_object:
  assumes "ok s" and "hash_ok h" and "hash_ok h'" and "h' \<noteq> h" and "wr h d off m s = (r, s')"
  shows "rd h' buf len off' s' = rd h' buf len off' s"
  using assms
  by (simp add: rd_contents wr_ok [OF assms(1,2,5)] wr_contents [OF assms(1,2,3,5)])

lemma write_other_range:
  assumes s: "ok s" "hash_ok h" "wr h d off m s = (r, s')"
    and c: "contents s h (unat off' div part_size) = Some c"
    and old: "unat off' mod part_size + unat len \<le> length c"
    and apart: "unat off' div part_size \<noteq> unat off div part_size \<or>
      unat off' mod part_size + unat len \<le> unat off mod part_size \<or>
      unat off mod part_size + length d \<le> unat off' mod part_size"
  shows "rd h buf len off' s' = rd h buf len off' s"
proof (cases "unat off' div part_size = unat off div part_size")
  case True
  then have "slice (unat off' mod part_size) (unat len) (file_write c (unat off mod part_size) d)
      = slice (unat off' mod part_size) (unat len) c"
    using old apart by (intro file_write_frame) auto
  then show ?thesis
    using True c wr_contents [OF s(1,2,2,3)]
    by (simp add: rd_contents [OF wr_ok [OF s] s(2)] rd_contents [OF s(1,2)])
next
  case False
  then show ?thesis
    using wr_contents [OF s(1,2,2,3)]
    by (simp add: rd_contents [OF wr_ok [OF s] s(2)] rd_contents [OF s(1,2)])
qed

lemma read_deleted:
  assumes "ok s" and "hash_ok h" and "del h s = (r', s')"
  shows "rd h buf len off s' = Inr (- ENOENT, buf)"
  using del_contents [OF assms(1,2,2,3)]
  by (simp add: rd_contents [OF del_ok [OF assms] assms(2)])

lemma delete_other_object:
  assumes "ok s" and "hash_ok h" and "hash_ok h'" and "h' \<noteq> h" and "del h s = (r', s')"
  shows "rd h' buf len off s' = rd h' buf len off s"
  using assms
  by (simp add: rd_contents del_ok [OF assms(1,2,5)] del_contents [OF assms(1,2,3,5)])

text \<open>A coherent object stays coherent when file data is written without leaving a hole.\<close>

lemma coherent_write:
  assumes s: "ok s" "hash_ok h" "wr h d off m s = (r, s')"
    and F: "coherent F (contents s h)" "d = slice (unat off) (length d) F"
    and nohole: "unat off mod part_size \<le> part_len (contents s h) (unat off div part_size)"
  shows "coherent F (contents s' h)"
  unfolding coherent_def
proof (intro allI impI)
  fix i x
  assume x: "contents s' h i = Some x"
  show "x = slice (i * part_size) (length x) F"
  proof (cases "i = unat off div part_size")
    case True
    define c where "c = (case contents s h i of None \<Rightarrow> [] | Some c \<Rightarrow> c)"
    have cF: "c = slice (i * part_size) (length c) F"
      using F(1) by (auto simp: c_def coherent_def split: option.splits)
    have len: "unat off mod part_size \<le> length c"
      using nohole by (simp add: c_def part_len_def True split: option.splits)
    have "x = file_write c (unat off mod part_size) d"
      using x wr_contents [OF s(1,2,2,3)] True by (simp add: c_def)
    moreover have "unat off = i * part_size + unat off mod part_size"
      by (simp add: True)
    ultimately show ?thesis using file_write_coherent [OF cF len] F(2) by metis
  next
    case False
    then have "contents s h i = Some x" using x wr_contents [OF s(1,2,2,3)] by simp
    then show ?thesis using F(1) by (simp add: coherent_def)
  qed
qed

end

interpretation bs: object_store "store_ok st" "store_abs st" "bs_read st" "bs_write st"
  "delete_object st" for st
  using bs_read_ok bs_write_ok(1) bs_write_store_ok bs_write_abs delete_object_store_ok
    delete_object_abs
  by unfold_locales blast+

end
