(* ===== verification/Dirty_Bitmap.thy ===== *)
theory Dirty_Bitmap
  imports Cache_Prelude
begin

unbundle bit_operations_syntax

text \<open>
  The byte encoding of dirty bitmaps in \<^verbatim>\<open>cache/policy/metadata/metadata_store.cc\<close>: the loop of
  \<open>persistBitmap\<close> that packs a \<open>vector<bool>\<close> into bytes and the nested loop of
  \<open>loadBitmap\<close> that unpacks them, with the equations that characterise them bit by bit and
  the round trip.
\<close>

section \<open>The two loops\<close>

text \<open>\<open>vec.resize(n, false)\<close>.\<close>

definition resize :: "nat \<Rightarrow> bool list \<Rightarrow> bool list" where
  "resize n v = take n v @ replicate (n - length v) False"

definition pack_step :: "bool list \<Rightarrow> nat \<Rightarrow> bytes \<Rightarrow> bytes" where
  "pack_step bits i bs =
     (if bits ! i then bs[i div 8 := bs ! (i div 8) OR push_bit (i mod 8) 1] else bs)"

definition pack_bits :: "bool list \<Rightarrow> bytes" where
  "pack_bits bits =
     fold (pack_step bits) [0..<length bits] (replicate ((length bits + 7) div 8) 0)"

definition unpack_step :: "bytes \<Rightarrow> nat \<Rightarrow> bool list \<Rightarrow> bool list" where
  "unpack_step bs i vec =
     fold (\<lambda>b v. v[i * 8 + b := (bs ! i AND push_bit b 1 \<noteq> 0)]) [0..<8] vec"

definition unpack_bits :: "bytes \<Rightarrow> bool list \<Rightarrow> bool list" where
  "unpack_bits bs vec = fold (unpack_step bs) [0..<length bs] vec"

section \<open>Packing\<close>

lemma length_resize [simp]: "length (resize n v) = n"
  by (auto simp: resize_def)

lemma nth_resize: "i < n \<Longrightarrow> resize n v ! i = (i < length v \<and> v ! i)"
  by (auto simp: resize_def nth_append)

lemma length_pack_loop [simp]: "length (fold (pack_step bits) is bs) = length bs"
  by (induction "is" arbitrary: bs) (auto simp: pack_step_def)

lemma length_pack_bits [buf_simps]: "length (pack_bits bits) = (length bits + 7) div 8"
  by (simp add: pack_bits_def)

lemma bit_pack_step:
  assumes "i div 8 < length bs" and "k < length bs" and "b < 8"
  shows "bit (pack_step bits i bs ! k) b = (bit (bs ! k) b \<or> i = 8 * k + b \<and> bits ! i)"
proof -
  have "k = i div 8 \<and> b = i mod 8 \<longleftrightarrow> i = 8 * k + b" using assms(3) by auto
  then show ?thesis
    using assms
    by (auto simp: pack_step_def nth_list_update bit_or_iff bit_exp_iff)
qed

lemma bit_pack_loop:
  assumes "n \<le> length bits" and "(length bits + 7) div 8 = length bs" and "k < length bs" and "b < 8"
  shows "bit (fold (pack_step bits) [0..<n] bs ! k) b =
    (bit (bs ! k) b \<or> 8 * k + b < n \<and> bits ! (8 * k + b))"
  using assms
proof (induction n)
  case (Suc n)
  have "n div 8 < length bs" using Suc.prems(1,2) by simp
  then show ?case using Suc bit_pack_step [of n "fold (pack_step bits) [0..<n] bs" k b bits]
    by (auto simp: less_Suc_eq)
qed simp

lemma bit_pack_bits:
  assumes "k < (length bits + 7) div 8" and "b < 8"
  shows "bit (pack_bits bits ! k) b = (8 * k + b < length bits \<and> bits ! (8 * k + b))"
  using assms bit_pack_loop [of "length bits" bits "replicate ((length bits + 7) div 8) 0" k b]
  by (simp add: pack_bits_def)

section \<open>Unpacking\<close>

lemma and_exp_eq_0: "(w :: byte) AND 2 ^ b = 0 \<longleftrightarrow> \<not> (b < 8 \<and> bit w b)"
proof -
  have "w AND 2 ^ b \<noteq> 0 \<longleftrightarrow> (\<exists>n. bit (w AND 2 ^ b) n)"
    by (metis bit_0_eq bot_apply bot_bool_def bit_eqI)
  also have "\<dots> \<longleftrightarrow> b < 8 \<and> bit w b"
    by (auto simp: bit_and_iff bit_exp_iff)
  finally show ?thesis by blast
qed

lemma unpack_step_prefix:
  fixes bs :: bytes
  assumes "i < length bs" and "8 * length bs \<le> length vec" and "n \<le> 8"
  shows "length (fold (\<lambda>b v. v[i * 8 + b := (bs ! i AND push_bit b 1 \<noteq> 0)]) [0..<n] vec) = length vec \<and>
    (\<forall>j < length vec. fold (\<lambda>b v. v[i * 8 + b := (bs ! i AND push_bit b 1 \<noteq> 0)]) [0..<n] vec ! j =
      (if i * 8 \<le> j \<and> j < i * 8 + n then bit (bs ! i) (j - i * 8) else vec ! j))"
  using assms(3)
proof (induction n)
  case (Suc n)
  then show ?case
    by (auto simp: nth_list_update and_exp_eq_0 less_Suc_eq)
qed auto

lemma unpack_step_nth:
  assumes "i < length bs" and "8 * length bs \<le> length vec"
  shows "length (unpack_step bs i vec) = length vec"
    and "j < length vec \<Longrightarrow> unpack_step bs i vec ! j =
      (if j div 8 = i then bit (bs ! i) (j mod 8) else vec ! j)"
proof -
  have div: "i * 8 \<le> j \<and> j < i * 8 + 8 \<longleftrightarrow> j div 8 = i" and "j div 8 = i \<Longrightarrow> j - i * 8 = j mod 8"
    by (auto simp: minus_div_mult_eq_mod)
  then show "length (unpack_step bs i vec) = length vec"
    "j < length vec \<Longrightarrow> unpack_step bs i vec ! j =
      (if j div 8 = i then bit (bs ! i) (j mod 8) else vec ! j)"
    using unpack_step_prefix [OF assms, of 8] unfolding unpack_step_def by auto
qed

lemma unpack_loop:
  assumes "n \<le> length bs" and "8 * length bs \<le> length vec"
  shows "length (fold (unpack_step bs) [0..<n] vec) = length vec \<and>
    (\<forall>j < length vec. fold (unpack_step bs) [0..<n] vec ! j =
       (if j div 8 < n then bit (bs ! (j div 8)) (j mod 8) else vec ! j))"
  using assms(1)
proof (induction n)
  case (Suc n)
  then have "n < length bs" by simp
  with Suc assms(2) show ?case
    by (auto simp: unpack_step_nth less_Suc_eq)
qed simp

lemma unpack_bits_eq:
  assumes "length vec = 8 * length bs"
  shows "unpack_bits bs vec = map (\<lambda>j. bit (bs ! (j div 8)) (j mod 8)) [0..<8 * length bs]"
proof (rule nth_equalityI)
  show "length (unpack_bits bs vec) = length (map (\<lambda>j. bit (bs ! (j div 8)) (j mod 8)) [0..<8 * length bs])"
    using unpack_loop [of "length bs" bs vec] assms by (simp add: unpack_bits_def)
  fix j
  assume "j < length (unpack_bits bs vec)"
  then have j: "j < 8 * length bs" using unpack_loop [of "length bs" bs vec] assms by (simp add: unpack_bits_def)
  then have "j div 8 < length bs" by auto
  with j show "unpack_bits bs vec ! j = map (\<lambda>j. bit (bs ! (j div 8)) (j mod 8)) [0..<8 * length bs] ! j"
    using unpack_loop [of "length bs" bs vec] assms by (simp add: unpack_bits_def)
qed

text \<open>Unpacking the first \<open>m\<close> bytes of a packed vector gives its first \<open>8 m\<close> bits.\<close>

lemma unpack_take_pack:
  assumes "m \<le> (length bits + 7) div 8" and "length vec = 8 * m"
  shows "unpack_bits (take m (pack_bits bits)) vec = resize (8 * m) bits"
proof (rule nth_equalityI)
  have len: "length (take m (pack_bits bits)) = m" using assms(1) by (simp add: length_pack_bits)
  note eq = unpack_bits_eq [of vec "take m (pack_bits bits)", unfolded len, OF assms(2)]
  show "length (unpack_bits (take m (pack_bits bits)) vec) = length (resize (8 * m) bits)"
    by (simp add: eq)
  fix j
  assume "j < length (unpack_bits (take m (pack_bits bits)) vec)"
  then have j: "j < 8 * m" by (simp add: eq)
  then have k: "j div 8 < m" by auto
  then have "bit (pack_bits bits ! (j div 8)) (j mod 8) = (j < length bits \<and> bits ! j)"
    using assms(1) bit_pack_bits [of "j div 8" bits "j mod 8"] by simp
  then show "unpack_bits (take m (pack_bits bits)) vec ! j = resize (8 * m) bits ! j"
    using j k by (simp add: eq nth_resize)
qed

end
