(* ===== verification/Metadata_Store.thy ===== *)
theory Metadata_Store
  imports Dirty_Bitmap Fs_Layout
begin

text \<open>
  \<^verbatim>\<open>cache/policy/metadata/metadata_store.h\<close> and
  \<^verbatim>\<open>cache/policy/metadata/metadata_store.cc\<close>: per-file metadata in an SQLite table and dirty
  bitmaps in memory, flushed to \<^verbatim>\<open>.dmap\<close> files.  SQLite is not part of the repository: it
  is the parameter \<open>sq\<close>, a record of the library calls the class makes, and the properties
  name what they rely on (\<open>sqlite_table\<close>: the six statements of the class act on a table
  keyed by path as SQL says).  The text of each statement is the constant the code passes.
\<close>

section \<open>The SQLite interface\<close>

datatype sqlval = Text string | Int64 u64 | Null

text \<open>\<open>sq_run\<close> is a prepared statement stepped to its end: the rows it yields and whether it
  ended with \<open>SQLITE_DONE\<close>.  \<open>sq_text_int\<close> is the conversion of a text column read as
  an integer.\<close>

record 'db sqlite =
  sq_open :: "string \<Rightarrow> 'db option"
  sq_exec :: "'db \<Rightarrow> string \<Rightarrow> bool \<times> 'db"
  sq_prepare :: "'db \<Rightarrow> string \<Rightarrow> bool"
  sq_run :: "'db \<Rightarrow> string \<Rightarrow> sqlval list \<Rightarrow> (sqlval list list \<times> bool) \<times> 'db"
  sq_text_int :: "string \<Rightarrow> u64"

text \<open>A string bound as \<open>c_str()\<close> with length -1 stops at its first NUL (\<open>c_str\<close>).
  \<open>sqlite3_column_text\<close>: a NULL column is a null pointer, and constructing a
  \<open>std::string\<close> from it is undefined.\<close>

fun column_text :: "sqlval \<Rightarrow> exn + string" where
  "column_text (Text s) = Inr (c_str s)"
| "column_text (Int64 w) = Inr (to_string_int (sint w))"
| "column_text Null = Inl Undefined_behaviour"

fun column_int64 :: "'db sqlite \<Rightarrow> sqlval \<Rightarrow> u64" where
  "column_int64 sq (Int64 w) = w"
| "column_int64 sq (Text s) = sq_text_int sq s"
| "column_int64 sq Null = 0"

section \<open>The class\<close>

record cache_metadata =
  cm_path :: string
  cm_local_path :: string
  cm_size :: u64
  cm_timestamp :: u64
  cm_last_accessed :: u64
  cm_dirty :: bool

type_synonym bitmaps = "(string \<times> (u64 \<times> bool list) list) list"

record 'db mstore =
  ms_db_path :: string
  ms_db_handle :: "'db option"
  ms_cache_root :: string
  ms_bitmap :: bitmaps

definition MetadataStore :: "string \<Rightarrow> string \<Rightarrow> 'db mstore" where
  "MetadataStore db_path cache_root =
     \<lparr>ms_db_path = db_path, ms_db_handle = None, ms_cache_root = cache_root, ms_bitmap = []\<rparr>"

definition sql_create :: string where
  "sql_create = ''CREATE TABLE IF NOT EXISTS metadata (path TEXT PRIMARY KEY,local_path TEXT,size INTEGER,timestamp INTEGER,last_accessed INTEGER,dirty INTEGER);''"

definition sql_get :: string where
  "sql_get = ''SELECT local_path, size, timestamp, last_accessed, dirty FROM metadata WHERE path=?;''"

definition sql_put :: string where
  "sql_put = ''INSERT INTO metadata (path, local_path, size, timestamp, last_accessed, dirty) VALUES (?, ?, ?, ?, ?, ?) ON CONFLICT(path) DO UPDATE SET local_path=excluded.local_path, size=excluded.size, timestamp=excluded.timestamp, last_accessed=excluded.last_accessed, dirty=excluded.dirty;''"

definition sql_access :: string where
  "sql_access = ''UPDATE metadata SET last_accessed=? WHERE path=?;''"

definition sql_dirty :: string where
  "sql_dirty = ''UPDATE metadata SET dirty=? WHERE path=?;''"

definition sql_remove :: string where
  "sql_remove = ''DELETE FROM metadata WHERE path=?;''"

definition sql_all :: string where
  "sql_all = ''SELECT path, local_path, size, timestamp, last_accessed, dirty FROM metadata;''"

definition sql_drop :: string where
  "sql_drop = ''DROP TABLE IF EXISTS metadata;''"

definition ms_init :: "'db sqlite \<Rightarrow> 'db mstore \<Rightarrow> bool \<times> 'db mstore" where
  "ms_init sq m =
     (case sq_open sq (ms_db_path m) of
        None \<Rightarrow> (False, m)
      | Some db \<Rightarrow>
          (case sq_exec sq db sql_create of
             (ok, db') \<Rightarrow> (ok, m\<lparr>ms_db_handle := Some db'\<rparr>)))"

text \<open>\<open>sqlite3_prepare_v2\<close> on a null handle reports \<open>SQLITE_MISUSE\<close>.\<close>

definition prepared :: "'db sqlite \<Rightarrow> 'db mstore \<Rightarrow> string \<Rightarrow> 'db option" where
  "prepared sq m sql =
     (case ms_db_handle m of
        None \<Rightarrow> None
      | Some db \<Rightarrow> if sq_prepare sq db sql then Some db else None)"

definition metadata_row :: "'db sqlite \<Rightarrow> string \<Rightarrow> sqlval list \<Rightarrow> exn + cache_metadata" where
  "metadata_row sq path row =
     (case column_text (row ! 0) of
        Inl e \<Rightarrow> Inl e
      | Inr lp \<Rightarrow>
          Inr \<lparr>cm_path = path, cm_local_path = lp, cm_size = column_int64 sq (row ! 1),
               cm_timestamp = column_int64 sq (row ! 2), cm_last_accessed = column_int64 sq (row ! 3),
               cm_dirty = (column_int64 sq (row ! 4) AND 0xffffffff \<noteq> 0)\<rparr>)"

definition ms_get :: "'db sqlite \<Rightarrow> 'db mstore \<Rightarrow> string \<Rightarrow> exn + cache_metadata option" where
  "ms_get sq m path =
     (case prepared sq m sql_get of
        None \<Rightarrow> Inr None
      | Some db \<Rightarrow>
          (case fst (fst (sq_run sq db sql_get [Text (c_str path)])) of
             [] \<Rightarrow> Inr None
           | row # _ \<Rightarrow> map_sum id Some (metadata_row sq path row)))"

text \<open>A statement without result rows: \<open>sqlite3_step\<close> answers \<open>SQLITE_DONE\<close> at once.\<close>

definition run_update :: "'db sqlite \<Rightarrow> 'db mstore \<Rightarrow> string \<Rightarrow> sqlval list \<Rightarrow> bool \<times> 'db mstore" where
  "run_update sq m sql args =
     (case prepared sq m sql of
        None \<Rightarrow> (False, m)
      | Some db \<Rightarrow>
          (case sq_run sq db sql args of
             ((rows, fin), db') \<Rightarrow> (rows = [] \<and> fin, m\<lparr>ms_db_handle := Some db'\<rparr>)))"

definition bool_val :: "bool \<Rightarrow> sqlval" where
  "bool_val b = Int64 (if b then 1 else 0)"

definition ms_put :: "'db sqlite \<Rightarrow> cache_metadata \<Rightarrow> 'db mstore \<Rightarrow> bool \<times> 'db mstore" where
  "ms_put sq meta m =
     run_update sq m sql_put
       [Text (c_str (cm_path meta)), Text (c_str (cm_local_path meta)), Int64 (cm_size meta),
        Int64 (cm_timestamp meta), Int64 (cm_last_accessed meta), bool_val (cm_dirty meta)]"

definition updateAccessTime :: "'db sqlite \<Rightarrow> string \<Rightarrow> u64 \<Rightarrow> 'db mstore \<Rightarrow> bool \<times> 'db mstore" where
  "updateAccessTime sq path last_accessed m =
     run_update sq m sql_access [Int64 last_accessed, Text (c_str path)]"

definition markDirty :: "'db sqlite \<Rightarrow> string \<Rightarrow> bool \<Rightarrow> 'db mstore \<Rightarrow> bool \<times> 'db mstore" where
  "markDirty sq path dirty m = run_update sq m sql_dirty [bool_val dirty, Text (c_str path)]"

definition ms_remove :: "'db sqlite \<Rightarrow> string \<Rightarrow> 'db mstore \<Rightarrow> bool \<times> 'db mstore" where
  "ms_remove sq path m = run_update sq m sql_remove [Text (c_str path)]"

fun rows_loop :: "'db sqlite \<Rightarrow> sqlval list list \<Rightarrow> exn + cache_metadata list" where
  "rows_loop sq [] = Inr []"
| "rows_loop sq (row # rows) =
     (case column_text (row ! 0) of
        Inl e \<Rightarrow> Inl e
      | Inr p \<Rightarrow>
          (case metadata_row sq p (tl row) of
             Inl e \<Rightarrow> Inl e
           | Inr meta \<Rightarrow> map_sum id ((#) meta) (rows_loop sq rows)))"

definition allEntries :: "'db sqlite \<Rightarrow> 'db mstore \<Rightarrow> exn + cache_metadata list" where
  "allEntries sq m =
     (case prepared sq m sql_all of
        None \<Rightarrow> Inr []
      | Some db \<Rightarrow> rows_loop sq (fst (fst (sq_run sq db sql_all []))))"

text \<open>The database as it is when the handle is closed, and the object without its handle.\<close>

definition ms_cleanup :: "'db sqlite \<Rightarrow> 'db mstore \<Rightarrow> 'db option \<times> 'db mstore" where
  "ms_cleanup sq m =
     (case ms_db_handle m of
        None \<Rightarrow> (None, m)
      | Some db \<Rightarrow> (Some (snd (sq_exec sq db sql_drop)), m\<lparr>ms_db_handle := None\<rparr>))"

section \<open>Dirty bitmaps\<close>

definition bits_of :: "bitmaps \<Rightarrow> string \<Rightarrow> u64 \<Rightarrow> bool list" where
  "bits_of bm h i =
     (case map_of bm h of
        None \<Rightarrow> []
      | Some parts \<Rightarrow> (case map_of parts i of None \<Rightarrow> [] | Some v \<Rightarrow> v))"

definition set_bits :: "string \<Rightarrow> u64 \<Rightarrow> bool list \<Rightarrow> bitmaps \<Rightarrow> bitmaps" where
  "set_bits h i v bm =
     AList.update h (AList.update i v (case map_of bm h of None \<Rightarrow> [] | Some parts \<Rightarrow> parts)) bm"

text \<open>The index past the last block, \<open>block_idx + 1\<close>, is a \<open>size_t\<close>.\<close>

definition markDirtyBlock :: "string \<Rightarrow> u64 \<Rightarrow> u64 \<Rightarrow> 'db mstore \<Rightarrow> exn + 'db mstore" where
  "markDirtyBlock h part_idx block_idx m =
     (let vec = bits_of (ms_bitmap m) h part_idx;
          vec' = (if length vec \<le> unat block_idx then resize (unat (block_idx + 1)) vec else vec)
      in if unat block_idx < length vec'
         then Inr (m\<lparr>ms_bitmap := set_bits h part_idx (vec'[unat block_idx := True]) (ms_bitmap m)\<rparr>)
         else Inl Undefined_behaviour)"

definition persistBitmap ::
    "'db mstore \<Rightarrow> string \<Rightarrow> u64 \<Rightarrow> bool list \<Rightarrow> fsys \<Rightarrow> (exn + bool) \<times> fsys" where
  "persistBitmap m h part_idx bits fs =
     (if bits = [] then (Inr True, fs)
      else case bitmap_path (ms_cache_root m) h part_idx of
        Inl e \<Rightarrow> (Inl e, fs)
      | Inr path \<Rightarrow>
          (case create_directories (parent_path path) fs of
             (Some e, fs1) \<Rightarrow> (Inl (Filesystem_error e), fs1)
           | (None, fs1) \<Rightarrow>
               (let bs = pack_bits bits in
                case sys_open path [O_RDWR, O_CREAT, O_TRUNC] fs1 of
                  (Inl _, fs2) \<Rightarrow> (Inr False, fs2)
                | (Inr fd, fs2) \<Rightarrow>
                    (case sys_pwrite fd bs 0 fs2 of
                       (Inl _, fs3) \<Rightarrow> (Inr False, fs3)
                     | (Inr n, fs3) \<Rightarrow> (Inr (n = length bs), fs3)))))"

fun flush_parts ::
    "'db mstore \<Rightarrow> string \<Rightarrow> (u64 \<times> bool list) list \<Rightarrow> bool \<Rightarrow> fsys \<Rightarrow> (exn + bool) \<times> fsys" where
  "flush_parts m h [] ok fs = (Inr ok, fs)"
| "flush_parts m h ((part_idx, bits) # rest) ok fs =
     (case persistBitmap m h part_idx bits fs of
        (Inl e, fs') \<Rightarrow> (Inl e, fs')
      | (Inr r, fs') \<Rightarrow> flush_parts m h rest (ok \<and> r) fs')"

definition flushBitmaps :: "'db mstore \<Rightarrow> string \<Rightarrow> fsys \<Rightarrow> (exn + bool) \<times> fsys" where
  "flushBitmaps m h fs =
     (case map_of (ms_bitmap m) h of
        None \<Rightarrow> (Inr True, fs)
      | Some parts \<Rightarrow> flush_parts m h parts True fs)"

text \<open>The number of bytes read is \<open>(file_size + 7) / 8\<close>, as in the code.\<close>

definition loadBitmap :: "string \<Rightarrow> u64 \<Rightarrow> fsys \<Rightarrow> 'db mstore \<Rightarrow> (exn + bool) \<times> 'db mstore" where
  "loadBitmap h part_idx fs m =
     (case bitmap_path (ms_cache_root m) h part_idx of
        Inl e \<Rightarrow> (Inl e, m)
      | Inr path \<Rightarrow>
          (if \<not> fs_exists fs path then (Inr True, m)
           else case sys_open path [O_RDONLY] fs of
             (Inl _, fs') \<Rightarrow> (Inr False, m)
           | (Inr fd, fs') \<Rightarrow>
               (case lookup fs (resolve fs path) of
                  Some (File content) \<Rightarrow>
                    (let n = (length content + 7) div 8 in
                     case sys_pread fd n 0 fs' of
                       Inl _ \<Rightarrow> (Inr False, m)
                     | Inr d \<Rightarrow>
                         (let bs = splice (replicate n 0) 0 d;
                              vec = resize (length bs * 8) (bits_of (ms_bitmap m) h part_idx)
                          in (Inr True, m\<lparr>ms_bitmap :=
                                set_bits h part_idx (unpack_bits bs vec) (ms_bitmap m)\<rparr>)))
                | _ \<Rightarrow> (Inl (Filesystem_error EISDIR), m))))"

section \<open>What the table operations rely on\<close>

text \<open>\<open>tbl db\<close> is the table: path to the five other columns.  The statements prepare, a
  lookup yields the row of the path, the upsert stores it, an update changes one column of an
  existing row, a deletion drops it.\<close>

definition sqlite_table :: "'db sqlite \<Rightarrow> ('db \<Rightarrow> string \<rightharpoonup> sqlval list) \<Rightarrow> bool" where
  "sqlite_table sq tbl \<longleftrightarrow>
     (\<forall>db. \<forall>sql \<in> {sql_get, sql_put, sql_access, sql_dirty, sql_remove}. sq_prepare sq db sql) \<and>
     (\<forall>db p. fst (sq_run sq db sql_get [Text p]) =
        ((case tbl db p of None \<Rightarrow> [] | Some r \<Rightarrow> [r]), True)) \<and>
     (\<forall>db p l s t a d. fst (sq_run sq db sql_put [Text p, l, s, t, a, d]) = ([], True) \<and>
        tbl (snd (sq_run sq db sql_put [Text p, l, s, t, a, d])) = (tbl db)(p \<mapsto> [l, s, t, a, d])) \<and>
     (\<forall>db p a. fst (sq_run sq db sql_access [a, Text p]) = ([], True) \<and>
        tbl (snd (sq_run sq db sql_access [a, Text p])) =
          (tbl db)(p := map_option (\<lambda>r. r[3 := a]) (tbl db p))) \<and>
     (\<forall>db p d. fst (sq_run sq db sql_dirty [d, Text p]) = ([], True) \<and>
        tbl (snd (sq_run sq db sql_dirty [d, Text p])) =
          (tbl db)(p := map_option (\<lambda>r. r[4 := d]) (tbl db p))) \<and>
     (\<forall>db p. fst (sq_run sq db sql_remove [Text p]) = ([], True) \<and>
        tbl (snd (sq_run sq db sql_remove [Text p])) = (tbl db)(p := None))"

text \<open>The row a lookup finds.\<close>

definition ms_row :: "('db \<Rightarrow> string \<rightharpoonup> sqlval list) \<Rightarrow> 'db mstore \<Rightarrow> string \<Rightarrow> sqlval list option" where
  "ms_row tbl m p = (case ms_db_handle m of None \<Rightarrow> None | Some db \<Rightarrow> tbl db p)"

lemma sqlite_tableD:
  assumes "sqlite_table sq tbl" and "ms_db_handle m = Some db"
  shows "ms_get sq m p = (case ms_row tbl m (c_str p) of
           None \<Rightarrow> Inr None | Some r \<Rightarrow> map_sum id Some (metadata_row sq p r))"
    and "ms_put sq meta m = (r, m') \<Longrightarrow> r \<and> ms_row tbl m' = (ms_row tbl m)(c_str (cm_path meta) \<mapsto>
           [Text (c_str (cm_local_path meta)), Int64 (cm_size meta), Int64 (cm_timestamp meta),
            Int64 (cm_last_accessed meta), bool_val (cm_dirty meta)])"
    and "updateAccessTime sq p a m = (r, m') \<Longrightarrow> r \<and> ms_row tbl m' =
           (ms_row tbl m)(c_str p := map_option (\<lambda>r. r[3 := Int64 a]) (ms_row tbl m (c_str p)))"
    and "markDirty sq p d m = (r, m') \<Longrightarrow> r \<and> ms_row tbl m' =
           (ms_row tbl m)(c_str p := map_option (\<lambda>r. r[4 := bool_val d]) (ms_row tbl m (c_str p)))"
    and "ms_remove sq p m = (r, m') \<Longrightarrow> r \<and> ms_row tbl m' = (ms_row tbl m)(c_str p := None)"
  using assms
  by (auto simp: sqlite_table_def ms_get_def ms_put_def updateAccessTime_def markDirty_def
      ms_remove_def run_update_def prepared_def ms_row_def fun_eq_iff
      split: option.splits prod.splits list.splits; metis fst_conv snd_conv)+

lemma run_update_handle:
  "ms_db_handle m = Some db \<Longrightarrow> run_update sq m sql args = (r, m') \<Longrightarrow> \<exists>db'. ms_db_handle m' = Some db'"
  by (auto simp: run_update_def prepared_def split: option.splits prod.splits if_splits)

lemma update_handles:
  assumes "ms_db_handle m = Some db"
  shows "ms_put sq meta m = (r, m') \<Longrightarrow> \<exists>db'. ms_db_handle m' = Some db'"
    and "updateAccessTime sq p a m = (r, m') \<Longrightarrow> \<exists>db'. ms_db_handle m' = Some db'"
    and "markDirty sq p d m = (r, m') \<Longrightarrow> \<exists>db'. ms_db_handle m' = Some db'"
    and "ms_remove sq p m = (r, m') \<Longrightarrow> \<exists>db'. ms_db_handle m' = Some db'"
  using assms run_update_handle
  unfolding ms_put_def updateAccessTime_def markDirty_def ms_remove_def by fast+

lemma bool_val_dirty: "(column_int64 sq (bool_val d) AND 0xffffffff \<noteq> 0) = d"
  by (simp add: bool_val_def)

lemma metadata_row_stored:
  "metadata_row sq p [Text l, Int64 s, Int64 t, Int64 a, bool_val d] =
   Inr \<lparr>cm_path = p, cm_local_path = c_str l, cm_size = s, cm_timestamp = t, cm_last_accessed = a, cm_dirty = d\<rparr>"
  by (simp add: metadata_row_def bool_val_dirty)

section \<open>An in-memory table that behaves as assumed\<close>

text \<open>Used to show that \<open>sqlite_table\<close> can hold.\<close>

type_synonym mem_db = "(string \<times> sqlval list) list"

definition mem_run :: "mem_db \<Rightarrow> string \<Rightarrow> sqlval list \<Rightarrow> (sqlval list list \<times> bool) \<times> mem_db" where
  "mem_run db sql args =
     (if sql = sql_get then
        (case args of [Text p] \<Rightarrow> (((case map_of db p of None \<Rightarrow> [] | Some r \<Rightarrow> [r]), True), db)
                    | _ \<Rightarrow> (([], False), db))
      else if sql = sql_put then
        (case args of [Text p, l, s, t, a, d] \<Rightarrow> (([], True), AList.update p [l, s, t, a, d] db)
                    | _ \<Rightarrow> (([], False), db))
      else if sql = sql_access then
        (case args of [a, Text p] \<Rightarrow> (([], True), AList.map_entry p (\<lambda>r. r[3 := a]) db)
                    | _ \<Rightarrow> (([], False), db))
      else if sql = sql_dirty then
        (case args of [d, Text p] \<Rightarrow> (([], True), AList.map_entry p (\<lambda>r. r[4 := d]) db)
                    | _ \<Rightarrow> (([], False), db))
      else if sql = sql_remove then
        (case args of [Text p] \<Rightarrow> (([], True), AList.delete p db) | _ \<Rightarrow> (([], False), db))
      else (([], False), db))"

definition mem_sqlite :: "mem_db sqlite" where
  "mem_sqlite = \<lparr>sq_open = (\<lambda>_. Some []), sq_exec = (\<lambda>db _. (True, db)), sq_prepare = (\<lambda>_ _. True),
     sq_run = mem_run, sq_text_int = (\<lambda>_. 0)\<rparr>"

lemma sql_distinct:
  "sql_get \<noteq> sql_put" "sql_get \<noteq> sql_access" "sql_get \<noteq> sql_dirty" "sql_get \<noteq> sql_remove"
  "sql_put \<noteq> sql_access" "sql_put \<noteq> sql_dirty" "sql_put \<noteq> sql_remove"
  "sql_access \<noteq> sql_dirty" "sql_access \<noteq> sql_remove" "sql_dirty \<noteq> sql_remove"
  by (simp_all add: sql_get_def sql_put_def sql_access_def sql_dirty_def sql_remove_def)

lemma mem_sqlite_table: "sqlite_table mem_sqlite map_of"
  using sql_distinct sql_distinct [symmetric]
  by (auto simp: sqlite_table_def mem_sqlite_def mem_run_def update_conv delete_conv map_of_map_entry
      fun_eq_iff split: option.splits)

section \<open>Properties of the metadata table\<close>



text \<open>Updating the access time or the dirty flag of a stored record changes that field and
  nothing else, removing it makes a later lookup find nothing, and each call reports success,
  also for a path that has no record (for which the lookup still finds nothing).\<close>

lemma ms_update_fields:
  assumes "sqlite_table sq tbl" and "ms_db_handle m = Some db"
    and "CHR 0x00 \<notin> set (cm_path meta)" and "CHR 0x00 \<notin> set (cm_local_path meta)"
    and "m1 = snd (ms_put sq meta m)"
  shows "ms_get sq (snd (updateAccessTime sq (cm_path meta) a m1)) (cm_path meta) =
      Inr (Some (meta\<lparr>cm_last_accessed := a\<rparr>)) \<and>
    ms_get sq (snd (markDirty sq (cm_path meta) d m1)) (cm_path meta) =
      Inr (Some (meta\<lparr>cm_dirty := d\<rparr>)) \<and>
    ms_get sq (snd (ms_remove sq (cm_path meta) m1)) (cm_path meta) = Inr None \<and>
    fst (updateAccessTime sq p a m) \<and> fst (markDirty sq p d m) \<and> fst (ms_remove sq p m)"
proof -
  obtain r where put: "ms_put sq meta m = (r, m1)" using assms(5) by (metis prod.collapse)
  obtain db1 where db1: "ms_db_handle m1 = Some db1"
    using update_handles(1) [OF assms(2) put] by blast
  have row: "ms_row tbl m1 (cm_path meta) = Some [Text (cm_local_path meta), Int64 (cm_size meta),
      Int64 (cm_timestamp meta), Int64 (cm_last_accessed meta), bool_val (cm_dirty meta)]"
    using sqlite_tableD(2) [OF assms(1,2) put] assms(3,4) by (simp add: c_str_id)
  obtain ra ma where acc: "updateAccessTime sq (cm_path meta) a m1 = (ra, ma)" by force
  obtain rd md where dirty: "markDirty sq (cm_path meta) d m1 = (rd, md)" by force
  obtain rr mr where rem: "ms_remove sq (cm_path meta) m1 = (rr, mr)" by force
  obtain dba dbd dbr where dbs: "ms_db_handle ma = Some dba" "ms_db_handle md = Some dbd" "ms_db_handle mr = Some dbr"
    using update_handles(2) [OF db1 acc] update_handles(3) [OF db1 dirty] update_handles(4) [OF db1 rem]
    by blast
  have "ms_get sq ma (cm_path meta) = Inr (Some (meta\<lparr>cm_last_accessed := a\<rparr>))"
    "ms_get sq md (cm_path meta) = Inr (Some (meta\<lparr>cm_dirty := d\<rparr>))"
    "ms_get sq mr (cm_path meta) = Inr None"
    using sqlite_tableD(3) [OF assms(1) db1 acc] sqlite_tableD(4) [OF assms(1) db1 dirty]
      sqlite_tableD(5) [OF assms(1) db1 rem] row assms(3,4)
    by (simp_all add: sqlite_tableD(1) [OF assms(1) dbs(1)] sqlite_tableD(1) [OF assms(1) dbs(2)]
        sqlite_tableD(1) [OF assms(1) dbs(3)] c_str_id metadata_row_stored)
  moreover have "fst (updateAccessTime sq p a m)" "fst (markDirty sq p d m)" "fst (ms_remove sq p m)"
    using sqlite_tableD(3-5) [OF assms(1,2)] by (metis prod.collapse)+
  ultimately show ?thesis using acc dirty rem by simp
qed

lemma ms_update_fields_witness:
  "ms_get mem_sqlite (snd (markDirty mem_sqlite ''/a'' False (snd (ms_put mem_sqlite
       \<lparr>cm_path = ''/a'', cm_local_path = ''/c/a'', cm_size = 5, cm_timestamp = 7,
        cm_last_accessed = 9, cm_dirty = True\<rparr> (snd (ms_init mem_sqlite (MetadataStore ''m.db'' ''/c''))))))) ''/a'' =
   Inr (Some \<lparr>cm_path = ''/a'', cm_local_path = ''/c/a'', cm_size = 5, cm_timestamp = 7,
        cm_last_accessed = 9, cm_dirty = False\<rparr>)"
  using ms_update_fields [OF mem_sqlite_table, of "snd (ms_init mem_sqlite (MetadataStore ''m.db'' ''/c''))" "[]"
      "\<lparr>cm_path = ''/a'', cm_local_path = ''/c/a'', cm_size = 5, cm_timestamp = 7,
        cm_last_accessed = 9, cm_dirty = True\<rparr>" _ 0 False "[]"]
  by (simp add: ms_init_def mem_sqlite_def MetadataStore_def)

section \<open>Properties of the dirty bitmaps\<close>

text \<open>Whether a block of a part is recorded as dirty in memory.\<close>

definition dirty_at :: "'db mstore \<Rightarrow> string \<Rightarrow> u64 \<Rightarrow> nat \<Rightarrow> bool" where
  "dirty_at m h part_idx b =
     (b < length (bits_of (ms_bitmap m) h part_idx) \<and> bits_of (ms_bitmap m) h part_idx ! b)"

lemma bits_of_set_bits:
  "bits_of (set_bits h i v bm) h' i' = (if h' = h \<and> i' = i then v else bits_of bm h' i')"
  by (auto simp: bits_of_def set_bits_def update_conv split: option.splits)

lemma unat_Suc_block: "b \<noteq> SIZE_MAX \<Longrightarrow> unat (b + 1) = Suc (unat b)"
proof -
  assume "b \<noteq> SIZE_MAX"
  then have "1 + b \<noteq> 0" by (simp add: eq_neg_iff_add_eq_0 add.commute)
  then show ?thesis by (simp add: unatSuc add.commute)
qed

text \<open>Marking a block dirty sets its bit, growing the vector when it is too short, and leaves
  every other bit of every part of every object as it was.  The index \<open>SIZE_MAX\<close>, for
  which \<open>block_idx + 1\<close> wraps to 0, is excluded.\<close>

lemma markDirtyBlock_bits:
  assumes "block_idx \<noteq> SIZE_MAX"
  shows "\<exists>m'. markDirtyBlock h part_idx block_idx m = Inr m' \<and>
    (\<forall>h' i' b. dirty_at m' h' i' b \<longleftrightarrow>
       dirty_at m h' i' b \<or> h' = h \<and> i' = part_idx \<and> b = unat block_idx)"
proof -
  let ?vec = "bits_of (ms_bitmap m) h part_idx"
  let ?vec' = "if length ?vec \<le> unat block_idx then resize (unat (block_idx + 1)) ?vec else ?vec"
  have len: "unat block_idx < length ?vec'" using unat_Suc_block [OF assms] by simp
  let ?m = "m\<lparr>ms_bitmap := set_bits h part_idx (?vec'[unat block_idx := True]) (ms_bitmap m)\<rparr>"
  have "markDirtyBlock h part_idx block_idx m = Inr ?m"
    using len by (simp only: markDirtyBlock_def Let_def if_True)
  moreover have "dirty_at ?m h' i' b \<longleftrightarrow>
      dirty_at m h' i' b \<or> h' = h \<and> i' = part_idx \<and> b = unat block_idx" for h' i' b
    using len unat_Suc_block [OF assms]
    by (auto simp: dirty_at_def bits_of_set_bits nth_list_update nth_resize split: if_splits)
  ultimately show ?thesis by blast
qed

lemma unpack_pack_prefix:
  assumes "n = ((length bits + 7) div 8 + 7) div 8"
  shows "unpack_bits (splice (replicate n 0) 0 (slice 0 n (pack_bits bits))) (resize (8 * n) v) =
    resize (8 * n) bits"
proof -
  have "n \<le> (length bits + 7) div 8" using assms by auto
  then have "splice (replicate n 0) 0 (slice 0 n (pack_bits bits)) = take n (pack_bits bits)"
    by (simp add: splice_def slice_def length_pack_bits)
  then show ?thesis
    using unpack_take_pack [OF \<open>n \<le> _\<close>] by simp
qed

text \<open>The states in which the bitmap of a part can be written.\<close>

definition bitmap_ok :: "'db mstore \<Rightarrow> string \<Rightarrow> u64 \<Rightarrow> fsys \<Rightarrow> bool" where
  "bitmap_ok m h part_idx fs \<longleftrightarrow>
     fs_wf fs \<and> hash_ok h \<and> ms_cache_root m \<noteq> [] \<and>
     (let rk = resolve fs (ms_cache_root m); k = dmap_key rk h (unat part_idx) in
      lookup fs (shard2_key rk h) = Some Dir \<and> lookup fs k \<noteq> Some Dir \<and>
      deny fs k = None \<and> ioerr fs k = None)"

lemma open_trunc_file:
  assumes "p \<noteq> []" and "resolve fs p = k" and "k \<noteq> []" and "deny fs k = None"
    and "lookup fs k \<noteq> Some Dir" and "lookup fs (butlast k) = Some Dir"
  shows "sys_open p [O_RDWR, O_CREAT, O_TRUNC] fs = (Inr k, set_node k (File []) fs)"
  using assms by (auto simp: sys_open_def split: option.splits node.splits)

lemma persistBitmap_ok:
  assumes ok: "bitmap_ok m h part_idx fs" and "bits \<noteq> []"
  defines "k \<equiv> dmap_key (resolve fs (ms_cache_root m)) h (unat part_idx)"
  shows "persistBitmap m h part_idx bits fs =
    (Inr True, set_node k (File (pack_bits bits)) (set_node k (File []) fs))"
proof -
  let ?root = "ms_cache_root m" and ?rk = "resolve fs (ms_cache_root m)"
  have okD: "fs_wf fs" "hash_ok h" "?root \<noteq> []" "lookup fs (shard2_key ?rk h) = Some Dir"
    "lookup fs k \<noteq> Some Dir" "deny fs k = None" "ioerr fs k = None"
    using ok by (simp_all add: bitmap_ok_def Let_def k_def)
  let ?file = "h @ ''.'' @ to_dec (unat part_idx) @ ''.dmap''"
  let ?dir = "?root @ ''/'' @ take 2 h @ ''/'' @ slice 2 2 h"
  let ?p = "?dir @ CHR ''/'' # ?file"
  have p: "bitmap_path ?root h part_idx = Inr ?p" "?p \<noteq> []" "resolve fs ?p = k"
    using hash_ok_length [OF okD(2)] resolve_part_file [OF okD(2,3), of "''.dmap''" fs]
    by (simp_all add: bitmap_path_def shard_dir_ok k_def dmap_key_def shard2_key_def)
  have "parent_path ?p = ?dir @ ''/''"
    using plain_file [OF okD(2), of "''.dmap''" "unat part_idx"]
    by (intro parent_path_plain) (simp add: plain_def)
  moreover have "resolve fs (?dir @ ''/'') = shard2_key ?rk h"
    using resolve_shard2 [OF okD(2,3)] resolve_trailing_slash [of ?dir fs] by simp
  ultimately have dirs: "create_directories (parent_path ?p) fs = (None, fs)"
    using okD(4) by (intro create_directories_existing [OF okD(1)]) simp_all
  have "sys_open ?p [O_RDWR, O_CREAT, O_TRUNC] fs = (Inr k, set_node k (File []) fs)"
    using okD(4) by (intro open_trunc_file p(2,3) okD(5,6)) (simp_all add: k_def)
  moreover have "file_write [] 0 (pack_bits bits) = pack_bits bits" by (simp add: file_write_def)
  then have "sys_pwrite k (pack_bits bits) 0 (set_node k (File []) fs) =
      (Inr (length (pack_bits bits)), set_node k (File (pack_bits bits)) (set_node k (File []) fs))"
    using okD(7) by (simp add: sys_pwrite_def lookup_set_node k_def)
  ultimately show ?thesis
    using p(1) dirs assms(2) by (simp add: persistBitmap_def del: append.simps)
qed

text \<open>C25: Persisting a bitmap writes its bits, eight to a byte, to the part's own bitmap file and
  touches no other file, so neither data parts nor the bitmaps of other parts change.  Loading
  the file back restores only the first eighth of it: \<open>loadBitmap\<close> sizes its buffer as
  \<open>(file_size + 7) / 8\<close> bytes although the file already holds packed bytes, so every bit
  past the first \<open>8 * ((n + 7) / 8)\<close>, with \<open>n\<close> the file's size, comes back clean
  (the vector itself is cut to that length).\<close>

theorem persist_load_bitmap:
  assumes "bitmap_ok m h part_idx fs" and "bits \<noteq> []"
    and "ms_cache_root m2 = ms_cache_root m"
  shows "\<exists>fs' m3. persistBitmap m h part_idx bits fs = (Inr True, fs') \<and>
    lookup fs' (dmap_key (resolve fs (ms_cache_root m)) h (unat part_idx)) = Some (File (pack_bits bits)) \<and>
    (\<forall>k. k \<noteq> dmap_key (resolve fs (ms_cache_root m)) h (unat part_idx) \<longrightarrow> lookup fs' k = lookup fs k) \<and>
    loadBitmap h part_idx fs' m2 = (Inr True, m3) \<and>
    (\<forall>h' i'. bits_of (ms_bitmap m3) h' i' =
       (if h' = h \<and> i' = part_idx then resize (8 * (((length bits + 7) div 8 + 7) div 8)) bits
        else bits_of (ms_bitmap m2) h' i'))"
proof -
  let ?k = "dmap_key (resolve fs (ms_cache_root m)) h (unat part_idx)"
  let ?n = "((length bits + 7) div 8 + 7) div 8"
  define fs' where "fs' = set_node ?k (File (pack_bits bits)) (set_node ?k (File []) fs)"
  define m3 where "m3 = m2\<lparr>ms_bitmap := set_bits h part_idx (resize (8 * ?n) bits) (ms_bitmap m2)\<rparr>"
  have okD: "hash_ok h" "ms_cache_root m \<noteq> []" "deny fs ?k = None" "ioerr fs ?k = None"
    using assms(1) by (simp_all add: bitmap_ok_def Let_def)
  obtain p where p: "bitmap_path (ms_cache_root m) h part_idx = Inr p" "p \<noteq> []" "resolve fs' p = ?k"
    using resolve_bitmap_path [OF okD(1,2), of part_idx fs] by (auto simp: fs'_def)
  have look: "lookup fs' ?k = Some (File (pack_bits bits))" by (simp add: fs'_def lookup_set_node)
  have env: "deny fs' ?k = None" "ioerr fs' ?k = None" using okD(3,4) by (simp_all add: fs'_def)
  have "sys_open p [O_RDONLY] fs' = (Inr ?k, fs')"
    using p look env(1) by (simp add: sys_open_def Let_def)
  moreover have "sys_pread ?k ?n 0 fs' = Inr (slice 0 ?n (pack_bits bits))"
    using look env(2) by (simp add: sys_pread_def)
  moreover have "length (splice (replicate ?n 0) 0 (slice 0 ?n (pack_bits bits))) = ?n"
    by (simp add: splice_def slice_def length_pack_bits)
  ultimately have "loadBitmap h part_idx fs' m2 = (Inr True, m3)"
    using p look assms(3) unpack_pack_prefix [OF refl, of bits]
    by (simp add: loadBitmap_def fs_exists_def length_pack_bits m3_def mult.commute)
  moreover have "bits_of (ms_bitmap m3) h' i' = (if h' = h \<and> i' = part_idx then resize (8 * ?n) bits
      else bits_of (ms_bitmap m2) h' i')" for h' i'
    by (simp add: m3_def bits_of_set_bits)
  moreover have "persistBitmap m h part_idx bits fs = (Inr True, fs')"
    unfolding fs'_def by (rule persistBitmap_ok [OF assms(1,2)])
  moreover have "lookup fs' k = lookup fs k" if "k \<noteq> ?k" for k
    using that by (simp add: fs'_def lookup_set_node)
  ultimately show ?thesis using look by blast
qed

text \<open>A file system with one object's shard directories, for the witnesses.\<close>

definition demo_name :: string where
  "demo_name = ''00000000000000ff''"

definition demo_fs :: fsys where
  "demo_fs = \<lparr>cwd = [], nodes = [([''c''], Dir), ([''c'', ''00''], Dir), ([''c'', ''00'', ''00''], Dir)],
     deny = (\<lambda>_. None), ioerr = (\<lambda>_. None)\<rparr>"

lemma demo_bitmap_ok: "bitmap_ok (MetadataStore ''m.db'' ''/c'') demo_name 0 demo_fs"
proof -
  have "fs_wf demo_fs"
    by (auto simp: fs_wf_def demo_fs_def lookup_def split: if_splits)
  moreover have "CHR ''0'' = digit 0" "CHR ''f'' = digit 15" by code_simp+
  then have "hex_char CHR ''0''" "hex_char CHR ''f''" unfolding hex_char_def by simp_all
  then have "hash_ok demo_name" by (simp add: hash_ok_def demo_name_def)
  moreover have "resolve demo_fs ''/c'' = [''c'']"
    by (simp add: resolve_def absolute_def norm_step_def)
  ultimately show ?thesis
    by (simp add: bitmap_ok_def Let_def MetadataStore_def demo_fs_def demo_name_def lookup_def
        shard2_key_def dmap_key_def slice_def)
qed

theorem persist_load_bitmap_witness:
  "\<exists>fs' m3. persistBitmap (MetadataStore ''m.db'' ''/c'' :: mem_db mstore) demo_name 0
       (replicate 128 True) demo_fs = (Inr True, fs') \<and>
     loadBitmap demo_name 0 fs' (MetadataStore ''m.db'' ''/c'' :: mem_db mstore) = (Inr True, m3) \<and>
     bits_of (ms_bitmap m3) demo_name 0 = replicate 16 True"
proof -
  let ?m = "MetadataStore ''m.db'' ''/c'' :: mem_db mstore"
  have n: "resize (8 * (((length (replicate 128 True) + 7) div 8 + 7) div 8)) (replicate 128 True) =
      replicate 16 True"
    by (simp add: resize_def)
  show ?thesis
    using persist_load_bitmap [OF demo_bitmap_ok, of "replicate 128 True" ?m, unfolded n] by force
qed

end
