(* ===== verification/Eviction_Policy.thy ===== *)
theory Eviction_Policy
  imports Cache_Prelude
begin

text \<open>
  The interface both eviction policies offer to the cache (\<^verbatim>\<open>touch\<close>,
  \<^verbatim>\<open>remove\<close>, \<^verbatim>\<open>evict\<close>) as a locale: what each operation does to
  the set of tracked block ids, with \<open>SIZE_MAX\<close> as the answer when there is no victim.
  The lemmas are what a client that evicts in a loop needs: victims are pairwise different,
  the loop ends, and a drained policy answers \<open>SIZE_MAX\<close>.
\<close>

locale eviction_policy =
  fixes inv :: "'s \<Rightarrow> bool"
    and tracked :: "'s \<Rightarrow> u64 set"
    and evict :: "'s \<Rightarrow> u64 \<times> 's"
    and remove :: "u64 \<Rightarrow> 's \<Rightarrow> 's"
    and touch :: "u64 \<Rightarrow> 's \<Rightarrow> 's"
  assumes finite_tracked: "inv s \<Longrightarrow> finite (tracked s)"
    and evict_inv: "inv s \<Longrightarrow> inv (snd (evict s))"
    and remove_inv: "inv s \<Longrightarrow> inv (remove b s)"
    and touch_inv: "inv s \<Longrightarrow> inv (touch b s)"
    and evict_tracked: "inv s \<Longrightarrow> evict s = (v, s') \<Longrightarrow>
      v \<in> tracked s \<and> tracked s' = tracked s - {v} \<or> v = SIZE_MAX \<and> tracked s' = tracked s"
    and remove_tracked: "inv s \<Longrightarrow> tracked (remove b s) = tracked s - {b}"
    and touch_tracked: "inv s \<Longrightarrow> b \<in> tracked (touch b s) \<and> tracked (touch b s) \<subseteq> insert b (tracked s)"
begin

lemma evict_smaller:
  assumes "inv s" and "evict s = (v, s')" and "v \<noteq> SIZE_MAX"
  shows "card (tracked s') < card (tracked s)"
proof -
  have "v \<in> tracked s" and eq: "tracked s' = tracked s - {v}"
    using evict_tracked [OF assms(1,2)] assms(3) by blast+
  then show ?thesis unfolding eq by (intro card_Diff1_less finite_tracked [OF assms(1)])
qed

text \<open>The first \<open>n\<close> answers of a loop that evicts until the policy has no victim.\<close>

fun victims :: "nat \<Rightarrow> 's \<Rightarrow> u64 list \<times> 's" where
  "victims 0 s = ([], s)"
| "victims (Suc n) s =
     (case evict s of (v, s') \<Rightarrow>
        if v = SIZE_MAX then ([], s')
        else (case victims n s' of (vs, s'') \<Rightarrow> (v # vs, s'')))"

lemma victims_tracked:
  assumes "inv s" and "victims n s = (vs, s')"
  shows "inv s' \<and> set vs \<subseteq> tracked s \<and> distinct vs \<and> tracked s' \<subseteq> tracked s - set vs"
  using assms
proof (induction n arbitrary: s vs s')
  case 0
  then show ?case by simp
next
  case (Suc n)
  obtain v t where ev: "evict s = (v, t)" by force
  have inv: "inv t" using evict_inv [OF Suc.prems(1)] ev by simp
  show ?case
  proof (cases "v = SIZE_MAX")
    case True
    then show ?thesis using Suc.prems ev inv evict_tracked [OF Suc.prems(1) ev] by auto
  next
    case False
    obtain ws u where rest: "victims n t = (ws, u)" by force
    from Suc.IH [OF inv rest] show ?thesis
      using Suc.prems ev False rest evict_tracked [OF Suc.prems(1) ev] by auto
  qed
qed

lemma victims_length:
  assumes "inv s" and "victims n s = (vs, s')"
  shows "length vs \<le> card (tracked s)"
  using victims_tracked [OF assms] finite_tracked [OF assms(1)]
  by (metis card_mono distinct_card)

text \<open>As many rounds as there are tracked blocks reach a state without a victim.\<close>

lemma victims_drain:
  assumes "inv s" and "card (tracked s) \<le> n" and "victims (Suc n) s = (vs, s')"
  shows "\<exists>t. inv t \<and> evict t = (SIZE_MAX, s')"
  using assms
proof (induction n arbitrary: s vs)
  case 0
  obtain v t where ev: "evict s = (v, t)" by force
  have "v = SIZE_MAX" using evict_smaller [OF "0.prems"(1) ev] "0.prems"(2) by auto
  with 0 ev show ?case by auto
next
  case (Suc n)
  obtain v t where ev: "evict s = (v, t)" by force
  show ?case
  proof (cases "v = SIZE_MAX")
    case True
    then have "s' = t" using Suc.prems(3) ev by simp
    then show ?thesis using True Suc.prems(1) ev by auto
  next
    case False
    obtain ws where rest: "victims (Suc n) t = (ws, s')"
      using Suc.prems(3) ev False unfolding victims.simps(2) [of "Suc n"]
      by (simp del: victims.simps split: prod.splits)
    moreover have "card (tracked t) \<le> n"
      using evict_smaller [OF Suc.prems(1) ev False] Suc.prems(2) by simp
    moreover have "inv t" using evict_inv [OF Suc.prems(1)] ev by simp
    ultimately show ?thesis by (intro Suc.IH)
  qed
qed

lemma remove_after_touch: "inv s \<Longrightarrow> b \<notin> tracked (remove b (touch b s))"
  using remove_tracked [OF touch_inv] by auto

end

end
