(* ===== verification/Lru_Policy.thy ===== *)
theory Lru_Policy
  imports Eviction_Policy Complex_Main
begin

text \<open>
  \<^verbatim>\<open>cache/policy/lru_policy.h\<close> and \<^verbatim>\<open>cache/policy/lru_policy.cc\<close>.
  The state is the pair of containers the class keeps: a list of nodes and a table from
  block ids to list iterators.  A \<open>std::list\<close> iterator stays valid while its element
  lives, so an element carries the token that identifies it and an iterator is a token; the
  invariant says that list and table agree.  \<open>lru_nodes\<close> abstracts the state to the list
  of nodes, on which \<open>touch\<close> is "drop the old entry, make room, cons" and \<open>evict\<close>
  "remove the first node of maximal score".  A \<open>double\<close> is a rational number or one of the
  IEEE special values; the rounding of the product is not modelled (with the operands the
  cache manager passes, 65536 and 1.0 or 0.25, it is exact).
\<close>

section \<open>Doubles\<close>

datatype double = NaN | NegInf | Fin rat | PosInf

definition DBL_MAX :: rat where
  "DBL_MAX = (2 ^ 53 - 1) * 2 ^ 971"

fun double_less :: "double \<Rightarrow> double \<Rightarrow> bool" where
  "double_less NaN _ = False"
| "double_less _ NaN = False"
| "double_less NegInf y = (y \<noteq> NegInf)"
| "double_less (Fin x) NegInf = False"
| "double_less (Fin x) (Fin y) = (x < y)"
| "double_less (Fin x) PosInf = True"
| "double_less PosInf _ = False"

fun one_minus :: "double \<Rightarrow> double" where
  "one_minus NaN = NaN"
| "one_minus NegInf = PosInf"
| "one_minus (Fin x) = Fin (1 - x)"
| "one_minus PosInf = NegInf"

text \<open>\<open>n * x\<close> for an integer \<open>n\<close> converted to \<open>double\<close>.\<close>

fun int_times :: "nat \<Rightarrow> double \<Rightarrow> double" where
  "int_times n NaN = NaN"
| "int_times n NegInf = (if n = 0 then NaN else NegInf)"
| "int_times n (Fin x) = Fin (of_nat n * x)"
| "int_times n PosInf = (if n = 0 then NaN else PosInf)"

section \<open>The class\<close>

record lru_node =
  node_id :: u64
  node_bytes :: u64
  node_hotness :: double

definition score :: "lru_node \<Rightarrow> double" where
  "score n = int_times (unat (node_bytes n)) (one_minus (node_hotness n))"

record lru =
  lru_capacity :: u64
  lru_order :: "(nat \<times> lru_node) list"
  lru_map :: "u64 \<rightharpoonup> nat"
  lru_next :: nat \<comment> \<open>the token of the next list element to be created\<close>

definition LruPolicy :: "u64 \<Rightarrow> lru" where
  "LruPolicy capacity =
     \<lparr>lru_capacity = capacity, lru_order = [], lru_map = Map.empty, lru_next = 0\<rparr>"

text \<open>\<open>order_.erase(it)\<close>.\<close>

definition erase :: "nat \<Rightarrow> (nat \<times> lru_node) list \<Rightarrow> (nat \<times> lru_node) list" where
  "erase it xs = filter (\<lambda>x. fst x \<noteq> it) xs"

text \<open>The scan of \<open>evict\<close>: \<open>v\<close> is \<open>victim_it\<close>, \<open>w\<close> is \<open>worstScore\<close>.\<close>

fun evict_scan ::
    "(nat \<times> lru_node) list \<Rightarrow> (nat \<times> lru_node) option \<Rightarrow> double \<Rightarrow> (nat \<times> lru_node) option" where
  "evict_scan [] v w = v"
| "evict_scan (x # xs) v w =
     (let s = score (snd x)
      in if double_less w s then evict_scan xs (Some x) s else evict_scan xs v w)"

definition lru_evict :: "lru \<Rightarrow> u64 \<times> lru" where
  "lru_evict l =
     (if lru_order l = [] then (SIZE_MAX, l)
      else case evict_scan (lru_order l) None (Fin (- DBL_MAX)) of
        None \<Rightarrow> (SIZE_MAX, l)
      | Some (it, n) \<Rightarrow>
          (node_id n,
           l\<lparr>lru_order := erase it (lru_order l), lru_map := (lru_map l)(node_id n := None)\<rparr>))"

definition lru_remove :: "u64 \<Rightarrow> lru \<Rightarrow> lru" where
  "lru_remove blockId l =
     (case lru_map l blockId of
        None \<Rightarrow> l
      | Some it \<Rightarrow>
          l\<lparr>lru_order := erase it (lru_order l), lru_map := (lru_map l)(blockId := None)\<rparr>)"

definition lru_touch :: "u64 \<Rightarrow> u64 \<Rightarrow> double \<Rightarrow> lru \<Rightarrow> lru" where
  "lru_touch blockId nbytes hotness l =
     (let l1 = (case lru_map l blockId of
                  None \<Rightarrow> l
                | Some it \<Rightarrow>
                    l\<lparr>lru_order := erase it (lru_order l), lru_map := (lru_map l)(blockId := None)\<rparr>);
          l2 = (if unat (lru_capacity l1) \<le> length (lru_order l1) then snd (lru_evict l1) else l1)
      in l2\<lparr>lru_order := (lru_next l2, \<lparr>node_id = blockId, node_bytes = nbytes, node_hotness = hotness\<rparr>)
                          # lru_order l2,
            lru_map := (lru_map l2)(blockId \<mapsto> lru_next l2),
            lru_next := Suc (lru_next l2)\<rparr>)"

section \<open>Invariant: list and table agree\<close>

definition lru_inv :: "lru \<Rightarrow> bool" where
  "lru_inv l \<longleftrightarrow>
     distinct (map fst (lru_order l)) \<and> distinct (map (node_id \<circ> snd) (lru_order l)) \<and>
     (\<forall>it \<in> fst ` set (lru_order l). it < lru_next l) \<and>
     (\<forall>b it. lru_map l b = Some it \<longleftrightarrow> (\<exists>n. (it, n) \<in> set (lru_order l) \<and> node_id n = b))"

definition lru_tracked :: "lru \<Rightarrow> u64 set" where
  "lru_tracked l = (node_id \<circ> snd) ` set (lru_order l)"

definition lru_nodes :: "lru \<Rightarrow> lru_node list" where
  "lru_nodes l = map snd (lru_order l)"

lemma LruPolicy_inv: "lru_inv (LruPolicy c)"
  by (simp add: lru_inv_def LruPolicy_def)

lemma dom_lru_map: "lru_inv l \<Longrightarrow> dom (lru_map l) = lru_tracked l"
  by (force simp: lru_inv_def lru_tracked_def dom_def image_iff)

lemma set_erase [simp]: "set (erase it xs) = {x \<in> set xs. fst x \<noteq> it}"
  by (auto simp: erase_def)

text \<open>Erasing the element of an id: the step \<open>remove\<close>, \<open>touch\<close> and \<open>evict\<close> share.\<close>

definition drop_node :: "nat \<Rightarrow> u64 \<Rightarrow> lru \<Rightarrow> lru" where
  "drop_node it b l = l\<lparr>lru_order := erase it (lru_order l), lru_map := (lru_map l)(b := None)\<rparr>"

lemma distinct_map_inj:
  "distinct (map f xs) \<Longrightarrow> x \<in> set xs \<Longrightarrow> y \<in> set xs \<Longrightarrow> f x = f y \<Longrightarrow> x = y"
  by (auto simp: distinct_map dest: inj_onD)

lemma lru_inv_key:
  assumes "lru_inv l" and "(it, n) \<in> set (lru_order l)" and "(it', n') \<in> set (lru_order l)"
  shows "it' = it \<longleftrightarrow> node_id n' = node_id n"
proof -
  have d: "distinct (map fst (lru_order l))" "distinct (map (node_id \<circ> snd) (lru_order l))"
    using assms(1) by (simp_all only: lru_inv_def)
  show ?thesis
    using distinct_map_inj [OF d(1) assms(2,3)] distinct_map_inj [OF d(2) assms(2,3)] by fastforce
qed

lemma lru_map_iff:
  "lru_inv l \<Longrightarrow> lru_map l b = Some it \<longleftrightarrow> (\<exists>n. (it, n) \<in> set (lru_order l) \<and> node_id n = b)"
  by (simp add: lru_inv_def)

lemma drop_node_inv:
  assumes inv: "lru_inv l" and mem: "(it, n) \<in> set (lru_order l)"
  shows "lru_inv (drop_node it (node_id n) l)"
  unfolding lru_inv_def
proof (intro conjI allI ballI)
  let ?l = "drop_node it (node_id n) l"
  show "distinct (map fst (lru_order ?l))" "distinct (map (node_id \<circ> snd) (lru_order ?l))"
    using inv by (simp_all add: lru_inv_def drop_node_def erase_def distinct_map_filter del: map_map)
  show "i < lru_next ?l" if "i \<in> fst ` set (lru_order ?l)" for i
    using inv that by (auto simp: lru_inv_def drop_node_def)
  show "lru_map ?l b = Some i \<longleftrightarrow> (\<exists>m. (i, m) \<in> set (lru_order ?l) \<and> node_id m = b)" for b i
    using lru_inv_key [OF inv mem] lru_map_iff [OF inv, of b i] by (auto simp: drop_node_def)
qed

lemma drop_node_nodes:
  assumes inv: "lru_inv l" and mem: "(it, n) \<in> set (lru_order l)"
  shows "lru_nodes (drop_node it (node_id n) l) = filter (\<lambda>m. node_id m \<noteq> node_id n) (lru_nodes l)"
    and "lru_tracked (drop_node it (node_id n) l) = lru_tracked l - {node_id n}"
proof -
  have "filter (\<lambda>x. fst x \<noteq> it) (lru_order l) = filter (\<lambda>x. node_id (snd x) \<noteq> node_id n) (lru_order l)"
    by (rule filter_cong) (auto simp: lru_inv_key [OF inv mem])
  then show "lru_nodes (drop_node it (node_id n) l) = filter (\<lambda>m. node_id m \<noteq> node_id n) (lru_nodes l)"
    by (simp add: lru_nodes_def drop_node_def erase_def filter_map comp_def)
  then show "lru_tracked (drop_node it (node_id n) l) = lru_tracked l - {node_id n}"
    using lru_inv_key [OF inv mem] by (force simp: lru_tracked_def drop_node_def)
qed

section \<open>The scan picks the first node of maximal score\<close>

text \<open>A node the scan can pick at all: its score exceeds \<open>-DBL_MAX\<close>.\<close>

definition evictable :: "lru_node \<Rightarrow> bool" where
  "evictable n \<longleftrightarrow> double_less (Fin (- DBL_MAX)) (score n)"

lemma double_less_irrefl [simp]: "\<not> double_less x x"
  by (cases x) auto

lemma double_less_NaN [simp]: "\<not> double_less x NaN"
  by (cases x) auto

lemma double_less_trans: "double_less x y \<Longrightarrow> double_less y z \<Longrightarrow> double_less x z"
  by (cases x; cases y; cases z) auto

text \<open>For numbers that are not NaN, "not less" is transitive.\<close>

lemma double_not_less_trans:
  "\<not> double_less x y \<Longrightarrow> double_less x z \<Longrightarrow> y \<noteq> NaN \<Longrightarrow> double_less y z"
  by (cases x; cases y; cases z) auto

lemma evict_scan_Some_acc: "evict_scan xs (Some v) w \<noteq> None"
  by (induction xs arbitrary: v w) (auto simp: Let_def)

lemma evict_scan_None:
  "evict_scan xs None w = None \<longleftrightarrow> (\<forall>x \<in> set xs. \<not> double_less w (score (snd x)))"
  by (induction xs) (auto simp: Let_def evict_scan_Some_acc)

text \<open>The picked node, the nodes before it and after it.\<close>

lemma evict_scan_pick:
  assumes "evict_scan xs v w = Some x"
  shows "v = Some x \<and> (\<forall>y \<in> set xs. \<not> double_less w (score (snd y))) \<or>
    (\<exists>ys zs. xs = ys @ x # zs \<and> double_less w (score (snd x)) \<and>
       (\<forall>y \<in> set ys. double_less w (score (snd y)) \<longrightarrow> double_less (score (snd y)) (score (snd x))) \<and>
       (\<forall>z \<in> set zs. \<not> double_less (score (snd x)) (score (snd z))))"
  using assms
proof (induction xs arbitrary: v w)
  case (Cons a xs)
  show ?case
  proof (cases "double_less w (score (snd a))")
    case True
    with Cons.prems have "evict_scan xs (Some a) (score (snd a)) = Some x" by (simp add: Let_def)
    from Cons.IH [OF this] show ?thesis
    proof (elim disjE exE conjE)
      assume "Some a = Some x" and "\<forall>y \<in> set xs. \<not> double_less (score (snd a)) (score (snd y))"
      with True show ?thesis by (intro disjI2 exI [of _ "[]"] exI [of _ xs]) auto
    next
      fix ys zs
      assume *: "xs = ys @ x # zs" "double_less (score (snd a)) (score (snd x))"
        "\<forall>y \<in> set ys. double_less (score (snd a)) (score (snd y)) \<longrightarrow>
          double_less (score (snd y)) (score (snd x))"
        "\<forall>z \<in> set zs. \<not> double_less (score (snd x)) (score (snd z))"
      have "double_less (score (snd y)) (score (snd x))"
        if "y \<in> set ys" "double_less w (score (snd y))" for y
        using that *(2,3) double_not_less_trans [of "score (snd a)" "score (snd y)" "score (snd x)"]
        by (cases "score (snd y)") auto
      with * True show ?thesis
        by (intro disjI2 exI [of _ "a # ys"] exI [of _ zs]) (auto intro: double_less_trans)
    qed
  next
    case False
    with Cons.prems have "evict_scan xs v w = Some x" by (simp add: Let_def)
    from Cons.IH [OF this] show ?thesis
    proof (elim disjE exE conjE)
      assume "v = Some x" and "\<forall>y \<in> set xs. \<not> double_less w (score (snd y))"
      with False show ?thesis by auto
    next
      fix ys zs
      assume "xs = ys @ x # zs" "double_less w (score (snd x))"
        "\<forall>y \<in> set ys. double_less w (score (snd y)) \<longrightarrow> double_less (score (snd y)) (score (snd x))"
        "\<forall>z \<in> set zs. \<not> double_less (score (snd x)) (score (snd z))"
      with False show ?thesis by (intro disjI2 exI [of _ "a # ys"] exI [of _ zs]) auto
    qed
  qed
qed simp

lemma lru_evict_cases:
  assumes "lru_evict l = (v, l')"
  obtains (none) "v = SIZE_MAX" "l' = l" "\<forall>n \<in> set (lru_nodes l). \<not> evictable n"
  | (some) ys it n zs where "lru_order l = ys @ (it, n) # zs" "v = node_id n"
      "l' = drop_node it (node_id n) l" "evictable n"
      "\<forall>y \<in> set ys. evictable (snd y) \<longrightarrow> double_less (score (snd y)) (score n)"
      "\<forall>z \<in> set zs. \<not> double_less (score n) (score (snd z))"
proof (cases "evict_scan (lru_order l) None (Fin (- DBL_MAX))")
  case None
  then show thesis
    using assms none evict_scan_None [of "lru_order l" "Fin (- DBL_MAX)"]
    by (auto simp: lru_evict_def lru_nodes_def evictable_def split: if_splits)
next
  case (Some x)
  obtain it n where x: "x = (it, n)" by force
  have "lru_order l \<noteq> []" using Some by auto
  with assms Some x have "v = node_id n" "l' = drop_node it (node_id n) l"
    by (auto simp: lru_evict_def drop_node_def)
  with evict_scan_pick [OF Some] x some show thesis by (auto simp: evictable_def)
qed

section \<open>The operations keep the invariant and act on the node list\<close>

lemma lru_evict_inv: "lru_inv l \<Longrightarrow> lru_inv (snd (lru_evict l))"
proof -
  assume inv: "lru_inv l"
  obtain v l' where ev: "lru_evict l = (v, l')" by force
  then have "lru_inv l'"
  proof (cases rule: lru_evict_cases)
    case (some ys it n zs)
    then show ?thesis by (simp add: drop_node_inv [OF inv])
  qed (use inv in simp)
  with ev show ?thesis by simp
qed

lemma lru_evict_tracked:
  assumes inv: "lru_inv l" and ev: "lru_evict l = (v, l')"
  shows "v \<in> lru_tracked l \<and> lru_tracked l' = lru_tracked l - {v} \<or>
    v = SIZE_MAX \<and> lru_tracked l' = lru_tracked l"
  using ev
proof (cases rule: lru_evict_cases)
  case (some ys it n zs)
  then have mem: "(it, n) \<in> set (lru_order l)" by simp
  then have "v \<in> lru_tracked l" using some(2) by (force simp: lru_tracked_def)
  then show ?thesis using drop_node_nodes(2) [OF inv mem] some(2,3) by simp
qed simp

lemma lru_remove_drop:
  assumes "lru_inv l"
  obtains (absent) "lru_map l b = None" "b \<notin> lru_tracked l" "lru_remove b l = l"
  | (present) it n where "(it, n) \<in> set (lru_order l)" "node_id n = b" "lru_remove b l = drop_node it b l"
proof (cases "lru_map l b")
  case None
  then have "b \<notin> lru_tracked l" unfolding dom_lru_map [OF assms, symmetric] by (simp add: domIff)
  with None show thesis by (intro absent) (auto simp: lru_remove_def)
next
  case (Some it)
  then obtain n where "(it, n) \<in> set (lru_order l)" "node_id n = b"
    using lru_map_iff [OF assms] by blast
  with Some show thesis by (intro present) (auto simp: lru_remove_def drop_node_def)
qed

lemma lru_remove_inv: "lru_inv l \<Longrightarrow> lru_inv (lru_remove b l)"
  by (rule lru_remove_drop [of l b]) (auto intro: drop_node_inv)

lemma lru_remove_nodes:
  assumes "lru_inv l"
  shows "lru_nodes (lru_remove b l) = filter (\<lambda>m. node_id m \<noteq> b) (lru_nodes l)"
    and "lru_tracked (lru_remove b l) = lru_tracked l - {b}"
proof -
  have "lru_nodes (lru_remove b l) = filter (\<lambda>m. node_id m \<noteq> b) (lru_nodes l) \<and>
      lru_tracked (lru_remove b l) = lru_tracked l - {b}"
    using assms
  proof (cases rule: lru_remove_drop [of l b])
    case absent
    then have "\<forall>m \<in> set (lru_nodes l). node_id m \<noteq> b" by (force simp: lru_tracked_def lru_nodes_def)
    then have "filter (\<lambda>m. node_id m \<noteq> b) (lru_nodes l) = lru_nodes l" by (simp add: filter_id_conv)
    then show ?thesis using absent by simp
  next
    case (present it n)
    then show ?thesis using drop_node_nodes [OF assms present(1)] by simp
  qed
  then show "lru_nodes (lru_remove b l) = filter (\<lambda>m. node_id m \<noteq> b) (lru_nodes l)"
    "lru_tracked (lru_remove b l) = lru_tracked l - {b}" by simp_all
qed

text \<open>\<open>touch\<close> is: drop the old entry, make room, push to the front.\<close>

definition make_room :: "lru \<Rightarrow> lru" where
  "make_room l = (if unat (lru_capacity l) \<le> length (lru_order l) then snd (lru_evict l) else l)"

definition push_front :: "lru_node \<Rightarrow> lru \<Rightarrow> lru" where
  "push_front n l =
     l\<lparr>lru_order := (lru_next l, n) # lru_order l, lru_map := (lru_map l)(node_id n \<mapsto> lru_next l),
       lru_next := Suc (lru_next l)\<rparr>"

lemma lru_touch_eq:
  "lru_touch b nb h l =
   push_front \<lparr>node_id = b, node_bytes = nb, node_hotness = h\<rparr> (make_room (lru_remove b l))"
  by (simp add: lru_touch_def push_front_def make_room_def lru_remove_def Let_def)

lemma make_room_inv: "lru_inv l \<Longrightarrow> lru_inv (make_room l)"
  by (simp add: make_room_def lru_evict_inv)

lemma make_room_tracked: "lru_inv l \<Longrightarrow> lru_tracked (make_room l) \<subseteq> lru_tracked l"
  using lru_evict_tracked [of l "fst (lru_evict l)" "snd (lru_evict l)"]
  by (auto simp: make_room_def)

lemma push_front_inv:
  assumes "lru_inv l" and "node_id n \<notin> lru_tracked l"
  shows "lru_inv (push_front n l)"
proof -
  have fresh: "lru_next l \<notin> fst ` set (lru_order l)" and lt: "\<forall>i \<in> fst ` set (lru_order l). i < Suc (lru_next l)"
    using assms(1) by (auto simp: lru_inv_def)
  have "lru_map l b = Some it \<longleftrightarrow> (\<exists>n. (it, n) \<in> set (lru_order l) \<and> node_id n = b)" for b it
    by (rule lru_map_iff [OF assms(1)])
  with assms fresh lt show ?thesis
    by (auto simp: lru_inv_def push_front_def lru_tracked_def image_iff split: if_splits)
qed

lemma lru_touch_inv: "lru_inv l \<Longrightarrow> lru_inv (lru_touch b nb h l)"
proof -
  assume inv: "lru_inv l"
  then have "lru_inv (make_room (lru_remove b l))" by (intro make_room_inv lru_remove_inv)
  moreover have "b \<notin> lru_tracked (make_room (lru_remove b l))"
    using make_room_tracked [OF lru_remove_inv [OF inv]] lru_remove_nodes(2) [OF inv] by auto
  ultimately show ?thesis by (simp add: lru_touch_eq push_front_inv)
qed

lemma lru_touch_tracked:
  assumes "lru_inv l"
  shows "b \<in> lru_tracked (lru_touch b nb h l) \<and> lru_tracked (lru_touch b nb h l) \<subseteq> insert b (lru_tracked l)"
  using make_room_tracked [OF lru_remove_inv [OF assms]] lru_remove_nodes(2) [OF assms]
  by (auto simp: lru_touch_eq push_front_def lru_tracked_def)

interpretation lru: eviction_policy lru_inv lru_tracked lru_evict lru_remove
  "\<lambda>b. lru_touch b nbytes hotness" for nbytes hotness
proof unfold_locales
  show "finite (lru_tracked s)" for s by (simp add: lru_tracked_def)
qed (auto simp: lru_evict_inv lru_remove_inv lru_touch_inv lru_remove_nodes(2)
    dest: lru_evict_tracked lru_touch_tracked)

lemma lru_evict_nodes:
  assumes inv: "lru_inv l" and ev: "lru_evict l = (v, l')" and ex: "\<exists>n \<in> set (lru_nodes l). evictable n"
  shows "\<exists>ys n zs. lru_nodes l = ys @ n # zs \<and> v = node_id n \<and> lru_nodes l' = ys @ zs \<and>
    evictable n \<and>
    (\<forall>m \<in> set ys. evictable m \<longrightarrow> double_less (score m) (score n)) \<and>
    (\<forall>m \<in> set zs. \<not> double_less (score n) (score m))"
  using ev
proof (cases rule: lru_evict_cases)
  case (some ys it n zs)
  then have mem: "(it, n) \<in> set (lru_order l)" by simp
  have "distinct (map (node_id \<circ> snd) (lru_order l))" using inv by (simp add: lru_inv_def)
  then have "node_id n \<notin> (node_id \<circ> snd) ` (set ys \<union> set zs)" using some(1) by auto
  then have "filter (\<lambda>m. node_id m \<noteq> node_id n) (map snd (ys @ zs)) = map snd (ys @ zs)"
    by (intro filter_True) force
  then have "lru_nodes l' = map snd ys @ map snd zs"
    using drop_node_nodes(1) [OF inv mem] some(1,3) by (simp add: lru_nodes_def)
  moreover have "lru_nodes l = map snd ys @ n # map snd zs" using some(1) by (simp add: lru_nodes_def)
  ultimately show ?thesis using some by (intro exI [of _ "map snd ys"] exI [of _ n] exI [of _ "map snd zs"]) auto
qed (use ex in auto)

section \<open>Size bound over operation sequences\<close>

datatype lru_op = Touch u64 u64 double | Remove u64 | Evict

fun lru_step :: "lru_op \<Rightarrow> lru \<Rightarrow> lru" where
  "lru_step (Touch b nb h) l = lru_touch b nb h l"
| "lru_step (Remove b) l = lru_remove b l"
| "lru_step Evict l = snd (lru_evict l)"

definition lru_run :: "lru_op list \<Rightarrow> lru \<Rightarrow> lru" where
  "lru_run ops l = fold lru_step ops l"

fun op_evictable :: "lru_op \<Rightarrow> bool" where
  "op_evictable (Touch b nb h) = evictable \<lparr>node_id = b, node_bytes = nb, node_hotness = h\<rparr>"
| "op_evictable _ = True"

definition lru_bounded :: "lru \<Rightarrow> bool" where
  "lru_bounded l \<longleftrightarrow> lru_inv l \<and> (\<forall>n \<in> set (lru_nodes l). evictable n) \<and>
     length (lru_nodes l) \<le> max 1 (unat (lru_capacity l))"

lemma lru_capacity_evict [simp]: "lru_capacity (snd (lru_evict l)) = lru_capacity l"
  by (auto simp: lru_evict_def split: option.splits)

lemma lru_capacity_step [simp]: "lru_capacity (lru_step op l) = lru_capacity l"
  by (cases op) (auto simp: lru_touch_eq push_front_def make_room_def lru_remove_def split: option.splits)

lemma lru_evict_shrinks:
  assumes "lru_inv l" and "\<forall>n \<in> set (lru_nodes l). evictable n"
  shows "set (lru_nodes (snd (lru_evict l))) \<subseteq> set (lru_nodes l)"
    and "length (lru_nodes (snd (lru_evict l))) = length (lru_nodes l) - 1"
proof -
  obtain v l' where ev: "lru_evict l = (v, l')" by force
  show "set (lru_nodes (snd (lru_evict l))) \<subseteq> set (lru_nodes l)"
    "length (lru_nodes (snd (lru_evict l))) = length (lru_nodes l) - 1"
  proof -
    have "set (lru_nodes l') \<subseteq> set (lru_nodes l) \<and> length (lru_nodes l') = length (lru_nodes l) - 1"
    proof (cases "lru_nodes l")
      case Nil
      then have "l' = l" using ev by (simp add: lru_evict_def lru_nodes_def)
      then show ?thesis using Nil by simp
    next
      case (Cons m ms)
      then have "\<exists>n \<in> set (lru_nodes l). evictable n" using assms(2) by auto
      from lru_evict_nodes [OF assms(1) ev this] show ?thesis by auto
    qed
    with ev show "set (lru_nodes (snd (lru_evict l))) \<subseteq> set (lru_nodes l)"
      "length (lru_nodes (snd (lru_evict l))) = length (lru_nodes l) - 1" by simp_all
  qed
qed

lemma lru_nodes_push_front [simp]: "lru_nodes (push_front n l) = n # lru_nodes l"
  by (simp add: lru_nodes_def push_front_def)

lemma lru_bounded_remove: "lru_bounded l \<Longrightarrow> lru_bounded (lru_remove b l)"
proof -
  assume b: "lru_bounded l"
  then have inv: "lru_inv l" by (simp add: lru_bounded_def)
  have "lru_capacity (lru_remove b l) = lru_capacity l"
    using lru_capacity_step [of "Remove b" l] by simp
  moreover have "length (filter (\<lambda>m. node_id m \<noteq> b) (lru_nodes l)) \<le> length (lru_nodes l)"
    by (rule length_filter_le)
  ultimately show ?thesis
    using b lru_remove_inv [OF inv]
    by (auto simp: lru_bounded_def lru_remove_nodes(1) [OF inv]
        intro: order_trans [OF length_filter_le])
qed

lemma lru_bounded_touch:
  assumes b: "lru_bounded l" and e: "evictable \<lparr>node_id = b, node_bytes = nb, node_hotness = h\<rparr>"
  shows "lru_bounded (lru_touch b nb h l)"
proof -
  let ?l = "lru_remove b l"
  have bl: "lru_bounded ?l" using b by (rule lru_bounded_remove)
  then have inv: "lru_inv ?l" and ev: "\<forall>n \<in> set (lru_nodes ?l). evictable n"
    by (simp_all add: lru_bounded_def)
  have "set (lru_nodes (make_room ?l)) \<subseteq> set (lru_nodes ?l)"
    "Suc (length (lru_nodes (make_room ?l))) \<le> max 1 (unat (lru_capacity ?l))"
    using lru_evict_shrinks [OF inv ev] bl
    by (auto simp: make_room_def lru_bounded_def lru_nodes_def)
  moreover have "lru_capacity (lru_touch b nb h l) = lru_capacity ?l"
    using lru_capacity_step [of "Touch b nb h" l] lru_capacity_step [of "Remove b" l] by simp
  moreover have "lru_inv (lru_touch b nb h l)" using b by (intro lru_touch_inv) (simp add: lru_bounded_def)
  ultimately show ?thesis using ev e by (auto simp: lru_bounded_def lru_touch_eq)
qed

lemma lru_bounded_step: "lru_bounded l \<Longrightarrow> op_evictable op \<Longrightarrow> lru_bounded (lru_step op l)"
proof (cases op)
  case Evict
  assume b: "lru_bounded l"
  then have "lru_inv l" "\<forall>n \<in> set (lru_nodes l). evictable n" by (simp_all add: lru_bounded_def)
  with lru_evict_shrinks [OF this] b Evict show ?thesis
    by (auto simp: lru_bounded_def lru_evict_inv)
qed (auto intro: lru_bounded_touch lru_bounded_remove)

lemma lru_bounded_run: "lru_bounded l \<Longrightarrow> \<forall>op \<in> set ops. op_evictable op \<Longrightarrow> lru_bounded (lru_run ops l)"
  by (induction ops arbitrary: l) (auto simp: lru_run_def lru_bounded_step)

lemma LruPolicy_bounded: "lru_bounded (LruPolicy c)"
  by (simp add: lru_bounded_def LruPolicy_inv) (simp add: lru_nodes_def LruPolicy_def)

lemma lru_capacity_run: "lru_capacity (lru_run ops l) = lru_capacity l"
  by (induction ops arbitrary: l) (auto simp: lru_run_def)

lemma score_hot: "node_hotness n = Fin 1 \<Longrightarrow> score n = Fin 0"
  by (simp add: score_def)

lemma DBL_MAX_pos: "0 < DBL_MAX"
  by (simp add: DBL_MAX_def)

lemma evictable_hot: "node_hotness n = Fin 1 \<Longrightarrow> evictable n"
  using DBL_MAX_pos by (simp add: evictable_def score_hot)

section \<open>The reference: a list of nodes\<close>

text \<open>The policy without its table and its iterators, on the list of nodes alone.\<close>

definition ref_victim :: "lru_node list \<Rightarrow> lru_node option" where
  "ref_victim ns = find (\<lambda>n. evictable n \<and> (\<forall>m \<in> set ns. \<not> double_less (score n) (score m))) ns"

definition ref_evict :: "lru_node list \<Rightarrow> u64 \<times> lru_node list" where
  "ref_evict ns = (case ref_victim ns of None \<Rightarrow> (SIZE_MAX, ns) | Some n \<Rightarrow> (node_id n, remove1 n ns))"

fun ref_step :: "nat \<Rightarrow> lru_op \<Rightarrow> lru_node list \<Rightarrow> lru_node list" where
  "ref_step c (Touch b nb h) ns =
     (let others = filter (\<lambda>m. node_id m \<noteq> b) ns
      in \<lparr>node_id = b, node_bytes = nb, node_hotness = h\<rparr>
         # (if c \<le> length others then snd (ref_evict others) else others))"
| "ref_step c (Remove b) ns = filter (\<lambda>m. node_id m \<noteq> b) ns"
| "ref_step c Evict ns = snd (ref_evict ns)"

lemma not_evictable_less: "evictable n \<Longrightarrow> \<not> evictable m \<Longrightarrow> \<not> double_less (score n) (score m)"
  unfolding evictable_def using double_less_trans by blast

lemma find_append_hit: "P n \<Longrightarrow> \<forall>m \<in> set ys. \<not> P m \<Longrightarrow> find P (ys @ n # zs) = Some n"
  by (induction ys) auto

lemma ref_evict_eq:
  assumes inv: "lru_inv l"
  shows "fst (lru_evict l) = fst (ref_evict (lru_nodes l))" and "lru_nodes (snd (lru_evict l)) = snd (ref_evict (lru_nodes l))"
proof -
  obtain v l' where ev: "lru_evict l = (v, l')" by force
  have "v = fst (ref_evict (lru_nodes l)) \<and> lru_nodes l' = snd (ref_evict (lru_nodes l))"
  proof (cases "\<exists>n \<in> set (lru_nodes l). evictable n")
    case False
    then have "ref_victim (lru_nodes l) = None" by (auto simp: ref_victim_def find_None_iff)
    moreover have "v = SIZE_MAX \<and> l' = l"
      using ev False by (cases rule: lru_evict_cases) (auto simp: lru_nodes_def)
    ultimately show ?thesis by (simp add: ref_evict_def)
  next
    case True
    obtain ys n zs where split: "lru_nodes l = ys @ n # zs" "v = node_id n" "lru_nodes l' = ys @ zs" "evictable n"
      "\<And>m. m \<in> set ys \<Longrightarrow> evictable m \<Longrightarrow> double_less (score m) (score n)"
      "\<And>m. m \<in> set zs \<Longrightarrow> \<not> double_less (score n) (score m)"
      using lru_evict_nodes [OF inv ev True] by blast
    have "\<not> double_less (score n) (score m)" if "m \<in> set ys" for m
      using not_evictable_less [OF split(4)] split(5) [OF that] double_less_trans by (metis double_less_irrefl)
    then have "ref_victim (lru_nodes l) = Some n"
      unfolding ref_victim_def split(1) using split(4-6) by (intro find_append_hit) auto
    moreover have "n \<notin> set ys" using split(4,5) double_less_irrefl by blast
    ultimately show ?thesis using split(1-3) by (simp add: ref_evict_def remove1_append)
  qed
  with ev show "fst (lru_evict l) = fst (ref_evict (lru_nodes l))"
    "lru_nodes (snd (lru_evict l)) = snd (ref_evict (lru_nodes l))" by simp_all
qed

lemma lru_step_inv: "lru_inv l \<Longrightarrow> lru_inv (lru_step op l)"
  by (cases op) (auto intro: lru_touch_inv lru_remove_inv lru_evict_inv)

lemma ref_step_eq:
  assumes "lru_inv l"
  shows "lru_nodes (lru_step op l) = ref_step (unat (lru_capacity l)) op (lru_nodes l)"
proof (cases op)
  case (Touch b nb h)
  have "length (lru_order (lru_remove b l)) = length (filter (\<lambda>m. node_id m \<noteq> b) (lru_nodes l))"
    using arg_cong [OF lru_remove_nodes(1) [OF assms, of b], of length] by (simp add: lru_nodes_def)
  moreover have "lru_capacity (lru_remove b l) = lru_capacity l" using lru_capacity_step [of "Remove b" l] by simp
  ultimately show ?thesis
    using Touch ref_evict_eq(2) [OF lru_remove_inv [OF assms, of b]]
    by (simp add: lru_touch_eq make_room_def lru_remove_nodes(1) [OF assms] Let_def)
qed (simp_all add: lru_remove_nodes(1) [OF assms] ref_evict_eq(2) [OF assms])

lemma ref_run_eq:
  "lru_inv l \<Longrightarrow> lru_inv (lru_run ops l) \<and>
   lru_nodes (lru_run ops l) = fold (ref_step (unat (lru_capacity l))) ops (lru_nodes l)"
proof (induction ops arbitrary: l)
  case (Cons op ops)
  from Cons.IH [OF lru_step_inv [OF Cons.prems]] show ?case
    by (simp add: lru_run_def ref_step_eq [OF Cons.prems])
qed (simp add: lru_run_def)

section \<open>Properties\<close>



text \<open>C8: The policy with its list, its table of iterators and its tokens is equivalent to the
  reference on the list of nodes: after any sequence of calls the nodes and their order are the
  same, and so is the block the next \<open>evict\<close> answers, whatever the scores, NaN and infinities
  included.\<close>

theorem lru_equals_reference:
  "lru_nodes (lru_run ops (LruPolicy c)) = fold (ref_step (unat c)) ops [] \<and>
   fst (lru_evict (lru_run ops (LruPolicy c))) = fst (ref_evict (fold (ref_step (unat c)) ops []))"
proof -
  have init: "lru_nodes (LruPolicy c) = []" "lru_capacity (LruPolicy c) = c"
    by (simp_all add: lru_nodes_def LruPolicy_def)
  note run = ref_run_eq [OF LruPolicy_inv, of ops c, unfolded init]
  then show ?thesis using ref_evict_eq(1) [OF conjunct1 [OF run]] by simp
qed

text \<open>\<open>evict\<close> returns and removes exactly one node when some node has a comparable
  score: the one of maximal score, and among nodes of equal score the one nearest the front of
  the list; the order of the remaining nodes is unchanged.\<close>

lemma lru_evict_first_maximal:
  assumes "lru_inv l" and "\<exists>n \<in> set (lru_nodes l). evictable n"
  shows "\<exists>ys n zs. lru_nodes l = ys @ n # zs \<and> fst (lru_evict l) = node_id n \<and>
    lru_nodes (snd (lru_evict l)) = ys @ zs \<and> evictable n \<and>
    (\<forall>m \<in> set ys. evictable m \<longrightarrow> double_less (score m) (score n)) \<and>
    (\<forall>m \<in> set zs. \<not> double_less (score n) (score m))"
  using lru_evict_nodes [OF assms(1) prod.collapse [symmetric] assms(2)] .

lemma lru_three:
  "lru_nodes (lru_run [Touch 1 65536 (Fin 1), Touch 2 65536 (Fin (1/4)), Touch 3 65536 (Fin 1)]
      (LruPolicy 5)) =
    [\<lparr>node_id = 3, node_bytes = 65536, node_hotness = Fin 1\<rparr>,
     \<lparr>node_id = 2, node_bytes = 65536, node_hotness = Fin (1/4)\<rparr>,
     \<lparr>node_id = 1, node_bytes = 65536, node_hotness = Fin 1\<rparr>]"
  by (simp add: lru_run_def lru_touch_eq lru_remove_def make_room_def push_front_def LruPolicy_def
      lru_nodes_def)

lemma lru_evict_first_maximal_witness:
  "\<exists>ys n zs. lru_nodes (lru_run [Touch 1 65536 (Fin 1), Touch 2 65536 (Fin (1/4)),
       Touch 3 65536 (Fin 1)] (LruPolicy 5)) = ys @ n # zs \<and>
    fst (lru_evict (lru_run [Touch 1 65536 (Fin 1), Touch 2 65536 (Fin (1/4)),
       Touch 3 65536 (Fin 1)] (LruPolicy 5))) = node_id n \<and> evictable n"
proof -
  let ?l = "lru_run [Touch 1 65536 (Fin 1), Touch 2 65536 (Fin (1/4)), Touch 3 65536 (Fin 1)]
    (LruPolicy 5)"
  have "lru_inv ?l" by (simp add: lru_run_def lru_touch_inv LruPolicy_inv)
  moreover have "\<exists>n \<in> set (lru_nodes ?l). evictable n"
    unfolding lru_three by (simp add: evictable_hot)
  ultimately show ?thesis using lru_evict_first_maximal by blast
qed



end
