(* ===== verification/Thread_Pool.thy ===== *)
theory Thread_Pool
  imports Cache_Prelude "HOL-Library.Multiset"
begin

text \<open>
  \<^verbatim>\<open>cache/thread_pool.h\<close>, \<^verbatim>\<open>cache/thread_pool.cc\<close> and
  \<^verbatim>\<open>cache/thread_pool.inl\<close> as a transition system.  A critical section under
  \<open>mu_\<close> is one step; a worker is about to test the wait predicate (\<open>Checking\<close>), waits
  on the condition variable (\<open>Blocked\<close>), runs a job outside the lock (\<open>Running\<close>) or has
  returned (\<open>Exited\<close>).  Notifications are steps of their own, since both
  \<open>notify_one\<close> and \<open>notify_all\<close> are called after the lock is released; a spurious
  wake-up is a step of the environment.  The fields \<open>wp_enq\<close>, \<open>wp_taken\<close> and
  \<open>wp_done\<close> record the jobs enqueued, taken and finished so far.
\<close>

section \<open>State and operations\<close>

datatype 'j wstate = Checking | Blocked | Running 'j | Exited

record 'j pool =
  wp_workers :: "'j wstate list"
  wp_tasks :: "'j list"
  wp_stop :: bool
  wp_pending :: nat \<comment> \<open>calls of \<open>enqueue\<close> that have not notified yet\<close>
  wp_stopping :: bool \<comment> \<open>the destructor has set \<open>stop_\<close> and not notified yet\<close>
  wp_enq :: "'j list"
  wp_taken :: "'j list"
  wp_done :: "'j list"

definition ThreadPool :: "nat \<Rightarrow> 'j pool" where
  "ThreadPool numThreads =
     \<lparr>wp_workers = replicate (if numThreads = 0 then 1 else numThreads) Checking, wp_tasks = [],
      wp_stop = False, wp_pending = 0, wp_stopping = False, wp_enq = [], wp_taken = [], wp_done = []\<rparr>"

definition pool_enqueue :: "'j \<Rightarrow> 'j pool \<Rightarrow> 'j pool" where
  "pool_enqueue j s =
     s\<lparr>wp_tasks := wp_tasks s @ [j], wp_pending := Suc (wp_pending s), wp_enq := wp_enq s @ [j]\<rparr>"

text \<open>The destructor's critical section.\<close>

definition pool_stop :: "'j pool \<Rightarrow> 'j pool" where
  "pool_stop s = s\<lparr>wp_stop := True, wp_stopping := True\<rparr>"

definition set_worker :: "nat \<Rightarrow> 'j wstate \<Rightarrow> 'j pool \<Rightarrow> 'j pool" where
  "set_worker i w s = s\<lparr>wp_workers := (wp_workers s)[i := w]\<rparr>"

text \<open>One turn of \<open>worker_loop\<close>: the wait predicate, the exit test, the dequeue; or the end
  of a job.\<close>

definition worker_loop :: "nat \<Rightarrow> 'j pool \<Rightarrow> 'j pool" where
  "worker_loop i s =
     (case wp_workers s ! i of
        Checking \<Rightarrow>
          (if \<not> (wp_stop s \<or> wp_tasks s \<noteq> []) then set_worker i Blocked s
           else if wp_stop s \<and> wp_tasks s = [] then set_worker i Exited s
           else set_worker i (Running (hd (wp_tasks s)))
                  (s\<lparr>wp_tasks := tl (wp_tasks s), wp_taken := wp_taken s @ [hd (wp_tasks s)]\<rparr>))
      | Running j \<Rightarrow> set_worker i Checking (s\<lparr>wp_done := wp_done s @ [j]\<rparr>)
      | _ \<Rightarrow> s)"

definition wake :: "'j wstate \<Rightarrow> 'j wstate" where
  "wake w = (case w of Blocked \<Rightarrow> Checking | _ \<Rightarrow> w)"

section \<open>Step relation\<close>

text \<open>Steps of the pool itself; \<open>notify_one\<close> wakes some blocked worker if there is one.\<close>

inductive pool_internal :: "'j pool \<Rightarrow> 'j pool \<Rightarrow> bool" where
  work: "i < length (wp_workers s) \<Longrightarrow> wp_workers s ! i = Checking \<or> wp_workers s ! i = Running j \<Longrightarrow>
    pool_internal s (worker_loop i s)"
| notify_one: "wp_pending s = Suc n \<Longrightarrow> i < length (wp_workers s) \<Longrightarrow> wp_workers s ! i = Blocked \<Longrightarrow>
    pool_internal s (set_worker i Checking (s\<lparr>wp_pending := n\<rparr>))"
| notify_none: "wp_pending s = Suc n \<Longrightarrow> Blocked \<notin> set (wp_workers s) \<Longrightarrow>
    pool_internal s (s\<lparr>wp_pending := n\<rparr>)"
| notify_all: "wp_stopping s \<Longrightarrow>
    pool_internal s (s\<lparr>wp_stopping := False, wp_workers := map wake (wp_workers s)\<rparr>)"

text \<open>Calls of the owner, allowed until destruction begins, and spurious wake-ups.\<close>

inductive pool_step :: "'j pool \<Rightarrow> 'j pool \<Rightarrow> bool" where
  internal: "pool_internal s t \<Longrightarrow> pool_step s t"
| enqueue: "\<not> wp_stop s \<Longrightarrow> pool_step s (pool_enqueue j s)"
| stop: "\<not> wp_stop s \<Longrightarrow> pool_step s (pool_stop s)"
| spurious: "i < length (wp_workers s) \<Longrightarrow> wp_workers s ! i = Blocked \<Longrightarrow>
    pool_step s (set_worker i Checking s)"

inductive pool_start :: "'j pool \<Rightarrow> bool" where
  "pool_start (ThreadPool n)"

inductive_cases pool_startE: "pool_start s"
inductive_cases pool_stepE: "pool_step s t"
inductive_cases pool_internalE: "pool_internal s t"

section \<open>Invariant\<close>

definition running_jobs :: "'j wstate list \<Rightarrow> 'j multiset" where
  "running_jobs ws = mset (concat (map (\<lambda>w. case w of Running j \<Rightarrow> [j] | _ \<Rightarrow> []) ws))"

definition awake :: "'j wstate \<Rightarrow> bool" where
  "awake w \<longleftrightarrow> w \<noteq> Blocked \<and> w \<noteq> Exited"

text \<open>Jobs leave the queue in the order they entered it and are running or done afterwards;
  a queued job has a notification pending or a worker awake; workers exit only once the pool is
  stopped and its queue empty; no worker stays blocked after \<open>notify_all\<close>.\<close>

definition pool_inv :: "'j pool \<Rightarrow> bool" where
  "pool_inv s \<longleftrightarrow>
     wp_enq s = wp_taken s @ wp_tasks s \<and>
     mset (wp_taken s) = mset (wp_done s) + running_jobs (wp_workers s) \<and>
     (wp_tasks s \<noteq> [] \<longrightarrow> wp_pending s > 0 \<or> wp_stopping s \<or> (\<exists>w \<in> set (wp_workers s). awake w)) \<and>
     (Exited \<in> set (wp_workers s) \<longrightarrow> wp_stop s \<and> wp_tasks s = []) \<and>
     (wp_stop s \<and> \<not> wp_stopping s \<longrightarrow> Blocked \<notin> set (wp_workers s)) \<and>
     (wp_stopping s \<longrightarrow> wp_stop s) \<and> wp_workers s \<noteq> []"

lemma running_jobs_update:
  assumes "i < length ws"
  shows "running_jobs (ws[i := w]) + running_jobs [ws ! i] = running_jobs ws + running_jobs [w]"
proof -
  obtain xs y zs where "ws = xs @ y # zs" "i = length xs"
    using id_take_nth_drop [OF assms] assms by (metis length_take min.absorb4)
  then show ?thesis by (simp add: running_jobs_def ac_simps)
qed

lemma running_jobs_single [simp]:
  "running_jobs [Checking] = {#}" "running_jobs [Blocked] = {#}" "running_jobs [Exited] = {#}"
  "running_jobs [Running j] = {#j#}"
  by (simp_all add: running_jobs_def)

lemma running_jobs_wake [simp]: "running_jobs (map wake ws) = running_jobs ws"
proof -
  have "map (\<lambda>w. case w of Running j \<Rightarrow> [j] | _ \<Rightarrow> []) (map wake ws) =
      map (\<lambda>w. case w of Running j \<Rightarrow> [j] | _ \<Rightarrow> []) ws"
    by (auto simp: wake_def split: wstate.splits)
  then show ?thesis by (simp only: running_jobs_def)
qed

lemma ThreadPool_inv: "pool_inv (ThreadPool n)"
proof -
  have "running_jobs (replicate k Checking) = {#}" for k
    by (induction k) (simp_all add: running_jobs_def)
  then show ?thesis by (auto simp: pool_inv_def ThreadPool_def)
qed

text \<open>A worker that becomes or stays awake discharges the wake-up clause.\<close>

lemma awake_update: "i < length ws \<Longrightarrow> awake w \<Longrightarrow> \<exists>v \<in> set (ws[i := w]). awake v"
  using set_update_memI [of i ws w] by blast

lemma update_mem: "x \<in> set (ws[i := w]) \<Longrightarrow> x = w \<or> x \<in> set ws"
  using set_update_subset_insert [of ws i w] by auto

lemma worker_loop_inv:
  assumes inv: "pool_inv s" and i: "i < length (wp_workers s)"
    and w: "wp_workers s ! i = Checking \<or> wp_workers s ! i = Running j"
  shows "pool_inv (worker_loop i s)"
proof -
  note upd = running_jobs_update [OF i]
  note mem = update_mem [of _ "wp_workers s" i] and aw = awake_update [OF i]
  have memi: "wp_workers s ! i \<in> set (wp_workers s)" using i by simp
  show ?thesis
  proof (cases "wp_workers s ! i = Checking")
    case True
    consider (block) "\<not> wp_stop s" "wp_tasks s = []" | (exit) "wp_stop s" "wp_tasks s = []"
      | (take) j' ts where "wp_tasks s = j' # ts"
      by (cases "wp_tasks s") auto
    then show ?thesis
    proof cases
      case block
      then show ?thesis using inv True upd [of Blocked] mem
        by (auto simp: pool_inv_def worker_loop_def set_worker_def)
    next
      case exit
      then show ?thesis using inv True upd [of Exited] mem
        by (auto simp: pool_inv_def worker_loop_def set_worker_def)
    next
      case take
      then show ?thesis using inv True upd [of "Running j'"] mem [of _ "Running j'"] aw [of "Running j'"]
        by (auto simp: pool_inv_def worker_loop_def set_worker_def awake_def)
    qed
  next
    case False
    with w have run: "wp_workers s ! i = Running j" by simp
    then show ?thesis using inv upd [of Checking] mem [of _ Checking] aw [of Checking]
      by (auto simp: pool_inv_def worker_loop_def set_worker_def awake_def ac_simps)
  qed
qed

lemma set_checking_inv:
  assumes inv: "pool_inv s" and i: "i < length (wp_workers s)" and w: "wp_workers s ! i = Blocked"
  shows "pool_inv (set_worker i Checking (s\<lparr>wp_pending := n\<rparr>))"
  using inv running_jobs_update [OF i, of Checking] update_mem [of _ "wp_workers s" i Checking]
    awake_update [OF i, of Checking] w
  by (auto simp: pool_inv_def set_worker_def awake_def)

lemma pool_internal_inv: "pool_internal s t \<Longrightarrow> pool_inv s \<Longrightarrow> pool_inv t"
proof (induction rule: pool_internal.induct)
  case (work i s j)
  then show ?case by (intro worker_loop_inv)
next
  case (notify_one s n i)
  then show ?case by (intro set_checking_inv)
next
  case (notify_none s n)
  have "\<exists>w \<in> set (wp_workers s). awake w" if "wp_tasks s \<noteq> []"
    using notify_none that by (cases "wp_workers s") (auto simp: pool_inv_def awake_def)
  then show ?case using notify_none by (auto simp: pool_inv_def)
next
  case (notify_all s)
  have "\<exists>w \<in> set (map wake (wp_workers s)). awake w" if "wp_tasks s \<noteq> []"
    using notify_all that
    by (cases "wp_workers s") (auto simp: pool_inv_def awake_def wake_def split: wstate.splits)
  moreover have "Blocked \<notin> set (map wake (wp_workers s))"
    "Exited \<in> set (map wake (wp_workers s)) \<longleftrightarrow> Exited \<in> set (wp_workers s)"
    by (auto simp: wake_def image_iff split: wstate.splits) (metis wstate.exhaust)
  ultimately show ?case using notify_all by (auto simp: pool_inv_def)
qed

lemma pool_step_inv: "pool_step s t \<Longrightarrow> pool_inv s \<Longrightarrow> pool_inv t"
proof (induction rule: pool_step.induct)
  case (internal s t)
  then show ?case by (rule pool_internal_inv)
next
  case (enqueue s j)
  then show ?case by (auto simp: pool_inv_def pool_enqueue_def)
next
  case (stop s)
  then show ?case by (auto simp: pool_inv_def pool_stop_def)
next
  case (spurious i s)
  then show ?case using set_checking_inv [of s i "wp_pending s"] by simp
qed

interpretation pool: transition_system pool_start pool_step pool_inv
  by unfold_locales (auto elim: pool_startE intro: ThreadPool_inv pool_step_inv)

section \<open>Progress and termination of the pool's own steps\<close>

lemma pool_progress:
  assumes inv: "pool_inv s" and stuck: "\<nexists>t. pool_internal s t"
  shows "wp_tasks s = [] \<and> (if wp_stop s then set (wp_workers s) = {Exited} else set (wp_workers s) = {Blocked})"
proof -
  have asleep: "w = Blocked \<or> w = Exited" if "w \<in> set (wp_workers s)" for w
  proof -
    from that obtain i where "i < length (wp_workers s)" "w = wp_workers s ! i" by (metis in_set_conv_nth)
    with stuck pool_internal.work [of i s] show ?thesis by (cases w) metis+
  qed
  have nopend: "wp_pending s = 0"
  proof (rule ccontr)
    assume "wp_pending s \<noteq> 0"
    then obtain n where n: "wp_pending s = Suc n" by (cases "wp_pending s") auto
    show False
    proof (cases "Blocked \<in> set (wp_workers s)")
      case True
      then obtain i where "i < length (wp_workers s)" "wp_workers s ! i = Blocked" by (metis in_set_conv_nth)
      with n stuck show False by (blast intro: pool_internal.notify_one)
    qed (use n stuck in \<open>blast intro: pool_internal.notify_none\<close>)
  qed
  have nostop: "\<not> wp_stopping s" using stuck by (blast intro: pool_internal.notify_all)
  have tasks: "wp_tasks s = []"
    using inv nopend nostop asleep by (auto simp: pool_inv_def awake_def)
  have ne: "wp_workers s \<noteq> []" using inv by (simp add: pool_inv_def)
  have "Exited \<in> set (wp_workers s) \<longrightarrow> wp_stop s" "wp_stop s \<longrightarrow> Blocked \<notin> set (wp_workers s)"
    using inv nostop by (auto simp: pool_inv_def)
  with asleep ne have "if wp_stop s then set (wp_workers s) = {Exited} else set (wp_workers s) = {Blocked}"
    by (cases "wp_workers s") auto
  with tasks show ?thesis by blast
qed

fun worker_weight :: "'j wstate \<Rightarrow> nat" where
  "worker_weight Exited = 0"
| "worker_weight Blocked = 1"
| "worker_weight Checking = 2"
| "worker_weight (Running j) = 3"

definition pool_measure :: "'j pool \<Rightarrow> nat" where
  "pool_measure s =
     2 * length (wp_tasks s) + 2 * wp_pending s + sum_list (map worker_weight (wp_workers s)) +
     (if wp_stopping s then Suc (length (wp_workers s)) else 0)"

lemma weight_update:
  assumes "i < length ws"
  shows "sum_list (map worker_weight (ws[i := w])) + worker_weight (ws ! i) =
    sum_list (map worker_weight ws) + worker_weight w"
proof -
  obtain xs y zs where "ws = xs @ y # zs" "i = length xs"
    using id_take_nth_drop [OF assms] assms by (metis length_take min.absorb4)
  then show ?thesis by simp
qed

lemma weight_wake: "sum_list (map worker_weight (map wake ws)) \<le> sum_list (map worker_weight ws) + length ws"
  by (induction ws) (auto simp: wake_def split: wstate.splits)

lemma pool_internal_decreases: "pool_internal s t \<Longrightarrow> pool_measure t < pool_measure s"
proof (induction rule: pool_internal.induct)
  case (work i s j)
  note upd = weight_update [OF work(1)]
  show ?case
  proof (cases "wp_workers s ! i = Checking")
    case True
    then show ?thesis using upd [of Blocked] upd [of Exited] upd [of "Running (hd (wp_tasks s))"]
      by (cases "wp_tasks s") (auto simp: pool_measure_def worker_loop_def set_worker_def)
  next
    case False
    then show ?thesis using work(2) upd [of Checking]
      by (auto simp: pool_measure_def worker_loop_def set_worker_def)
  qed
next
  case (notify_one s n i)
  then show ?case using weight_update [OF notify_one(2), of Checking]
    by (auto simp: pool_measure_def set_worker_def)
next
  case (notify_none s n)
  then show ?case by (auto simp: pool_measure_def)
next
  case (notify_all s)
  then show ?case using weight_wake [of "wp_workers s"] by (auto simp: pool_measure_def simp del: map_map)
qed

lemma pool_internal_wf: "wfp (\<lambda>t s. pool_internal s t)"
  by (rule wfp_if_convertible_to_nat [of _ pool_measure]) (rule pool_internal_decreases)

lemma pool_internal_stop: "pool_internal s t \<Longrightarrow> wp_stop t = wp_stop s \<and> wp_enq t = wp_enq s"
  by (induction rule: pool_internal.induct)
    (auto simp: worker_loop_def set_worker_def split: wstate.splits)

lemma pool_internal_steps:
  "pool_internal\<^sup>*\<^sup>* s t \<Longrightarrow> wp_stop t = wp_stop s \<and> wp_enq t = wp_enq s \<and> pool_step\<^sup>*\<^sup>* s t"
  by (induction rule: rtranclp_induct)
    (auto dest: pool_internal_stop intro: rtranclp.rtrancl_into_rtrancl pool_step.internal)

text \<open>Every run of internal steps can be extended to a stuck state.\<close>

lemma pool_reaches_stuck: "\<exists>t. pool_internal\<^sup>*\<^sup>* s t \<and> (\<nexists>u. pool_internal t u)"
proof (induction "pool_measure s" arbitrary: s rule: less_induct)
  case less
  show ?case
  proof (cases "\<exists>u. pool_internal s u")
    case True
    then obtain u where u: "pool_internal s u" by blast
    then obtain t where "pool_internal\<^sup>*\<^sup>* u t" "\<nexists>v. pool_internal t v"
      using less pool_internal_decreases by blast
    with u show ?thesis by (meson converse_rtranclp_into_rtranclp)
  qed blast
qed

section \<open>Properties\<close>

text \<open>C18: No job is lost, duplicated or reordered: in every reachable state of a pool the jobs
  enqueued so far are the jobs taken so far, in the order they were enqueued, followed by the
  queue; and every job taken is either finished or being run by exactly one worker.\<close>

theorem pool_exactly_once:
  assumes "pool_start s0" and "pool_step\<^sup>*\<^sup>* s0 s"
  shows "wp_enq s = wp_taken s @ wp_tasks s \<and>
    mset (wp_taken s) = mset (wp_done s) + running_jobs (wp_workers s)"
  using pool.reachable_inv [OF assms] by (simp add: pool_inv_def)

theorem pool_exactly_once_witness:
  "wp_enq (worker_loop 0 (pool_enqueue (2::nat) (pool_enqueue 1 (ThreadPool 4)))) =
   wp_taken (worker_loop 0 (pool_enqueue (2::nat) (pool_enqueue 1 (ThreadPool 4)))) @ [2]"
proof -
  let ?init = "ThreadPool 4 :: nat pool"
  let ?two = "pool_enqueue 2 (pool_enqueue 1 ?init)"
  have "pool_step ?init (pool_enqueue 1 ?init)" by (rule pool_step.enqueue) (simp add: ThreadPool_def)
  moreover have "pool_step (pool_enqueue 1 ?init) ?two"
    by (rule pool_step.enqueue) (simp add: ThreadPool_def pool_enqueue_def)
  moreover have "pool_step ?two (worker_loop 0 ?two)"
    by (rule pool_step.internal [OF pool_internal.work]) (auto simp: ThreadPool_def pool_enqueue_def)
  ultimately have "pool_step\<^sup>*\<^sup>* ?init (worker_loop 0 ?two)"
    by (meson converse_rtranclp_into_rtranclp r_into_rtranclp)
  from pool_exactly_once [OF pool_start.intros this] show ?thesis
    by (simp add: worker_loop_def pool_enqueue_def ThreadPool_def set_worker_def)
qed

text \<open>C22: No wake-up is lost: a reachable state in which the pool itself can make no step has
  an empty queue, and its workers all wait on the condition variable, or, once the destructor
  has set \<open>stop_\<close>, have all returned, so that the joins succeed.\<close>

theorem pool_no_lost_wakeup:
  assumes "pool_start s0" and "pool_step\<^sup>*\<^sup>* s0 s" and "\<nexists>t. pool_internal s t"
  shows "wp_tasks s = [] \<and>
    (if wp_stop s then set (wp_workers s) = {Exited} else set (wp_workers s) = {Blocked})"
  by (rule pool_progress [OF pool.reachable_inv [OF assms(1,2)] assms(3)])

theorem pool_no_lost_wakeup_witness:
  "wp_tasks (worker_loop 0 (ThreadPool 0 :: nat pool)) = []"
proof -
  let ?init = "ThreadPool 0 :: nat pool"
  let ?s = "worker_loop 0 ?init"
  have s: "wp_workers ?s = [Blocked]" "wp_pending ?s = 0" "\<not> wp_stopping ?s"
    by (simp_all add: worker_loop_def ThreadPool_def set_worker_def)
  have "pool_step ?init ?s"
    by (rule pool_step.internal [OF pool_internal.work]) (auto simp: ThreadPool_def)
  then have "pool_step\<^sup>*\<^sup>* ?init ?s" by blast
  moreover have "\<nexists>t. pool_internal ?s t"
    using s by (auto elim!: pool_internalE simp: less_Suc_eq)
  ultimately show ?thesis using pool_no_lost_wakeup [OF pool_start.intros] by blast
qed

text \<open>C23: The destructor drains the pool: from any reachable state with \<open>stop_\<close> set, the
  pool's own steps cannot go on forever, some state without further steps is reached, and in
  every such state all workers have returned and exactly the enqueued jobs have been run.\<close>

theorem pool_destructor_drains:
  assumes "pool_start s0" and "pool_step\<^sup>*\<^sup>* s0 s" and "wp_stop s"
  shows "wfp (\<lambda>t s. pool_internal (s :: 'j pool) t) \<and>
    (\<exists>t. pool_internal\<^sup>*\<^sup>* s t \<and> (\<nexists>u. pool_internal t u)) \<and>
    (\<forall>t. pool_internal\<^sup>*\<^sup>* s t \<longrightarrow> (\<nexists>u. pool_internal t u) \<longrightarrow>
       set (wp_workers t) = {Exited} \<and> mset (wp_done t) = mset (wp_enq s))"
proof (intro conjI allI impI)
  fix t
  assume run: "pool_internal\<^sup>*\<^sup>* s t" and stuck: "\<nexists>u. pool_internal t u"
  have same: "wp_stop t" "wp_enq t = wp_enq s" using pool_internal_steps [OF run] assms(3) by simp_all
  have "pool_step\<^sup>*\<^sup>* s0 t" using pool_internal_steps [OF run] assms(2) by auto
  from pool.reachable_inv [OF assms(1) this] have inv: "pool_inv t" .
  from pool_progress [OF inv stuck] same(1)
  have ex: "wp_tasks t = []" "set (wp_workers t) = {Exited}" by simp_all
  then have "running_jobs (wp_workers t) = {#}" by (simp add: running_jobs_def)
  with inv ex(1) same(2) show "set (wp_workers t) = {Exited}" "mset (wp_done t) = mset (wp_enq s)"
    using ex(2) by (auto simp: pool_inv_def)
qed (rule pool_internal_wf pool_reaches_stuck)+

theorem pool_destructor_drains_witness:
  "\<exists>t. pool_internal\<^sup>*\<^sup>* (pool_stop (pool_enqueue (7::nat) (ThreadPool 4))) t \<and>
     set (wp_workers t) = {Exited} \<and> mset (wp_done t) = {#7#}"
proof -
  let ?init = "ThreadPool 4 :: nat pool"
  let ?s = "pool_stop (pool_enqueue 7 ?init)"
  have "pool_step ?init (pool_enqueue 7 ?init)" by (rule pool_step.enqueue) (simp add: ThreadPool_def)
  moreover have "pool_step (pool_enqueue 7 ?init) ?s"
    by (rule pool_step.stop) (simp add: ThreadPool_def pool_enqueue_def)
  ultimately have "pool_step\<^sup>*\<^sup>* ?init ?s"
    by (meson converse_rtranclp_into_rtranclp r_into_rtranclp)
  moreover have "wp_stop ?s" by (simp add: pool_stop_def)
  ultimately obtain t where "pool_internal\<^sup>*\<^sup>* ?s t" "\<nexists>u. pool_internal t u"
    "set (wp_workers t) = {Exited} \<and> mset (wp_done t) = mset (wp_enq ?s)"
    using pool_destructor_drains [OF pool_start.intros, of 4 ?s] by blast
  then show ?thesis by (auto simp: pool_stop_def pool_enqueue_def ThreadPool_def)
qed

end
