(* ===== verification/Http_Backend.thy ===== *)
theory Http_Backend
  imports Cache_Prelude "HOL-Library.Signed_Division"
begin

text \<open>
  \<^verbatim>\<open>backend/backend.h\<close> and \<^verbatim>\<open>backend/http_backend.cc\<close>: the remote store
  behind the cache, reached by HTTP.  libcurl is not part of the repository: it is the parameter
  \<open>cu\<close>, a record of what the code uses of it, over a state \<open>'w\<close> of the outside world.
  The request a call builds from its options, the two callbacks and the treatment of the response
  are the code's.  What the properties rely on of the server is named (\<open>range_server\<close>: a
  range request for an existing object is answered with that range).
\<close>

section \<open>The libcurl interface\<close>

datatype http_method = GET | PUT | DELETE

text \<open>A request as the options describe it.\<close>

record http_request =
  rq_method :: http_method
  rq_url :: string
  rq_range :: "string option"
  rq_headers :: "string list"
  rq_infilesize :: "u64 option"

text \<open>\<open>rs_ok\<close>: \<open>curl_easy_perform\<close> gave \<open>CURLE_OK\<close>; \<open>rs_code\<close>: the
  response code; \<open>rs_chunks\<close>: the pieces of the body, in the order the write callback got
  them.\<close>

record http_response =
  rs_ok :: bool
  rs_code :: int
  rs_chunks :: "bytes list"

text \<open>\<open>cu_pulls\<close>: the sizes \<open>sz * nm\<close> of the buffers the read callback is asked to fill,
  in order; libcurl stops asking when the callback returns 0.  \<open>cu_perform\<close> gets the
  bytes the callback supplied.\<close>

record 'w curl =
  cu_init :: "'w \<Rightarrow> bool \<times> 'w"
  cu_pulls :: "http_request \<Rightarrow> 'w \<Rightarrow> u64 list"
  cu_perform :: "http_request \<Rightarrow> bytes \<Rightarrow> 'w \<Rightarrow> http_response \<times> 'w"

section \<open>The callbacks\<close>

record SliceWriter =
  sw_dst :: bytes
  sw_cap :: u64
  sw_pos :: u64

text \<open>\<open>ptr\<close> holds \<open>sz * nm\<close> bytes.\<close>

definition write_slice_cb :: "bytes \<Rightarrow> u64 \<Rightarrow> u64 \<Rightarrow> SliceWriter \<Rightarrow> u64 \<times> SliceWriter" where
  "write_slice_cb ptr sz nm sw =
     (let n = sz * nm;
          cpy = min n (sw_cap sw - sw_pos sw)
      in (n, if cpy \<noteq> 0
             then sw\<lparr>sw_dst := splice (sw_dst sw) (unat (sw_pos sw)) (take (unat cpy) ptr),
                     sw_pos := sw_pos sw + cpy\<rparr>
             else sw))"

record UploadBuf =
  ub_data :: bytes
  ub_total :: u64
  ub_pos :: u64

text \<open>The bytes put into \<open>ptr\<close>; their number is the return value.\<close>

definition read_upload_cb :: "u64 \<Rightarrow> UploadBuf \<Rightarrow> bytes \<times> UploadBuf" where
  "read_upload_cb room up =
     (let left = ub_total up - ub_pos up;
          cpy = min left room
      in if cpy \<noteq> 0
         then (slice (unat (ub_pos up)) (unat cpy) (ub_data up), up\<lparr>ub_pos := ub_pos up + cpy\<rparr>)
         else ([], up))"

definition ok_2xx :: "int \<Rightarrow> bool" where
  "ok_2xx code \<longleftrightarrow> code sdiv 100 = 2"

text \<open>libcurl calls the write callback with \<open>sz = 1\<close> on each piece of the body, and the read
  callback until it returns nothing.\<close>

definition deliver :: "bytes list \<Rightarrow> SliceWriter \<Rightarrow> SliceWriter" where
  "deliver chunks sw = fold (\<lambda>c sw. snd (write_slice_cb c 1 (of_nat (length c)) sw)) chunks sw"

fun pull :: "u64 list \<Rightarrow> UploadBuf \<Rightarrow> bytes" where
  "pull [] up = []"
| "pull (room # rooms) up =
     (case read_upload_cb room up of
        (d, up') \<Rightarrow> if d = [] then [] else d @ pull rooms up')"

section \<open>The class\<close>

record HttpBackend =
  base_url :: string
  bearer_token :: string

definition hb_init :: "string \<Rightarrow> string \<Rightarrow> HttpBackend \<Rightarrow> int \<times> HttpBackend" where
  "hb_init url token b = (0, b\<lparr>base_url := url, bearer_token := token\<rparr>)"

definition auth_headers :: "HttpBackend \<Rightarrow> string list" where
  "auth_headers b =
     (if bearer_token b \<noteq> [] then [c_str (''Authorization: Bearer '' @ bearer_token b)] else [])"

text \<open>\<open>std::to_string(offset) + "-" + std::to_string(offset + size - 1)\<close>: the offset is signed,
  the sum is computed in \<open>size_t\<close>.\<close>

definition range_text :: "u64 \<Rightarrow> u64 \<Rightarrow> string" where
  "range_text len offset = to_string_int (sint offset) @ ''-'' @ to_dec (unat (offset + len - 1))"

text \<open>The return value, the caller's buffer and the world afterwards.\<close>

definition download ::
    "'w curl \<Rightarrow> HttpBackend \<Rightarrow> string \<Rightarrow> bytes \<Rightarrow> u64 \<Rightarrow> u64 \<Rightarrow> 'w \<Rightarrow> int \<times> bytes \<times> 'w" where
  "download cu b path buffer len offset w =
     (case cu_init cu w of
        (False, w1) \<Rightarrow> (- 1, buffer, w1)
      | (True, w1) \<Rightarrow>
          (let req = \<lparr>rq_method = GET, rq_url = c_str (base_url b @ path),
                      rq_range = (if len \<noteq> 0 then Some (range_text len offset) else None),
                      rq_headers = auth_headers b, rq_infilesize = None\<rparr>
           in case cu_perform cu req [] w1 of
                (resp, w2) \<Rightarrow>
                  (let sw = deliver (rs_chunks resp) \<lparr>sw_dst = buffer, sw_cap = len, sw_pos = 0\<rparr>
                   in if \<not> rs_ok resp \<or> \<not> ok_2xx (rs_code resp)
                      then (- 1, sw_dst sw, w2)
                      else (sint (sw_pos sw), sw_dst sw, w2))))"

definition upload ::
    "'w curl \<Rightarrow> HttpBackend \<Rightarrow> string \<Rightarrow> bytes \<Rightarrow> u64 \<Rightarrow> u64 \<Rightarrow> 'w \<Rightarrow> int \<times> 'w" where
  "upload cu b path buffer len offset w =
     (case cu_init cu w of
        (False, w1) \<Rightarrow> (- 1, w1)
      | (True, w1) \<Rightarrow>
          (let cr = ''bytes '' @ range_text len offset @ ''/*'';
               req = \<lparr>rq_method = PUT, rq_url = c_str (base_url b @ path), rq_range = None,
                      rq_headers = (''Content-Range: '' @ cr) # auth_headers b,
                      rq_infilesize = Some len\<rparr>;
               body = pull (cu_pulls cu req w1) \<lparr>ub_data = buffer, ub_total = len, ub_pos = 0\<rparr>
           in case cu_perform cu req body w1 of
                (resp, w2) \<Rightarrow>
                  (if rs_ok resp \<and> ok_2xx (rs_code resp) then sint len else - 1, w2)))"

definition hb_remove :: "'w curl \<Rightarrow> HttpBackend \<Rightarrow> string \<Rightarrow> 'w \<Rightarrow> int \<times> 'w" where
  "hb_remove cu b path w =
     (case cu_init cu w of
        (False, w1) \<Rightarrow> (- 1, w1)
      | (True, w1) \<Rightarrow>
          (let req = \<lparr>rq_method = DELETE, rq_url = c_str (base_url b @ path), rq_range = None,
                      rq_headers = auth_headers b, rq_infilesize = None\<rparr>
           in case cu_perform cu req [] w1 of
                (resp, w2) \<Rightarrow> (if rs_ok resp \<and> ok_2xx (rs_code resp) then 0 else - 1, w2)))"

section \<open>The process-wide backend\<close>

text \<open>\<open>g_backend\<close>, the pointer the four functions share under \<open>g_mtx\<close>.\<close>

type_synonym g_backend = "HttpBackend option"

definition create_backend :: "string \<Rightarrow> g_backend \<Rightarrow> HttpBackend option \<times> g_backend" where
  "create_backend url g =
     (case hb_init url [] \<lparr>base_url = [], bearer_token = []\<rparr> of
        (rc, b) \<Rightarrow> if rc \<noteq> 0 then (None, g) else (Some b, Some b))"

definition backend_read_range ::
    "'w curl \<Rightarrow> g_backend \<Rightarrow> string \<Rightarrow> bytes \<Rightarrow> u64 \<Rightarrow> u64 \<Rightarrow> 'w \<Rightarrow> int \<times> bytes \<times> 'w" where
  "backend_read_range cu g path buf len off w =
     (case g of None \<Rightarrow> (- ENODEV, buf, w) | Some b \<Rightarrow> download cu b path buf len off w)"

definition backend_put_range ::
    "'w curl \<Rightarrow> g_backend \<Rightarrow> string \<Rightarrow> bytes \<Rightarrow> u64 \<Rightarrow> u64 \<Rightarrow> 'w \<Rightarrow> int \<times> 'w" where
  "backend_put_range cu g path buf len off w =
     (case g of None \<Rightarrow> (- ENODEV, w) | Some b \<Rightarrow> upload cu b path buf len off w)"

definition backend_delete :: "'w curl \<Rightarrow> g_backend \<Rightarrow> string \<Rightarrow> 'w \<Rightarrow> int \<times> 'w" where
  "backend_delete cu g path w =
     (case g of None \<Rightarrow> (- ENODEV, w) | Some b \<Rightarrow> hb_remove cu b path w)"

section \<open>What the callbacks do\<close>

lemma unat_chunk: "length (c :: bytes) < 18446744073709551616 \<Longrightarrow> unat (of_nat (length c) :: u64) = length c"
  by (simp add: unat_of_nat)

lemma unat_plus_le: "unat (a :: u64) + unat b \<le> unat (c :: u64) \<Longrightarrow> unat (a + b) = unat a + unat b"
  using unat_u64_less [of c] by (simp add: unat_word_ariths)

text \<open>One piece of the body: as much of it as fits is appended at \<open>pos\<close>.\<close>

lemma write_slice_cb_step:
  assumes "sw_pos sw \<le> sw_cap sw" and "length c < 18446744073709551616"
  defines "room \<equiv> unat (sw_cap sw) - unat (sw_pos sw)"
  shows "fst (write_slice_cb c 1 (of_nat (length c)) sw) = of_nat (length c)"
    and "sw_dst (snd (write_slice_cb c 1 (of_nat (length c)) sw)) =
           splice (sw_dst sw) (unat (sw_pos sw)) (take room c)"
    and "unat (sw_pos (snd (write_slice_cb c 1 (of_nat (length c)) sw))) =
           unat (sw_pos sw) + min (length c) room"
    and "sw_cap (snd (write_slice_cb c 1 (of_nat (length c)) sw)) = sw_cap sw"
proof -
  let ?cpy = "min (of_nat (length c)) (sw_cap sw - sw_pos sw) :: u64"
  have sub: "unat (sw_cap sw - sw_pos sw) = room" using assms(1) by (simp add: room_def unat_sub)
  have cpy: "unat ?cpy = min (length c) room"
    using unat_chunk [OF assms(2)] sub by (auto simp: min_def word_le_nat_alt)
  have pos: "unat (sw_pos sw + ?cpy) = unat (sw_pos sw) + min (length c) room"
    using unat_plus_le [of "sw_pos sw" ?cpy "sw_cap sw"] cpy assms(1)
    by (simp add: room_def word_le_nat_alt)
  have zero: "?cpy = 0 \<longleftrightarrow> min (length c) room = 0" using cpy by (metis unat_eq_zero)
  have take_eq: "take (min (length c) room) c = take room c"
    by (simp add: min_def)
  show "fst (write_slice_cb c 1 (of_nat (length c)) sw) = of_nat (length c)"
    by (simp add: write_slice_cb_def Let_def)
  show "sw_cap (snd (write_slice_cb c 1 (of_nat (length c)) sw)) = sw_cap sw"
    by (simp add: write_slice_cb_def Let_def)
  show "sw_dst (snd (write_slice_cb c 1 (of_nat (length c)) sw)) =
           splice (sw_dst sw) (unat (sw_pos sw)) (take room c)"
  proof (cases "?cpy = 0")
    case True
    then have "take room c = []" using zero by (auto simp: min_def split: if_splits)
    with True show ?thesis by (simp add: write_slice_cb_def Let_def del: take_eq_Nil)
  next
    case False
    then show ?thesis using cpy take_eq by (simp add: write_slice_cb_def Let_def)
  qed
  show "unat (sw_pos (snd (write_slice_cb c 1 (of_nat (length c)) sw))) =
           unat (sw_pos sw) + min (length c) room"
  proof (cases "?cpy = 0")
    case True
    then show ?thesis using zero by (simp add: write_slice_cb_def Let_def)
  next
    case False
    then show ?thesis using pos by (simp add: write_slice_cb_def Let_def)
  qed
qed

text \<open>The whole body: the first \<open>cap - pos\<close> bytes of it, contiguously, whatever the pieces.\<close>

lemma deliver_eq:
  assumes "sw_pos sw \<le> sw_cap sw" and "unat (sw_cap sw) \<le> length (sw_dst sw)"
    and "\<forall>c \<in> set chunks. length c < 18446744073709551616"
  shows "sw_dst (deliver chunks sw) =
      splice (sw_dst sw) (unat (sw_pos sw)) (take (unat (sw_cap sw) - unat (sw_pos sw)) (concat chunks)) \<and>
    unat (sw_pos (deliver chunks sw)) =
      unat (sw_pos sw) + min (length (concat chunks)) (unat (sw_cap sw) - unat (sw_pos sw))"
  using assms
proof (induction chunks arbitrary: sw)
  case Nil
  then show ?case by (simp add: deliver_def)
next
  case (Cons c chunks)
  let ?room = "unat (sw_cap sw) - unat (sw_pos sw)"
  let ?sw = "snd (write_slice_cb c 1 (of_nat (length c)) sw)"
  have c: "length c < 18446744073709551616" using Cons.prems(3) by simp
  note step = write_slice_cb_step [OF Cons.prems(1) c]
  have le: "unat (sw_pos sw) \<le> unat (sw_cap sw)" using Cons.prems(1) by (simp add: word_le_nat_alt)
  have len: "length (sw_dst ?sw) = length (sw_dst sw)"
    unfolding step(2) using Cons.prems(2) le by (intro length_splice) simp
  have IH: "sw_dst (deliver chunks ?sw) =
        splice (sw_dst ?sw) (unat (sw_pos ?sw)) (take (unat (sw_cap ?sw) - unat (sw_pos ?sw)) (concat chunks)) \<and>
      unat (sw_pos (deliver chunks ?sw)) =
        unat (sw_pos ?sw) + min (length (concat chunks)) (unat (sw_cap ?sw) - unat (sw_pos ?sw))"
    using Cons.prems le step(3,4) len by (intro Cons.IH) (auto simp: word_le_nat_alt)
  have eqs: "deliver (c # chunks) sw = deliver chunks ?sw" by (simp add: deliver_def)
  have lenc: "length (take ?room c) = min (length c) ?room" by (simp add: min.commute)
  have "sw_dst (deliver chunks ?sw) =
      splice (splice (sw_dst sw) (unat (sw_pos sw)) (take ?room c))
        (unat (sw_pos sw) + length (take ?room c)) (take (?room - length c) (concat chunks))"
    using IH step(2-4) lenc by (auto simp: min_def)
  also have "\<dots> = splice (sw_dst sw) (unat (sw_pos sw)) (take ?room c @ take (?room - length c) (concat chunks))"
    using Cons.prems(2) le by (intro splice_splice_adjacent) auto
  finally show ?case
    using IH step(3,4) eqs by (auto simp: min_def)
qed

text \<open>The read callback: the buffer is handed out in order, each piece as large as asked for.\<close>

lemma read_upload_cb_step:
  fixes room :: u64
  assumes "ub_pos up \<le> ub_total up"
  defines "n \<equiv> min (unat (ub_total up) - unat (ub_pos up)) (unat room)"
  shows "fst (read_upload_cb room up) = slice (unat (ub_pos up)) n (ub_data up)"
    and "unat (ub_pos (snd (read_upload_cb room up))) = unat (ub_pos up) + n"
    and "ub_data (snd (read_upload_cb room up)) = ub_data up"
    and "ub_total (snd (read_upload_cb room up)) = ub_total up"
proof -
  let ?cpy = "min (ub_total up - ub_pos up) room"
  have cpy: "unat ?cpy = n"
    using assms(1) by (auto simp: n_def min_def word_le_nat_alt unat_sub)
  have pos: "unat (ub_pos up + ?cpy) = unat (ub_pos up) + n"
    using unat_plus_le [of "ub_pos up" ?cpy "ub_total up"] cpy assms(1)
    by (simp add: n_def word_le_nat_alt)
  have zero: "?cpy = 0 \<longleftrightarrow> n = 0" using cpy by (metis unat_eq_zero)
  show "fst (read_upload_cb room up) = slice (unat (ub_pos up)) n (ub_data up)"
    using cpy zero by (auto simp: read_upload_cb_def Let_def slice_def)
  show "unat (ub_pos (snd (read_upload_cb room up))) = unat (ub_pos up) + n"
    using pos zero by (auto simp: read_upload_cb_def Let_def)
  show "ub_data (snd (read_upload_cb room up)) = ub_data up"
    "ub_total (snd (read_upload_cb room up)) = ub_total up"
    by (simp_all add: read_upload_cb_def Let_def)
qed

lemma pull_eq:
  assumes "ub_pos up \<le> ub_total up" and "unat (ub_total up) \<le> length (ub_data up)"
    and "\<forall>r \<in> set rooms. 0 < unat r"
    and "unat (ub_total up) - unat (ub_pos up) \<le> sum_list (map unat rooms)"
  shows "pull rooms up = slice (unat (ub_pos up)) (unat (ub_total up) - unat (ub_pos up)) (ub_data up)"
  using assms
proof (induction rooms arbitrary: up)
  case Nil
  then show ?case by (simp add: slice_def)
next
  case (Cons r rooms)
  let ?left = "unat (ub_total up) - unat (ub_pos up)"
  let ?n = "min ?left (unat r)"
  obtain d up' where cb: "read_upload_cb r up = (d, up')" by force
  note step = read_upload_cb_step [OF Cons.prems(1), of r, unfolded cb fst_conv snd_conv]
  have le: "unat (ub_pos up) \<le> unat (ub_total up)" using Cons.prems(1) by (simp add: word_le_nat_alt)
  have "d = [] \<longleftrightarrow> ?left = 0"
    using step(1) Cons.prems(2,3) le by (auto simp: slice_def min_def)
  moreover have "pull rooms up' = slice (unat (ub_pos up) + ?n) (?left - ?n) (ub_data up)"
    if "?left \<noteq> 0"
  proof -
    have "pull rooms up' = slice (unat (ub_pos up')) (unat (ub_total up') - unat (ub_pos up')) (ub_data up')"
      using Cons.prems le step by (intro Cons.IH) (auto simp: word_le_nat_alt)
    then show ?thesis using step by simp
  qed
  ultimately show ?case
    using cb step(1) slice_append_adjacent [of "unat (ub_pos up)" ?n "ub_data up" "?left - ?n"]
    by (auto simp: slice_def)
qed

section \<open>The contract of a range source\<close>

text \<open>\<open>up w\<close>: the source answers in world \<open>w\<close>; \<open>content w path\<close>: the object it
  holds; \<open>named path\<close>: a path the source can be asked for.  A range read of an existing object
  delivers the bytes of the range the object has; otherwise nothing is delivered.  Reading
  changes no object.\<close>

locale range_source =
  fixes up :: "'w \<Rightarrow> bool"
    and named :: "string \<Rightarrow> bool"
    and content :: "'w \<Rightarrow> string \<Rightarrow> bytes option"
    and rd :: "string \<Rightarrow> bytes \<Rightarrow> u64 \<Rightarrow> u64 \<Rightarrow> 'w \<Rightarrow> int \<times> bytes \<times> 'w"
  assumes rd_some: "up w \<Longrightarrow> named path \<Longrightarrow> content w path = Some body \<Longrightarrow> unat off < length body \<Longrightarrow>
      0 < unat len \<Longrightarrow> unat len \<le> length buf \<Longrightarrow> unat off + unat len < 9223372036854775808 \<Longrightarrow>
      fst (rd path buf len off w) = int (length (slice (unat off) (unat len) body)) \<and>
      fst (snd (rd path buf len off w)) = splice buf 0 (slice (unat off) (unat len) body)"
    and rd_none: "up w \<Longrightarrow> named path \<Longrightarrow>
      content w path = None \<or> content w path = Some body \<and> length body \<le> unat off \<Longrightarrow>
      0 < unat len \<Longrightarrow> unat len \<le> length buf \<Longrightarrow> unat off + unat len < 9223372036854775808 \<Longrightarrow>
      fst (rd path buf len off w) \<le> 0"
    and rd_world: "up w \<Longrightarrow> named path \<Longrightarrow> 0 < unat len \<Longrightarrow> unat len \<le> length buf \<Longrightarrow>
      unat off + unat len < 9223372036854775808 \<Longrightarrow>
      up (snd (snd (rd path buf len off w))) \<and> content (snd (snd (rd path buf len off w))) = content w"
begin

text \<open>A positive result is the length of the part of the range the object has; what is delivered
  is short only at the end of the object.\<close>

lemma positive_result:
  assumes "up w" and "named path" and "0 < unat len" and "unat len \<le> length buf"
    and "unat off + unat len < 9223372036854775808"
    and "rd path buf len off w = (n, buf', w')" and "0 < n"
  obtains body where "content w path = Some body" and "unat off < length body"
    and "nat n = min (unat len) (length body - unat off)"
    and "buf' = splice buf 0 (slice (unat off) (nat n) body)"
proof -
  obtain body where body: "content w path = Some body" "unat off < length body"
    using rd_none [OF assms(1,2) _ assms(3-5)] assms(6,7)
    by (metis fst_conv linorder_not_le not_None_eq)
  note res = rd_some [OF assms(1,2) body assms(3-5), unfolded assms(6) fst_conv snd_conv]
  have n: "nat n = min (unat len) (length body - unat off)" using res by (simp add: length_slice)
  moreover have "slice (unat off) (nat n) body = slice (unat off) (unat len) body"
    by (simp add: n slice_def min_def)
  ultimately show thesis using that body res by metis
qed

end

section \<open>HTTP as a range source\<close>

text \<open>What is relied on of libcurl and the server: a handle can be made, a single-range GET of an
  object that has the first byte of the range is answered 206 with exactly those bytes of the
  range the object has, in pieces whose lengths fit a \<open>size_t\<close>, a GET of a missing object or
  of a range past its end is an error, and a GET changes no object.\<close>

definition range_answer :: "bytes option \<Rightarrow> nat \<Rightarrow> nat \<Rightarrow> http_response \<Rightarrow> bool" where
  "range_answer obj a b rs \<longleftrightarrow>
     (\<forall>c \<in> set (rs_chunks rs). length c < 18446744073709551616) \<and>
     (case obj of
        None \<Rightarrow> \<not> rs_ok rs
      | Some body \<Rightarrow>
          if a < length body
          then rs_ok rs \<and> rs_code rs = 206 \<and> concat (rs_chunks rs) = slice a (b + 1 - a) body
          else \<not> rs_ok rs)"

definition range_server :: "'w curl \<Rightarrow> string \<Rightarrow> ('w \<Rightarrow> string \<Rightarrow> bytes option) \<Rightarrow> bool" where
  "range_server cu base content \<longleftrightarrow>
     (\<forall>w. fst (cu_init cu w) \<and> content (snd (cu_init cu w)) = content w) \<and>
     (\<forall>w path hdrs a b. a \<le> b \<longrightarrow>
        (let r = cu_perform cu \<lparr>rq_method = GET, rq_url = base @ path,
                   rq_range = Some (to_dec a @ ''-'' @ to_dec b), rq_headers = hdrs,
                   rq_infilesize = None\<rparr> [] w
         in range_answer (content w path) a b (fst r) \<and> content (snd r) = content w))"

lemma range_serverD:
  assumes "range_server cu base content" and "a \<le> b"
  defines "r \<equiv> (\<lambda>path w hdrs. cu_perform cu \<lparr>rq_method = GET, rq_url = base @ path,
      rq_range = Some (to_dec a @ ''-'' @ to_dec b), rq_headers = hdrs, rq_infilesize = None\<rparr> [] w)"
  shows "range_answer (content w path) a b (fst (r path w hdrs))"
    and "content (snd (r path w hdrs)) = content w"
  using assms(1,2) unfolding r_def range_server_def Let_def by blast+

definition no_nul :: "string \<Rightarrow> bool" where
  "no_nul s \<longleftrightarrow> CHR 0x00 \<notin> set s"

lemma range_text_eq:
  assumes "0 < unat len" and "unat off + unat len < 9223372036854775808"
  shows "range_text len off = to_dec (unat off) @ ''-'' @ to_dec (unat off + unat len - 1)"
proof -
  have "unat (off + len) = unat off + unat len"
    using assms(2) by (simp add: unat_word_ariths)
  moreover have "unat (off + len - 1) = unat (off + len) - 1"
    using calculation assms(1) by (intro unat_minus_one) auto
  ultimately show ?thesis
    using assms(2) by (simp add: range_text_def to_string_int_def sint_small)
qed

text \<open>A download, once the response is known.\<close>

lemma download_eq:
  assumes "cu_init cu w = (True, w1)" and "0 < unat len" and "unat off + unat len < 9223372036854775808"
    and "no_nul (base_url b)" and "no_nul path" and "unat len \<le> length buf"
    and "cu_perform cu \<lparr>rq_method = GET, rq_url = base_url b @ path,
           rq_range = Some (to_dec (unat off) @ ''-'' @ to_dec (unat off + unat len - 1)),
           rq_headers = auth_headers b, rq_infilesize = None\<rparr> [] w1 = (rs, w2)"
    and "\<forall>c \<in> set (rs_chunks rs). length c < 18446744073709551616"
  shows "download cu b path buf len off w =
    (if rs_ok rs \<and> ok_2xx (rs_code rs) then int (min (length (concat (rs_chunks rs))) (unat len)) else - 1,
     splice buf 0 (take (unat len) (concat (rs_chunks rs))), w2)"
proof -
  let ?sw = "\<lparr>sw_dst = buf, sw_cap = len, sw_pos = 0\<rparr>"
  have url: "c_str (base_url b @ path) = base_url b @ path"
    using assms(4,5) by (intro c_str_id) (simp add: no_nul_def)
  have len: "len \<noteq> 0" using assms(2) by auto
  have del: "sw_dst (deliver (rs_chunks rs) ?sw) = splice buf 0 (take (unat len) (concat (rs_chunks rs)))"
    "unat (sw_pos (deliver (rs_chunks rs) ?sw)) = min (length (concat (rs_chunks rs))) (unat len)"
    using deliver_eq [of ?sw "rs_chunks rs"] assms(6,8) by simp_all
  then have "sint (sw_pos (deliver (rs_chunks rs) ?sw)) = int (min (length (concat (rs_chunks rs))) (unat len))"
    using assms(3) sint_small [of "sw_pos (deliver (rs_chunks rs) ?sw)"] by simp
  with del(1) show ?thesis
    using assms(1,7) len by (simp add: download_def url range_text_eq [OF assms(2,3)] Let_def)
qed

lemma ok_206 [simp]: "ok_2xx 206"
  by (simp add: ok_2xx_def signed_divide_int_def)

lemma http_range:
  assumes srv: "range_server cu (base_url b) content" and nul: "no_nul (base_url b)" "no_nul path"
    and len: "0 < unat len" "unat len \<le> length buf" "unat off + unat len < 9223372036854775808"
  shows "\<exists>w' rest. backend_read_range cu (Some b) path buf len off w =
      (case content w path of
         None \<Rightarrow> (- 1, rest, w')
       | Some body \<Rightarrow>
           if unat off < length body
           then (int (length (slice (unat off) (unat len) body)),
                 splice buf 0 (slice (unat off) (unat len) body), w')
           else (- 1, rest, w')) \<and>
      content w' = content w"
proof -
  obtain w1 where w1: "cu_init cu w = (True, w1)" "content w1 = content w"
    using srv that [of "snd (cu_init cu w)"] by (simp add: range_server_def prod_eq_iff)
  let ?req = "\<lparr>rq_method = GET, rq_url = base_url b @ path,
           rq_range = Some (to_dec (unat off) @ ''-'' @ to_dec (unat off + unat len - 1)),
           rq_headers = auth_headers b, rq_infilesize = None\<rparr>"
  obtain rs w2 where perf: "cu_perform cu ?req [] w1 = (rs, w2)" by force
  have le: "unat off \<le> unat off + unat len - 1" using len(1) by simp
  have ans: "range_answer (content w path) (unat off) (unat off + unat len - 1) rs"
    "content w2 = content w"
    using range_serverD [OF srv le, where w = w1 and path = path and hdrs = "auth_headers b"]
    unfolding perf w1(2) fst_conv snd_conv by blast+
  have n: "unat off + unat len - 1 + 1 - unat off = unat len" using len(1) by simp
  have "download cu b path buf len off w =
      (if rs_ok rs \<and> ok_2xx (rs_code rs) then int (min (length (concat (rs_chunks rs))) (unat len)) else - 1,
       splice buf 0 (take (unat len) (concat (rs_chunks rs))), w2)"
    using ans(1) by (intro download_eq [OF w1(1) len(1,3) nul len(2) perf]) (simp add: range_answer_def)
  then show ?thesis
    using ans unfolding range_answer_def n backend_read_range_def
    by (intro exI [of _ w2] exI [of _ "splice buf 0 (take (unat len) (concat (rs_chunks rs)))"])
      (cases "content w path"; simp add: length_slice slice_def min.commute split: if_splits)
qed

interpretation http: range_source "\<lambda>w. range_server cu (base_url b) content \<and> no_nul (base_url b)"
  no_nul content "backend_read_range cu (Some b)" for cu b content
proof unfold_locales
  fix w path body
  fix buf :: bytes
  fix off len :: u64
  assume srv: "range_server cu (base_url b) content \<and> no_nul (base_url b)" and path: "no_nul path"
    and len: "0 < unat len" "unat len \<le> length buf" "unat off + unat len < 9223372036854775808"
  note rng = http_range [OF conjunct1 [OF srv] conjunct2 [OF srv] path len, of w]
  show "content w path = Some body \<Longrightarrow> unat off < length body \<Longrightarrow>
      fst (backend_read_range cu (Some b) path buf len off w) = int (length (slice (unat off) (unat len) body)) \<and>
      fst (snd (backend_read_range cu (Some b) path buf len off w)) = splice buf 0 (slice (unat off) (unat len) body)"
    using rng by auto
  show "content w path = None \<or> content w path = Some body \<and> length body \<le> unat off \<Longrightarrow>
      fst (backend_read_range cu (Some b) path buf len off w) \<le> 0"
    using rng by auto
  show "(range_server cu (base_url b) content \<and> no_nul (base_url b)) \<and>
      content (snd (snd (backend_read_range cu (Some b) path buf len off w))) = content w"
    using rng srv by (auto split: option.splits if_splits)
qed

section \<open>A server that behaves as assumed\<close>

text \<open>Objects in an association list, for the witnesses.\<close>

type_synonym mem_world = "(string \<times> bytes) list"

definition mem_get :: "bytes option \<Rightarrow> string \<Rightarrow> http_response" where
  "mem_get obj r =
     (let a = of_dec (takeWhile (\<lambda>c. c \<noteq> CHR ''-'') r);
          b = of_dec (tl (dropWhile (\<lambda>c. c \<noteq> CHR ''-'') r))
      in case obj of
           None \<Rightarrow> \<lparr>rs_ok = False, rs_code = 404, rs_chunks = []\<rparr>
         | Some body \<Rightarrow>
             (if a < length body
              then \<lparr>rs_ok = True, rs_code = 206, rs_chunks = map (\<lambda>x. [x]) (slice a (b + 1 - a) body)\<rparr>
              else \<lparr>rs_ok = False, rs_code = 416, rs_chunks = []\<rparr>))"

definition mem_curl :: "string \<Rightarrow> mem_world curl" where
  "mem_curl base =
     \<lparr>cu_init = (\<lambda>w. (True, w)),
      cu_pulls = (\<lambda>_ _. [2, 65536]),
      cu_perform = (\<lambda>req body w.
        let path = drop (length base) (rq_url req) in
        case rq_method req of
          GET \<Rightarrow> (case rq_range req of
                     Some r \<Rightarrow> (mem_get (map_of w path) r, w)
                   | None \<Rightarrow> (\<lparr>rs_ok = True, rs_code = 200, rs_chunks = []\<rparr>, w))
        | PUT \<Rightarrow> (\<lparr>rs_ok = True, rs_code = 201, rs_chunks = []\<rparr>, AList.update path body w)
        | DELETE \<Rightarrow> (\<lparr>rs_ok = True, rs_code = 204, rs_chunks = []\<rparr>, AList.delete path w))\<rparr>"

lemma split_range_text:
  "takeWhile (\<lambda>c. c \<noteq> CHR ''-'') (to_dec a @ ''-'' @ to_dec b) = to_dec a"
  "dropWhile (\<lambda>c. c \<noteq> CHR ''-'') (to_dec a @ ''-'' @ to_dec b) = CHR ''-'' # to_dec b"
proof -
  have "\<forall>c \<in> set (to_dec a). c \<noteq> CHR ''-''" using to_dec_no_sep [of "CHR ''-''" a] by auto
  then show "takeWhile (\<lambda>c. c \<noteq> CHR ''-'') (to_dec a @ ''-'' @ to_dec b) = to_dec a"
    "dropWhile (\<lambda>c. c \<noteq> CHR ''-'') (to_dec a @ ''-'' @ to_dec b) = CHR ''-'' # to_dec b"
    by (simp_all add: takeWhile_append2 dropWhile_append2)
qed

lemma mem_curl_server: "range_server (mem_curl base) base map_of"
proof -
  have "concat (map (\<lambda>x. [x]) xs) = xs" for xs :: bytes by (induction xs) auto
  then show ?thesis
    unfolding range_server_def mem_curl_def range_answer_def mem_get_def Let_def
    by (simp add: of_dec_to_dec split_range_text [simplified] split: option.splits)
qed

section \<open>Properties of the HTTP backend\<close>

text \<open>C20: With a server that answers range requests, \<open>backend_read_range\<close> returns exactly the
  bytes of the requested range that the object has: the count, the bytes at the start of the
  buffer, the rest of the buffer untouched.  For a missing object or a range past its end the
  result is not positive.  No object changes.\<close>

theorem backend_read_range_exact:
  assumes "range_server cu (base_url b) content" and "no_nul (base_url b)" and "no_nul path"
    and "0 < unat len" and "unat len \<le> length buf" and "unat off + unat len < 9223372036854775808"
    and "backend_read_range cu (Some b) path buf len off w = (n, buf', w')"
  shows "content w' = content w \<and>
    (case content w path of
       None \<Rightarrow> n \<le> 0
     | Some body \<Rightarrow>
         if unat off < length body
         then n = int (min (unat len) (length body - unat off)) \<and>
              take (nat n) buf' = slice (unat off) (unat len) body \<and> drop (nat n) buf' = drop (nat n) buf
         else n \<le> 0)"
proof -
  have up: "range_server cu (base_url b) content \<and> no_nul (base_url b)" using assms(1,2) by simp
  note res = http.rd_world [OF up assms(3-6), of w] http.rd_none [OF up assms(3) _ assms(4-6), of w]
    http.rd_some [OF up assms(3) _ _ assms(4-6), of w]
  have cut: "take (min (length x - k) n) (drop k x) = take n (drop k x)" for x :: bytes and k n
    by (simp add: min_def)
  show ?thesis
    using res unfolding assms(7)
    by (auto simp: length_slice splice_def slice_def cut split: option.splits)
qed

theorem backend_read_range_exact_witness:
  "\<exists>n buf' w'. backend_read_range (mem_curl ''http://h'') (Some \<lparr>base_url = ''http://h'', bearer_token = []\<rparr>)
       ''/a'' [0, 0, 0, 0] 3 1 [(''/a'', [10, 20, 30])] = (n, buf', w') \<and> n = 2 \<and> take 2 buf' = [20, 30]"
proof -
  obtain n buf' w' where r: "backend_read_range (mem_curl ''http://h'')
      (Some \<lparr>base_url = ''http://h'', bearer_token = []\<rparr>) ''/a'' [0, 0, 0, 0] 3 1 [(''/a'', [10, 20, 30])] =
      (n, buf', w')"
    by (metis prod_cases3)
  have "n = 2 \<and> take 2 buf' = [20, 30]"
    using backend_read_range_exact [OF _ _ _ _ _ _ r, of map_of] mem_curl_server
    by (auto simp: no_nul_def slice_def)
  with r show ?thesis by blast
qed

text \<open>C19: Whatever the server answers and in whatever pieces, a download never writes past the
  \<open>size\<close> bytes of its buffer, never reports more than \<open>size\<close> bytes, and reports -1 on
  any transfer error or status outside 2xx.\<close>

theorem download_stays_in_buffer:
  assumes "\<forall>req body w. \<forall>c \<in> set (rs_chunks (fst (cu_perform cu req body w))). length c < 18446744073709551616"
    and "unat len \<le> length buf" and "unat len < 9223372036854775808"
    and "download cu b path buf len off w = (n, buf', w')"
  shows "length buf' = length buf \<and> drop (unat len) buf' = drop (unat len) buf \<and>
    - 1 \<le> n \<and> n \<le> int (unat len)"
proof (cases "cu_init cu w")
  case (Pair ok w1)
  show ?thesis
  proof (cases ok)
    case False
    then show ?thesis using assms(4) Pair by (auto simp: download_def intro: order_trans [of _ 0])
  next
    case True
    define req where "req = \<lparr>rq_method = GET, rq_url = c_str (base_url b @ path),
        rq_range = (if len \<noteq> 0 then Some (range_text len off) else None),
        rq_headers = auth_headers b, rq_infilesize = None\<rparr>"
    obtain rs w2 where perf: "cu_perform cu req [] w1 = (rs, w2)" by force
    let ?sw = "\<lparr>sw_dst = buf, sw_cap = len, sw_pos = 0\<rparr>"
    have "\<forall>c \<in> set (rs_chunks rs). length c < 18446744073709551616"
      using assms(1) perf by (metis fst_conv)
    then have del: "sw_dst (deliver (rs_chunks rs) ?sw) = splice buf 0 (take (unat len) (concat (rs_chunks rs)))"
      "unat (sw_pos (deliver (rs_chunks rs) ?sw)) = min (length (concat (rs_chunks rs))) (unat len)"
      using deliver_eq [of ?sw "rs_chunks rs"] assms(2) by simp_all
    have pos: "sint (sw_pos (deliver (rs_chunks rs) ?sw)) = int (min (length (concat (rs_chunks rs))) (unat len))"
      using del(2) assms(3) sint_small [of "sw_pos (deliver (rs_chunks rs) ?sw)"] by simp
    have "buf' = sw_dst (deliver (rs_chunks rs) ?sw)"
      "n = - 1 \<or> n = sint (sw_pos (deliver (rs_chunks rs) ?sw))"
      using assms(4) Pair True perf
      by (auto simp: download_def Let_def simp flip: req_def split: if_splits)
    moreover from this(2) have "- 1 \<le> n \<and> n \<le> int (unat len)" using pos by linarith
    ultimately show ?thesis using del(1) assms(2) by (simp add: splice_def)
  qed
qed

theorem download_stays_in_buffer_witness:
  "\<exists>n buf' w'. download (mem_curl []) \<lparr>base_url = [], bearer_token = []\<rparr> ''a'' [9, 9, 9, 9] 2 0 [(''a'', [1, 2, 3])] =
     (n, buf', w') \<and> drop 2 buf' = [9, 9] \<and> n \<le> 2"
proof -
  obtain n buf' w' where r: "download (mem_curl []) \<lparr>base_url = [], bearer_token = []\<rparr> ''a'' [9, 9, 9, 9] 2 0
      [(''a'', [1, 2, 3])] = (n, buf', w')"
    by (metis prod_cases3)
  have "drop 2 buf' = [9, 9] \<and> n \<le> 2"
    using download_stays_in_buffer [OF _ _ _ r]
    by (auto simp: mem_curl_def mem_get_def Let_def split: http_method.splits option.splits if_splits)
  with r show ?thesis by blast
qed

text \<open>C21: An upload hands libcurl exactly the first \<open>size\<close> bytes of the buffer, in whatever
  pieces it asks for them, to the URL of the object with the Content-Range of the bytes, and
  reports \<open>size\<close> exactly when the transfer succeeded with a 2xx status.\<close>

theorem upload_sends_buffer:
  assumes "0 < unat len" and "unat len \<le> length buf" and "unat off + unat len < 9223372036854775808"
    and "no_nul (base_url b)" and "no_nul path" and "cu_init cu w = (True, w1)"
    and "req = \<lparr>rq_method = PUT, rq_url = base_url b @ path, rq_range = None,
      rq_headers = (''Content-Range: bytes '' @ to_dec (unat off) @ ''-'' @ to_dec (unat off + unat len - 1) @ ''/*'')
        # auth_headers b, rq_infilesize = Some len\<rparr>"
    and "\<forall>r \<in> set (cu_pulls cu req w1). 0 < unat r" and "unat len \<le> sum_list (map unat (cu_pulls cu req w1))"
  shows "upload cu b path buf len off w =
    (case cu_perform cu req (take (unat len) buf) w1 of
       (rs, w2) \<Rightarrow> (if rs_ok rs \<and> ok_2xx (rs_code rs) then int (unat len) else - 1, w2))"
proof -
  have url: "c_str (base_url b @ path) = base_url b @ path"
    using assms(4,5) by (intro c_str_id) (simp add: no_nul_def)
  have req: "\<lparr>rq_method = PUT, rq_url = c_str (base_url b @ path), rq_range = None,
      rq_headers = (''Content-Range: '' @ ''bytes '' @ range_text len off @ ''/*'') # auth_headers b,
      rq_infilesize = Some len\<rparr> = req"
    by (simp add: assms(7) url range_text_eq [OF assms(1,3)])
  have pulled: "pull (cu_pulls cu req w1) \<lparr>ub_data = buf, ub_total = len, ub_pos = 0\<rparr> = take (unat len) buf"
    using pull_eq [of "\<lparr>ub_data = buf, ub_total = len, ub_pos = 0\<rparr>" "cu_pulls cu req w1"] assms(2,8,9)
    by (simp add: slice_def)
  have "sint len = int (unat len)" using assms(3) by (intro sint_small) simp
  then show ?thesis by (simp only: upload_def assms(6) prod.case bool.case Let_def req pulled)
qed

theorem upload_sends_buffer_witness:
  "upload (mem_curl ''http://h'') \<lparr>base_url = ''http://h'', bearer_token = []\<rparr> ''/a'' [1, 2, 3, 4] 3 0 [] =
   (3, [(''/a'', [1, 2, 3])])"
  using upload_sends_buffer [of 3 "[1, 2, 3, 4]" 0 "\<lparr>base_url = ''http://h'', bearer_token = []\<rparr>"
      "''/a''" "mem_curl ''http://h''" "[]" "[]"]
  by (simp add: mem_curl_def no_nul_def ok_2xx_def signed_divide_int_def)

text \<open>Before a backend is created, every backend call fails with \<open>-ENODEV\<close>, writes
  nothing to the buffer and makes no request; \<open>create_backend\<close> always succeeds and installs a
  backend for the given URL without a bearer token, replacing the previous one, and the calls
  then go to it.\<close>

lemma backend_requires_create:
  "backend_read_range cu None path buf len off w = (- ENODEV, buf, w) \<and>
   backend_put_range cu None path buf len off w = (- ENODEV, w) \<and>
   backend_delete cu None path w = (- ENODEV, w) \<and>
   (\<exists>b. create_backend url g = (Some b, Some b) \<and> base_url b = url \<and> auth_headers b = [] \<and>
      backend_read_range cu (Some b) path buf len off w = download cu b path buf len off w \<and>
      backend_put_range cu (Some b) path buf len off w = upload cu b path buf len off w \<and>
      backend_delete cu (Some b) path w = hb_remove cu b path w)"
  by (simp add: backend_read_range_def backend_put_range_def backend_delete_def create_backend_def
      hb_init_def auth_headers_def)

end
