(* ===== verification/Cache_Manager.thy ===== *)
theory Cache_Manager
  imports Block_Store Metadata_Store Lru_Policy Thread_Pool Http_Backend
begin

text \<open>
  \<^verbatim>\<open>cache/cache_manager.cc\<close>: the class that ties the components together, and the C
  interface around its single instance.  The state of the object is the record \<open>cstate\<close>, the
  outside world (file system and network) the record \<open>world\<close>; a method maps both.  What the
  code takes from elsewhere is the record \<open>env\<close>: \<open>std::hash\<close>, SQLite, libcurl, the
  process-wide backend, the address a new map node gets, the address of the entry captured by a
  prefetch closure, and the indeterminate bytes of an uninitialised block buffer.  A method's
  result is \<open>Inl\<close> an exception or \<open>Inr\<close> its return value.  Methods that hold
  \<open>mu_\<close> for their whole body are single steps; prefetch jobs, which run in the pool, are steps
  of their own.
\<close>

section \<open>Data\<close>

definition kBlockSize :: u64 where
  "kBlockSize = 64 * 1024"

definition kCacheBlocksCapacity :: u64 where
  "kCacheBlocksCapacity = 200000"

definition PREFETCH_WINDOW :: nat where
  "PREFETCH_WINDOW = 4"

record CacheEntry =
  ce_path :: string
  ce_hash_hex :: string
  ce_last_block :: u64
  ce_evicted :: bool

text \<open>A prefetch job: the captured copy of the entry and the first block.\<close>

type_synonym job = "CacheEntry \<times> u64"

text \<open>\<open>entries_\<close> with the address of each node.\<close>

type_synonym entry_map = "(string \<times> u64 \<times> CacheEntry) list"

record 'db cstate =
  cs_store :: bstore
  cs_meta :: "'db mstore"
  cs_lru :: lru
  cs_pool :: "job pool"
  cs_entries :: entry_map
  cs_root :: string

record 'w world =
  w_fs :: fsys
  w_net :: 'w

record ('db, 'w) env =
  ev_hash :: "string \<Rightarrow> u64"
  ev_sq :: "'db sqlite"
  ev_cu :: "'w curl"
  ev_backend :: g_backend
  ev_alloc :: "entry_map \<Rightarrow> u64"
  ev_capture :: "job \<Rightarrow> u64"
  ev_stack :: "u64 \<Rightarrow> bytes"

definition CacheManager :: "('db, 'w) env \<Rightarrow> string \<Rightarrow> 'w world \<Rightarrow> 'db cstate \<times> 'w world" where
  "CacheManager ev rt w =
     (let store = BlockStore rt kBlockSize;
          fs1 = snd (bs_init store (w_fs w));
          meta = snd (ms_init (ev_sq ev) (MetadataStore ''cache_meta.db'' rt))
      in (\<lparr>cs_store = store, cs_meta = meta, cs_lru = LruPolicy kCacheBlocksCapacity,
           cs_pool = ThreadPool 4, cs_entries = [], cs_root = rt\<rparr>, w\<lparr>w_fs := fs1\<rparr>))"

section \<open>Entries\<close>

definition has_valid_entry :: "'db cstate \<Rightarrow> string \<Rightarrow> bool" where
  "has_valid_entry st path =
     (case map_of (cs_entries st) path of None \<Rightarrow> False | Some (_, ce) \<Rightarrow> \<not> ce_evicted ce)"

text \<open>The address of the entry, or \<open>None\<close> for the null pointer.\<close>

definition get_entry :: "'db cstate \<Rightarrow> string \<Rightarrow> u64 option" where
  "get_entry st path =
     (case map_of (cs_entries st) path of
        None \<Rightarrow> None
      | Some (a, ce) \<Rightarrow> if \<not> ce_evicted ce then Some a else None)"

definition put_entry :: "string \<Rightarrow> u64 \<Rightarrow> CacheEntry \<Rightarrow> 'db cstate \<Rightarrow> 'db cstate" where
  "put_entry path a ce st = st\<lparr>cs_entries := AList.update path (a, ce) (cs_entries st)\<rparr>"

definition entry :: "('db, 'w) env \<Rightarrow> string \<Rightarrow> 'db cstate \<Rightarrow> (u64 \<times> CacheEntry) \<times> 'db cstate" where
  "entry ev path st =
     (case map_of (cs_entries st) path of
        Some (a, ce) \<Rightarrow> ((a, ce), st)
      | None \<Rightarrow>
          (let ce = \<lparr>ce_path = path, ce_hash_hex = hash_hex (ev_hash ev) path,
                     ce_last_block = SIZE_MAX, ce_evicted = False\<rparr>;
               a = ev_alloc ev (cs_entries st)
           in ((a, ce), put_entry path a ce st)))"

text \<open>\<open>reinterpret_cast<std::uintptr_t>(&ce) << 32 | blk\<close>.\<close>

definition lru_key :: "u64 \<Rightarrow> u64 \<Rightarrow> u64" where
  "lru_key a blk = push_bit 32 a OR blk"

definition touch_block :: "u64 \<Rightarrow> u64 \<Rightarrow> double \<Rightarrow> 'db cstate \<Rightarrow> 'db cstate" where
  "touch_block a blk hotness st =
     st\<lparr>cs_lru := lru_touch (lru_key a blk) kBlockSize hotness (cs_lru st)\<rparr>"

definition schedule_prefetch :: "CacheEntry \<Rightarrow> u64 \<Rightarrow> 'db cstate \<Rightarrow> 'db cstate" where
  "schedule_prefetch ce first_blk st = st\<lparr>cs_pool := pool_enqueue (ce, first_blk) (cs_pool st)\<rparr>"

section \<open>Block arithmetic shared by \<open>read\<close> and \<open>write\<close>\<close>

definition blk_of :: "u64 \<Rightarrow> u64 \<Rightarrow> u64" where
  "blk_of off dn = (off + dn) div kBlockSize"

definition blk_off_of :: "u64 \<Rightarrow> u64 \<Rightarrow> u64" where
  "blk_off_of off dn = blk_of off dn * kBlockSize"

definition in_of :: "u64 \<Rightarrow> u64 \<Rightarrow> u64" where
  "in_of off dn = (off + dn) - blk_off_of off dn"

definition want_of :: "u64 \<Rightarrow> u64 \<Rightarrow> u64 \<Rightarrow> u64" where
  "want_of len off dn = min (kBlockSize - in_of off dn) (len - dn)"

text \<open>The file below the cache root that mirrors an object.\<close>

definition mirror_path :: "string \<Rightarrow> string \<Rightarrow> string" where
  "mirror_path rt path =
     path_join rt (if path \<noteq> [] \<and> hd path = CHR ''/'' then tl path else path)"

section \<open>Reading\<close>

text \<open>The fallback to the mirror: the new value of \<open>got\<close> and the block buffer.\<close>

definition mirror_read :: "'db cstate \<Rightarrow> string \<Rightarrow> u64 \<Rightarrow> int \<Rightarrow> bytes \<Rightarrow> fsys \<Rightarrow> int \<times> bytes" where
  "mirror_read st path blk_off got block fs =
     (case sys_open (mirror_path (cs_root st) path) [O_RDONLY] fs of
        (Inl _, _) \<Rightarrow> (got, block)
      | (Inr fd, fs') \<Rightarrow>
          (case sys_pread fd (unat kBlockSize) (sint blk_off) fs' of
             Inl _ \<Rightarrow> (- 1, block)
           | Inr d \<Rightarrow> (int (length d), splice block 0 d)))"

text \<open>The branch for a block that is not cached: \<open>None\<close> when nothing could be fetched.\<close>

definition fetch_block ::
    "('db, 'w) env \<Rightarrow> 'db cstate \<Rightarrow> string \<Rightarrow> string \<Rightarrow> u64 \<Rightarrow> bytes \<Rightarrow> 'w world
      \<Rightarrow> (exn + bytes option) \<times> 'w world" where
  "fetch_block ev st path h blk_off block w =
     (case backend_read_range (ev_cu ev) (ev_backend ev) path block kBlockSize blk_off (w_net w) of
        (got0, block0, net) \<Rightarrow>
          (case (if got0 \<le> 0 then mirror_read st path blk_off got0 block0 (w_fs w)
                 else (got0, block0)) of
             (got, block1) \<Rightarrow>
               (if got \<le> 0 then (Inr None, w\<lparr>w_net := net\<rparr>)
                else case bs_write (cs_store st) h (take (nat got) block1) blk_off False (w_fs w) of
                  (Inl e, fs') \<Rightarrow> (Inl e, w\<lparr>w_net := net, w_fs := fs'\<rparr>)
                | (Inr _, fs') \<Rightarrow> (Inr (Some block1), w\<lparr>w_net := net, w_fs := fs'\<rparr>))))"

text \<open>What one turn of the loop does: an exception, an early return, or the caller's buffer and
  the entry with which the next turn starts.\<close>

datatype 'a turn = Throw exn | Return int | Next 'a

text \<open>The contents of the block buffer after the cached copy or the fetch.\<close>

definition load_block ::
    "('db, 'w) env \<Rightarrow> 'db cstate \<Rightarrow> string \<Rightarrow> string \<Rightarrow> u64 \<Rightarrow> bytes \<Rightarrow> 'w world
      \<Rightarrow> (exn + bytes option) \<times> 'w world" where
  "load_block ev st path h blk_off block w =
     (case bs_read (cs_store st) h block kBlockSize blk_off (w_fs w) of
        Inl e \<Rightarrow> (Inl e, w)
      | Inr (n, block') \<Rightarrow>
          (if n = sint kBlockSize then (Inr (Some block'), w)
           else fetch_block ev st path h blk_off block' w))"

text \<open>\<open>off + done\<close> adds two signed values; its overflow is undefined.\<close>

definition read_turn ::
    "('db, 'w) env \<Rightarrow> string \<Rightarrow> u64 \<Rightarrow> u64 \<Rightarrow> u64 \<Rightarrow> u64 \<Rightarrow> CacheEntry \<Rightarrow> bytes \<Rightarrow> 'db cstate
      \<Rightarrow> 'w world \<Rightarrow> (CacheEntry \<times> bytes) turn \<times> 'db cstate \<times> 'w world" where
  "read_turn ev path a len off dn ce buf st w =
     (let blk = blk_of off dn;
          blk_off = blk_off_of off dn;
          in_blk = in_of off dn;
          want = want_of len off dn
      in if sint off + sint dn \<ge> 9223372036854775808 then (Throw Undefined_behaviour, st, w)
         else case load_block ev st path (ce_hash_hex ce) blk_off (ev_stack ev blk) w of
             (Inl e, w') \<Rightarrow> (Throw e, st, w')
           | (Inr None, w') \<Rightarrow> (Return (if dn \<noteq> 0 then sint dn else - 1), st, w')
           | (Inr (Some block), w') \<Rightarrow>
               (let buf' = splice buf (unat dn) (slice (unat in_blk) (unat want) block);
                    st1 = touch_block a blk (Fin 1) st;
                    seq = (ce_last_block ce \<noteq> SIZE_MAX \<and> blk = ce_last_block ce + 1);
                    ce' = ce\<lparr>ce_last_block := blk\<rparr>;
                    st2 = put_entry path a ce' st1;
                    st3 = (if seq then schedule_prefetch ce' (blk + 1) st2 else st2)
                in (Next (ce', buf'), st3, w')))"

subsection \<open>The loop makes progress\<close>

lemma unat_kBlockSize [simp]: "unat kBlockSize = 65536"
  by (simp add: kBlockSize_def)

lemma unat_blk_of [part_simps]: "unat (blk_of off dn) = unat (off + dn) div 65536"
  by (simp add: blk_of_def unat_div)

lemma unat_blk_off_of [part_simps]: "unat (blk_off_of off dn) = unat (off + dn) div 65536 * 65536"
proof -
  have "unat (off + dn) div 65536 * 65536 < 18446744073709551616"
    by (rule order_le_less_trans [OF div_times_less_eq_dividend unat_u64_less])
  then show ?thesis by (simp add: blk_off_of_def unat_word_ariths unat_blk_of)
qed

lemma unat_in_of [part_simps]: "unat (in_of off dn) = unat (off + dn) mod 65536"
proof -
  have "unat (blk_off_of off dn) \<le> unat (off + dn)" by (simp add: unat_blk_off_of)
  then show ?thesis
    by (simp add: in_of_def unat_sub word_le_nat_alt unat_blk_off_of minus_div_mult_eq_mod)
qed

lemma unat_want_of [part_simps]:
  "unat (want_of len off dn) = min (65536 - unat (off + dn) mod 65536) (unat (len - dn))"
proof -
  have le: "unat (in_of off dn) \<le> 65536" by (simp add: unat_in_of)
  then have "unat (kBlockSize - in_of off dn) = 65536 - unat (off + dn) mod 65536"
    by (simp add: unat_sub word_le_nat_alt unat_in_of)
  then show ?thesis by (simp add: want_of_def min_def word_le_nat_alt)
qed

lemma want_pos: "dn \<noteq> len \<Longrightarrow> 0 < unat (want_of len off dn)"
  by (simp add: unat_want_of unat_gt_0)

text \<open>The signed reading of \<open>done + want\<close>, and the same for the unsigned loop of
  \<open>write\<close>.\<close>

lemma sint_want:
  assumes "sint dn < sint len"
  shows "sint (dn + want_of len off dn) = sint dn + int (unat (want_of len off dn))"
    and "sint dn + int (unat (want_of len off dn)) \<le> sint len"
proof -
  have "unat (want_of len off dn) \<le> unat (len - dn)" by (simp add: unat_want_of)
  then show le: "sint dn + int (unat (want_of len off dn)) \<le> sint len"
    using unat_diff_signed [OF assms] by linarith
  then show "sint (dn + want_of len off dn) = sint dn + int (unat (want_of len off dn))"
    using sint_bounds [of len] by (intro sint_add_signed) linarith
qed

lemma unat_want:
  assumes "dn < len"
  shows "unat (dn + want_of len off dn) = unat dn + unat (want_of len off dn)"
    and "unat dn + unat (want_of len off dn) \<le> unat len"
proof -
  have "unat (want_of len off dn) \<le> unat (len - dn)" by (simp add: unat_want_of)
  then show le: "unat dn + unat (want_of len off dn) \<le> unat len"
    using assms by (simp add: unat_sub word_less_nat_alt word_le_nat_alt)
  then show "unat (dn + want_of len off dn) = unat dn + unat (want_of len off dn)"
    by (rule unat_plus_le)
qed

lemma want_less_signed:
  assumes "sint dn < sint len"
  shows "sint dn < sint (dn + want_of len off dn)"
proof -
  have "0 < unat (want_of len off dn)" using assms by (intro want_pos) auto
  then show ?thesis unfolding sint_want(1) [OF assms] by linarith
qed

lemma want_less_unsigned:
  assumes "dn < len"
  shows "unat len - unat (dn + want_of len off dn) < unat len - unat dn"
proof -
  have "0 < unat (want_of len off dn)" using assms by (intro want_pos) auto
  then show ?thesis unfolding unat_want(1) [OF assms] using unat_want(2) [OF assms, of off] by linarith
qed

subsection \<open>The loop and the method\<close>

function read_loop ::
    "('db, 'w) env \<Rightarrow> string \<Rightarrow> u64 \<Rightarrow> u64 \<Rightarrow> u64 \<Rightarrow> u64 \<Rightarrow> CacheEntry \<Rightarrow> bytes \<Rightarrow> 'db cstate
      \<Rightarrow> 'w world \<Rightarrow> (exn + int) \<times> bytes \<times> 'db cstate \<times> 'w world" where
  "read_loop ev path a len off dn ce buf st w =
     (if sint dn < sint len then
        (case read_turn ev path a len off dn ce buf st w of
           (Throw e, st', w') \<Rightarrow> (Inl e, buf, st', w')
         | (Return r, st', w') \<Rightarrow> (Inr r, buf, st', w')
         | (Next (ce', buf'), st', w') \<Rightarrow>
             read_loop ev path a len off (dn + want_of len off dn) ce' buf' st' w')
      else (Inr (sint dn), buf, st, w))"
  by pat_completeness auto
termination
  by (relation "measure (\<lambda>(ev, path, a, len, off, dn, ce, buf, st, w). nat (sint len - sint dn))")
    (simp_all add: want_less_signed)

declare read_loop.simps [simp del]

text \<open>The result, the caller's buffer, the object and the world.\<close>

definition cm_read ::
    "('db, 'w) env \<Rightarrow> string \<Rightarrow> bytes \<Rightarrow> u64 \<Rightarrow> u64 \<Rightarrow> 'db cstate \<Rightarrow> 'w world
      \<Rightarrow> (exn + int) \<times> bytes \<times> 'db cstate \<times> 'w world" where
  "cm_read ev path buf len off st w =
     (case entry ev path st of
        ((a, ce), st1) \<Rightarrow>
          if ce_evicted ce then (Inr (- ENOENT), buf, st1, w)
          else read_loop ev path a len off 0 ce buf st1 w)"

section \<open>Writing\<close>

text \<open>The lambda \<open>ensure_dst\<close>: \<open>None\<close> is \<open>dst_fd == -1\<close>.\<close>

definition ensure_dst :: "'db cstate \<Rightarrow> string \<Rightarrow> key option \<Rightarrow> fsys \<Rightarrow> (exn + key option) \<times> fsys" where
  "ensure_dst st path dst_fd fs =
     (case dst_fd of
        Some k \<Rightarrow> (Inr (Some k), fs)
      | None \<Rightarrow>
          (let dst = mirror_path (cs_root st) path in
           case create_directories (parent_path dst) fs of
             (Some e, fs1) \<Rightarrow> (Inl (Filesystem_error e), fs1)
           | (None, fs1) \<Rightarrow>
               (case sys_open dst [O_RDWR, O_CREAT] fs1 of
                  (Inl _, fs2) \<Rightarrow> (Inr None, fs2)
                | (Inr k, fs2) \<Rightarrow> (Inr (Some k), fs2))))"

text \<open>The copy to the mirror; its result is not looked at, and a descriptor -1 only yields
  \<open>EBADF\<close>.\<close>

definition mirror_write :: "key option \<Rightarrow> bytes \<Rightarrow> u64 \<Rightarrow> fsys \<Rightarrow> fsys" where
  "mirror_write dst_fd d off fs =
     (case dst_fd of None \<Rightarrow> fs | Some k \<Rightarrow> snd (sys_pwrite k d (sint off) fs))"

text \<open>The read-modify-write of one block in the store.\<close>

definition write_block ::
    "bstore \<Rightarrow> string \<Rightarrow> bytes \<Rightarrow> u64 \<Rightarrow> u64 \<Rightarrow> fsys \<Rightarrow> (exn + unit) \<times> fsys" where
  "write_block store h d in_blk boff fs =
     (case bs_read store h (replicate 65536 0) kBlockSize boff fs of
        Inl e \<Rightarrow> (Inl e, fs)
      | Inr (_, block) \<Rightarrow>
          (case bs_write store h (splice block (unat in_blk) d) boff True fs of
             (Inl e, fs') \<Rightarrow> (Inl e, fs')
           | (Inr _, fs') \<Rightarrow> (Inr (), fs')))"

definition write_turn ::
    "string \<Rightarrow> u64 \<Rightarrow> CacheEntry \<Rightarrow> bytes \<Rightarrow> u64 \<Rightarrow> u64 \<Rightarrow> u64 \<Rightarrow> key option \<Rightarrow> 'db cstate
      \<Rightarrow> 'w world \<Rightarrow> (exn + key option) \<times> 'db cstate \<times> 'w world" where
  "write_turn path a ce buf len off dn dst_fd st w =
     (let blk = blk_of off dn;
          boff = blk_off_of off dn;
          d = slice (unat dn) (unat (want_of len off dn)) buf
      in case write_block (cs_store st) (ce_hash_hex ce) d (in_of off dn) boff (w_fs w) of
           (Inl e, fs1) \<Rightarrow> (Inl e, st, w\<lparr>w_fs := fs1\<rparr>)
         | (Inr _, fs1) \<Rightarrow>
             (case markDirtyBlock (ce_hash_hex ce) (boff div kMaxPartSize) blk (cs_meta st) of
                Inl e \<Rightarrow> (Inl e, st, w\<lparr>w_fs := fs1\<rparr>)
              | Inr m \<Rightarrow>
                  (let st' = touch_block a blk (Fin 1) (st\<lparr>cs_meta := m\<rparr>) in
                   case ensure_dst st' path dst_fd fs1 of
                     (Inl e, fs2) \<Rightarrow> (Inl e, st', w\<lparr>w_fs := fs2\<rparr>)
                   | (Inr fd, fs2) \<Rightarrow>
                       (Inr fd, st', w\<lparr>w_fs := mirror_write fd d (off + dn) fs2\<rparr>))))"

function write_loop ::
    "string \<Rightarrow> u64 \<Rightarrow> CacheEntry \<Rightarrow> bytes \<Rightarrow> u64 \<Rightarrow> u64 \<Rightarrow> u64 \<Rightarrow> key option \<Rightarrow> 'db cstate
      \<Rightarrow> 'w world \<Rightarrow> (exn + int) \<times> 'db cstate \<times> 'w world" where
  "write_loop path a ce buf len off dn dst_fd st w =
     (if dn < len then
        (case write_turn path a ce buf len off dn dst_fd st w of
           (Inl e, st', w') \<Rightarrow> (Inl e, st', w')
         | (Inr fd, st', w') \<Rightarrow>
             write_loop path a ce buf len off (dn + want_of len off dn) fd st' w')
      else (Inr (sint dn), st, w))"
  by pat_completeness auto
termination
  by (relation "measure (\<lambda>(path, a, ce, buf, len, off, dn, fd, st, w). unat len - unat dn)")
    (simp_all add: want_less_unsigned)

declare write_loop.simps [simp del]

definition cm_write ::
    "('db, 'w) env \<Rightarrow> string \<Rightarrow> bytes \<Rightarrow> u64 \<Rightarrow> u64 \<Rightarrow> 'db cstate \<Rightarrow> 'w world
      \<Rightarrow> (exn + int) \<times> 'db cstate \<times> 'w world" where
  "cm_write ev path buf len off st w =
     (case entry ev path st of
        ((a, ce), st1) \<Rightarrow>
          if ce_evicted ce then (Inr (- ENOENT), st1, w)
          else write_loop path a ce buf len off 0 None st1 w)"

section \<open>Flushing, eviction and prefetching\<close>

fun flush_entries ::
    "'db mstore \<Rightarrow> (string \<times> u64 \<times> CacheEntry) list \<Rightarrow> fsys \<Rightarrow> (exn + unit) \<times> fsys" where
  "flush_entries m [] fs = (Inr (), fs)"
| "flush_entries m ((_, _, ce) # rest) fs =
     (case flushBitmaps m (ce_hash_hex ce) fs of
        (Inl e, fs') \<Rightarrow> (Inl e, fs')
      | (Inr _, fs') \<Rightarrow> flush_entries m rest fs')"

definition flush_all :: "'db cstate \<Rightarrow> 'w world \<Rightarrow> (exn + unit) \<times> 'w world" where
  "flush_all st w =
     (case flush_entries (cs_meta st) (cs_entries st) (w_fs w) of
        (r, fs') \<Rightarrow> (r, w\<lparr>w_fs := fs'\<rparr>))"

text \<open>The lambda \<open>used_gb\<close>: iterating over a root that is no directory throws.\<close>

definition used_gb :: "'db cstate \<Rightarrow> fsys \<Rightarrow> exn + double" where
  "used_gb st fs =
     (case lookup fs (resolve fs (cs_root st)) of
        Some Dir \<Rightarrow>
          Inr (Fin (of_nat (tree_bytes fs (resolve fs (cs_root st)) mod 18446744073709551616)
                    / (1024 * 1024 * 1024)))
      | Some (File _) \<Rightarrow> Inl (Filesystem_error ENOTDIR)
      | None \<Rightarrow> Inl (Filesystem_error ENOENT))"

text \<open>The entry at an address, with its path.\<close>

fun entry_at :: "u64 \<Rightarrow> entry_map \<Rightarrow> (string \<times> CacheEntry) option" where
  "entry_at a [] = None"
| "entry_at a ((p, a', ce) # rest) = (if a' = a then Some (p, ce) else entry_at a rest)"

text \<open>The rest of the loop body once a key was evicted: the upper half of the key is taken for a
  pointer, and dereferencing one that points to no entry is undefined.\<close>

definition evict_entry :: "u64 \<Rightarrow> 'db cstate \<Rightarrow> fsys \<Rightarrow> (exn + unit) \<times> 'db cstate \<times> fsys" where
  "evict_entry key st fs =
     (let p = drop_bit 32 key in
      if p = 0 then (Inr (), st, fs)
      else case entry_at p (cs_entries st) of
        None \<Rightarrow> (Inl Undefined_behaviour, st, fs)
      | Some (path, ce) \<Rightarrow>
          (if ce_evicted ce then (Inr (), st, fs)
           else case delete_object (cs_store st) (ce_hash_hex ce) fs of
             (Inl e, fs1) \<Rightarrow> (Inl e, st, fs1)
           | (Inr _, fs1) \<Rightarrow>
               (case flushBitmaps (cs_meta st) (ce_hash_hex ce) fs1 of
                  (Inl e, fs2) \<Rightarrow> (Inl e, st, fs2)
                | (Inr _, fs2) \<Rightarrow> (Inr (), put_entry path p (ce\<lparr>ce_evicted := True\<rparr>) st, fs2))))"

lemma erase_shorter: "(it, n) \<in> set xs \<Longrightarrow> length (erase it xs) < length xs"
  unfolding erase_def by (rule length_filter_less [of "(it, n)"]) auto

lemma evict_scan_mem: "evict_scan xs v w = Some x \<Longrightarrow> x \<in> set xs \<or> v = Some x"
  by (induction xs v w rule: evict_scan.induct) (auto simp: Let_def split: if_splits)

lemma lru_evict_shorter:
  "fst (lru_evict l) \<noteq> SIZE_MAX \<Longrightarrow> length (lru_order (snd (lru_evict l))) < length (lru_order l)"
  using evict_scan_mem [of "lru_order l" None "Fin (- DBL_MAX)"]
  by (auto simp: lru_evict_def intro!: erase_shorter split: option.splits)

lemma evict_entry_lru: "evict_entry key st fs = (r, st', fs') \<Longrightarrow> cs_lru st' = cs_lru st"
  by (auto simp: evict_entry_def Let_def put_entry_def split: option.splits if_splits prod.splits sum.splits)

lemma evict_turn_shorter:
  assumes "(r, st2, fs2) = evict_entry key (st\<lparr>cs_lru := snd (lru_evict (cs_lru st))\<rparr>) fs"
    and "fst (lru_evict (cs_lru st)) \<noteq> SIZE_MAX"
  shows "length (lru_order (cs_lru st2)) < length (lru_order (cs_lru st))"
  using evict_entry_lru [OF assms(1) [symmetric]] lru_evict_shorter [OF assms(2)] by simp

text \<open>The loop runs at most once per tracked block.\<close>

function evict_loop :: "double \<Rightarrow> 'db cstate \<Rightarrow> fsys \<Rightarrow> (exn + unit) \<times> 'db cstate \<times> fsys" where
  "evict_loop free_gb st fs =
     (case used_gb st fs of
        Inl e \<Rightarrow> (Inl e, st, fs)
      | Inr used \<Rightarrow>
          (if \<not> double_less free_gb used then (Inr (), st, fs)
           else let key = fst (lru_evict (cs_lru st));
                    st1 = st\<lparr>cs_lru := snd (lru_evict (cs_lru st))\<rparr>
                in if key = SIZE_MAX then (Inr (), st1, fs)
                   else case evict_entry key st1 fs of
                     (Inl e, st2, fs2) \<Rightarrow> (Inl e, st2, fs2)
                   | (Inr _, st2, fs2) \<Rightarrow> evict_loop free_gb st2 fs2))"
  by pat_completeness auto
termination
  by (relation "measure (\<lambda>(free_gb, st, fs). length (lru_order (cs_lru st)))")
    (auto intro: evict_turn_shorter split: prod.splits)

declare evict_loop.simps [simp del]

definition evict_until_gb ::
    "double \<Rightarrow> 'db cstate \<Rightarrow> 'w world \<Rightarrow> (exn + unit) \<times> 'db cstate \<times> 'w world" where
  "evict_until_gb free_gb st w =
     (case evict_loop free_gb st (w_fs w) of (r, st', fs') \<Rightarrow> (r, st', w\<lparr>w_fs := fs'\<rparr>))"

text \<open>A prefetch job.  An exception ends it and stays in the future nobody waits for.\<close>

definition prefetch_turn ::
    "('db, 'w) env \<Rightarrow> CacheEntry \<Rightarrow> u64 \<Rightarrow> u64 \<Rightarrow> 'db cstate \<Rightarrow> 'w world
      \<Rightarrow> bool \<times> 'db cstate \<times> 'w world" where
  "prefetch_turn ev ce first_blk blk st w =
     (let off = blk * kBlockSize in
      case bs_read (cs_store st) (ce_hash_hex ce) (ev_stack ev blk) kBlockSize off (w_fs w) of
        Inl e \<Rightarrow> (False, st, w)
      | Inr (n, buf) \<Rightarrow>
          (if n = sint kBlockSize then (True, st, w)
           else case backend_read_range (ev_cu ev) (ev_backend ev) (ce_path ce) buf kBlockSize off (w_net w) of
             (got, buf', net) \<Rightarrow>
               (if got \<le> 0 then (True, st, w\<lparr>w_net := net\<rparr>)
                else case bs_write (cs_store st) (ce_hash_hex ce) (take (nat got) buf') off False (w_fs w) of
                  (Inl e, fs') \<Rightarrow> (False, st, w\<lparr>w_net := net, w_fs := fs'\<rparr>)
                | (Inr _, fs') \<Rightarrow>
                    (True, touch_block (ev_capture ev (ce, first_blk)) blk (Fin (1 / 4)) st,
                     w\<lparr>w_net := net, w_fs := fs'\<rparr>))))"

fun prefetch_turns ::
    "('db, 'w) env \<Rightarrow> CacheEntry \<Rightarrow> u64 \<Rightarrow> nat list \<Rightarrow> 'db cstate \<Rightarrow> 'w world \<Rightarrow> 'db cstate \<times> 'w world" where
  "prefetch_turns ev ce first_blk [] st w = (st, w)"
| "prefetch_turns ev ce first_blk (i # is) st w =
     (case prefetch_turn ev ce first_blk (first_blk + of_nat i) st w of
        (False, st', w') \<Rightarrow> (st', w')
      | (True, st', w') \<Rightarrow> prefetch_turns ev ce first_blk is st' w')"

definition prefetch_job :: "('db, 'w) env \<Rightarrow> job \<Rightarrow> 'db cstate \<Rightarrow> 'w world \<Rightarrow> 'db cstate \<times> 'w world" where
  "prefetch_job ev j st w = prefetch_turns ev (fst j) (snd j) [0..<PREFETCH_WINDOW] st w"

section \<open>The C interface\<close>

text \<open>\<open>g_cache\<close> is a nullable owner of the object.  \<open>leaked\<close> collects the objects that
  \<open>cache_cleanup\<close> releases without destroying them.\<close>

record ('db, 'w) gstate =
  g_cache :: "'db cstate option"
  g_leaked :: "'db cstate list"
  g_world :: "'w world"

text \<open>Destroying an object stops its pool, which first runs the queued jobs.\<close>

definition destroy :: "('db, 'w) env \<Rightarrow> 'db cstate \<Rightarrow> 'w world \<Rightarrow> 'w world" where
  "destroy ev st w =
     snd (fold (\<lambda>j (st, w). prefetch_job ev j st w) (wp_tasks (cs_pool st)) (st, w))"

definition cache_init :: "('db, 'w) env \<Rightarrow> string \<Rightarrow> int \<Rightarrow> ('db, 'w) gstate \<Rightarrow> int \<times> ('db, 'w) gstate" where
  "cache_init ev rt timeout g =
     (case CacheManager ev rt (g_world g) of
        (st, w) \<Rightarrow>
          (0, g\<lparr>g_cache := Some st,
                g_world := (case g_cache g of None \<Rightarrow> w | Some old \<Rightarrow> destroy ev old w)\<rparr>))"

text \<open>\<open>static_cast<int>(rc)\<close> of a negative \<open>rc\<close> that fits.  An exception leaves the function.\<close>

definition cache_store_file ::
    "('db, 'w) env \<Rightarrow> string \<Rightarrow> bytes \<Rightarrow> u64 \<Rightarrow> u64 \<Rightarrow> ('db, 'w) gstate \<Rightarrow> (exn + int) \<times> ('db, 'w) gstate" where
  "cache_store_file ev p d len off g =
     (case g_cache g of
        None \<Rightarrow> (Inr (- ENODEV), g)
      | Some st \<Rightarrow>
          (case cm_write ev p d len off st (g_world g) of
             (r, st', w') \<Rightarrow>
               (map_sum id (\<lambda>rc. if rc < 0 then rc else 0) r, g\<lparr>g_cache := Some st', g_world := w'\<rparr>)))"

definition cache_read_file ::
    "('db, 'w) env \<Rightarrow> string \<Rightarrow> bytes \<Rightarrow> u64 \<Rightarrow> u64 \<Rightarrow> ('db, 'w) gstate
      \<Rightarrow> (exn + int) \<times> bytes \<times> ('db, 'w) gstate" where
  "cache_read_file ev p b len off g =
     (case g_cache g of
        None \<Rightarrow> (Inr (- ENODEV), b, g)
      | Some st \<Rightarrow>
          (case cm_read ev p b len off st (g_world g) of
             (r, b', st', w') \<Rightarrow> (r, b', g\<lparr>g_cache := Some st', g_world := w'\<rparr>)))"

definition cache_evict_gb :: "double \<Rightarrow> ('db, 'w) gstate \<Rightarrow> (exn + int) \<times> ('db, 'w) gstate" where
  "cache_evict_gb gb g =
     (case g_cache g of
        None \<Rightarrow> (Inr (- ENODEV), g)
      | Some st \<Rightarrow>
          (case evict_until_gb gb st (g_world g) of
             (r, st', w') \<Rightarrow> (map_sum id (\<lambda>_. 0) r, g\<lparr>g_cache := Some st', g_world := w'\<rparr>)))"

definition cache_flush_all :: "('db, 'w) gstate \<Rightarrow> (exn + unit) \<times> ('db, 'w) gstate" where
  "cache_flush_all g =
     (case g_cache g of
        None \<Rightarrow> (Inr (), g)
      | Some st \<Rightarrow> (case flush_all st (g_world g) of (r, w') \<Rightarrow> (r, g\<lparr>g_world := w'\<rparr>)))"

definition cache_cleanup :: "('db, 'w) gstate \<Rightarrow> (exn + unit) \<times> ('db, 'w) gstate" where
  "cache_cleanup g =
     (case g_cache g of
        None \<Rightarrow> (Inr (), g)
      | Some st \<Rightarrow>
          (case flush_all st (g_world g) of
             (Inl e, w') \<Rightarrow> (Inl e, g\<lparr>g_world := w'\<rparr>)
           | (Inr _, w') \<Rightarrow> (Inr (), g\<lparr>g_cache := None, g_leaked := st # g_leaked g, g_world := w'\<rparr>)))"

definition cache_has_valid_entry :: "('db, 'w) gstate \<Rightarrow> string \<Rightarrow> bool" where
  "cache_has_valid_entry g path = (case g_cache g of None \<Rightarrow> False | Some st \<Rightarrow> has_valid_entry st path)"

definition cache_get_entry :: "('db, 'w) gstate \<Rightarrow> string \<Rightarrow> u64 option" where
  "cache_get_entry g path = (case g_cache g of None \<Rightarrow> None | Some st \<Rightarrow> get_entry st path)"

definition cache_apply_eviction :: "('db, 'w) gstate \<Rightarrow> (exn + int) \<times> ('db, 'w) gstate" where
  "cache_apply_eviction g = cache_evict_gb (Fin 1) g"

text \<open>\<^verbatim>\<open>cache/legacy_shims.cc\<close>: the substitutes linked where this file is not.\<close>

definition shim_has_valid_entry :: "string \<Rightarrow> bool" where
  "shim_has_valid_entry path = False"

definition shim_get_entry :: "string \<Rightarrow> u64 option" where
  "shim_get_entry path = None"

definition shim_apply_eviction :: "('db, 'w) gstate \<Rightarrow> (exn + int) \<times> ('db, 'w) gstate" where
  "shim_apply_eviction g = cache_evict_gb (Fin 1) g"

end
