(* ===== verification/Cache_Reads.thy ===== *)
theory Cache_Reads
  imports Cache_Manager
begin

text \<open>
  What \<open>CacheManager::read\<close> returns.  One loop rule reduces the method to the block buffer that
  each turn loads; it is used for reads that the block store can answer alone, for reads through
  to the HTTP backend, and for the reads that go wrong: past the end of the object, and at a block
  behind which the part file has a hole.
\<close>

section \<open>Blocks of the store\<close>

text \<open>The bytes of block \<open>b\<close> that the parts hold.\<close>

definition block_at :: "(nat \<Rightarrow> bytes option) \<Rightarrow> nat \<Rightarrow> bytes" where
  "block_at c b =
     (case c (b * 65536 div part_size) of
        None \<Rightarrow> []
      | Some d \<Rightarrow> slice (b * 65536 mod part_size) 65536 d)"

lemma length_block_at: "length (block_at c b) \<le> 65536"
  by (auto simp: block_at_def length_slice split: option.splits)

lemma sint_kBlockSize [simp]: "sint kBlockSize = 65536"
  by (simp add: sint_small)

lemma read_block:
  assumes ok: "store_ok store fs" "hash_ok h" and "unat boff = b * 65536"
  shows "bs_read store h buf kBlockSize boff fs =
    Inr (if store_abs store fs h (b * 65536 div part_size) = None then - ENOENT
         else int (length (block_at (store_abs store fs h) b)),
         splice buf 0 (block_at (store_abs store fs h) b))"
  using bs.rd_contents [OF ok, of buf kBlockSize boff] assms(3)
  by (auto simp: block_at_def Let_def split: option.splits)

lemma load_block_hit:
  assumes "store_ok (cs_store st) (w_fs w)" and "hash_ok h" and "unat boff = b * 65536"
    and "length (block_at (store_abs (cs_store st) (w_fs w) h) b) = 65536" and "length stack = 65536"
  shows "load_block ev st path h boff stack w =
    (Inr (Some (block_at (store_abs (cs_store st) (w_fs w) h) b)), w)"
proof -
  have "store_abs (cs_store st) (w_fs w) h (b * 65536 div part_size) \<noteq> None"
    using assms(4) by (auto simp: block_at_def split: option.splits)
  then show ?thesis
    using read_block [OF assms(1-3), of stack] assms(4,5)
    by (auto simp: load_block_def splice_0_full)
qed

lemma load_block_miss:
  assumes "store_ok (cs_store st) (w_fs w)" and "hash_ok h" and "unat boff = b * 65536"
    and "length (block_at (store_abs (cs_store st) (w_fs w) h) b) \<noteq> 65536"
  shows "load_block ev st path h boff stack w =
    fetch_block ev st path h boff (splice stack 0 (block_at (store_abs (cs_store st) (w_fs w) h) b)) w"
  using read_block [OF assms(1-3), of stack] assms(4) by (simp add: load_block_def)

text \<open>The methods of the object that loading a block depends on.\<close>

lemma load_block_cong:
  assumes "cs_store st' = cs_store st" and "cs_root st' = cs_root st"
  shows "load_block ev st' = load_block ev st"
proof -
  have mirror: "mirror_read st' = mirror_read st" by (intro ext) (simp add: mirror_read_def assms)
  have fetch: "fetch_block ev st' = fetch_block ev st"
    by (intro ext) (unfold fetch_block_def assms mirror, rule refl)
  show ?thesis by (intro ext) (unfold load_block_def assms fetch, rule refl)
qed

section \<open>The loop rule\<close>

lemma read_turn_next:
  assumes "load_block ev st path (ce_hash_hex ce) (blk_off_of off dn) (ev_stack ev (blk_of off dn)) w =
      (Inr (Some block), w')"
    and "sint off + sint dn < 9223372036854775808"
  shows "\<exists>ce' st'. read_turn ev path a len off dn ce buf st w =
      (Next (ce', splice buf (unat dn) (slice (unat (in_of off dn)) (unat (want_of len off dn)) block)), st', w') \<and>
    ce_hash_hex ce' = ce_hash_hex ce \<and> ce_evicted ce' = ce_evicted ce \<and>
    map_of (cs_entries st') path = Some (a, ce') \<and>
    cs_store st' = cs_store st \<and> cs_root st' = cs_root st \<and> cs_meta st' = cs_meta st"
  using assms
  by (simp add: read_turn_def Let_def touch_block_def put_entry_def schedule_prefetch_def update_conv)

text \<open>Two neighbouring pieces of \<open>G\<close> put into the buffer one after the other.\<close>

lemma splice_slice_step:
  assumes "dn + want \<le> n" and "off + n \<le> length G" and "n \<le> length buf"
  shows "splice (splice buf dn (slice (off + dn) want G)) (dn + want) (slice (off + (dn + want)) (n - (dn + want)) G) =
    splice buf dn (slice (off + dn) (n - dn) G)"
proof -
  have len: "length (slice (off + dn) want G) = want" using assms by (simp add: length_slice)
  have "slice (off + dn) want G @ slice (off + (dn + want)) (n - (dn + want)) G = slice (off + dn) (n - dn) G"
    using slice_append_adjacent [of "off + dn" want G "n - (dn + want)"] assms(1) by (simp add: add.assoc)
  then show ?thesis
    using splice_splice_adjacent [of dn "slice (off + dn) want G" "slice (off + (dn + want)) (n - (dn + want)) G" buf]
      len assms by (simp add: length_slice)
qed

text \<open>If every turn loads a block that agrees with \<open>G\<close> on the wanted bytes, the read returns
  \<open>len\<close> and the bytes of \<open>G\<close>.\<close>

lemma read_loop_rule:
  assumes len: "unat off + unat len < 9223372036854775808" "unat off + unat len \<le> length G"
    "unat len \<le> length buf"
    and turn: "\<And>dn w. I dn w \<Longrightarrow> dn < len \<Longrightarrow> \<exists>block w'.
      load_block ev st path h (blk_off_of off dn) (ev_stack ev (blk_of off dn)) w = (Inr (Some block), w') \<and>
      slice (unat (in_of off dn)) (unat (want_of len off dn)) block =
        slice (unat off + unat dn) (unat (want_of len off dn)) G \<and>
      I (dn + want_of len off dn) w'"
    and init: "I dn w" "dn \<le> len" "ce_hash_hex ce = h" "cs_store st1 = cs_store st" "cs_root st1 = cs_root st"
      "map_of (cs_entries st1) path = Some (a, ce)"
  shows "\<exists>st' w'. read_loop ev path a len off dn ce buf st1 w =
      (Inr (int (unat len)),
       splice buf (unat dn) (slice (unat off + unat dn) (unat len - unat dn) G), st', w') \<and>
    I len w' \<and> cs_store st' = cs_store st \<and> cs_root st' = cs_root st \<and> cs_meta st' = cs_meta st1 \<and>
    (\<exists>ce'. map_of (cs_entries st') path = Some (a, ce') \<and> ce_hash_hex ce' = h \<and> ce_evicted ce' = ce_evicted ce)"
  using len(3) init
proof (induction "unat len - unat dn" arbitrary: dn w ce buf st1 rule: less_induct)
  case less
  have slen: "sint len = int (unat len)" using len(1) by (intro sint_small) simp
  have dnlen: "unat dn \<le> unat len" using less.prems(3) by (simp add: word_le_nat_alt)
  then have sdn: "sint dn = int (unat dn)" using len(1) by (intro sint_small) simp
  show ?case
  proof (cases "dn = len")
    case True
    then show ?thesis using less.prems slen by (subst read_loop.simps) simp
  next
    case False
    then have dl: "dn < len" using less.prems(3) by simp
    then have sl: "sint dn < sint len" using slen sdn by (simp add: word_less_nat_alt del: of_nat_unat)
    let ?want = "want_of len off dn"
    obtain block w' where turn': "load_block ev st path h (blk_off_of off dn) (ev_stack ev (blk_of off dn)) w =
        (Inr (Some block), w')"
      "slice (unat (in_of off dn)) (unat ?want) block = slice (unat off + unat dn) (unat ?want) G"
      "I (dn + ?want) w'"
      using turn [OF less.prems(2) dl] by blast
    have "sint off = int (unat off)" using len(1) by (intro sint_small) simp
    then have "sint off + sint dn < 9223372036854775808" using sdn dnlen len(1) by linarith
    moreover have "load_block ev st1 path (ce_hash_hex ce) (blk_off_of off dn) (ev_stack ev (blk_of off dn)) w =
        (Inr (Some block), w')"
      using turn'(1) load_block_cong [OF less.prems(5,6), of ev] less.prems(4) by simp
    ultimately obtain ce' st2 where rt: "read_turn ev path a len off dn ce buf st1 w =
        (Next (ce', splice buf (unat dn) (slice (unat off + unat dn) (unat ?want) G)), st2, w')"
      "ce_hash_hex ce' = ce_hash_hex ce" "cs_store st2 = cs_store st1" "cs_root st2 = cs_root st1"
      "cs_meta st2 = cs_meta st1" "ce_evicted ce' = ce_evicted ce" "map_of (cs_entries st2) path = Some (a, ce')"
      using read_turn_next [of ev st1 path ce off dn w block w' a len buf] turn'(2) by metis
    note want = unat_want [OF dl, of off] want_less_unsigned [OF dl, of off]
    let ?buf = "splice buf (unat dn) (slice (unat off + unat dn) (unat ?want) G)"
    have slen': "length (slice (unat off + unat dn) (unat ?want) G) = unat ?want"
      using want(2) len(2) by (simp add: length_slice)
    then have blen: "unat len \<le> length ?buf" using want(2) less.prems(1) by (simp add: length_splice)
    have "dn + ?want \<le> len" using want(1,2) by (simp add: word_le_nat_alt)
    then obtain st' w'' where IH: "read_loop ev path a len off (dn + ?want) ce' ?buf st2 w' =
        (Inr (int (unat len)),
         splice ?buf (unat (dn + ?want)) (slice (unat off + unat (dn + ?want)) (unat len - unat (dn + ?want)) G),
         st', w'')"
      "I len w''" "cs_store st' = cs_store st" "cs_root st' = cs_root st" "cs_meta st' = cs_meta st2"
      "\<exists>ce''. map_of (cs_entries st') path = Some (a, ce'') \<and> ce_hash_hex ce'' = h \<and> ce_evicted ce'' = ce_evicted ce'"
      using less.hyps [OF want(3) blen turn'(3) _ rt(2) [unfolded less.prems(4)]
          rt(3) [unfolded less.prems(5)] rt(4) [unfolded less.prems(6)] rt(7)] by blast
    have "splice ?buf (unat (dn + ?want)) (slice (unat off + unat (dn + ?want)) (unat len - unat (dn + ?want)) G) =
        splice buf (unat dn) (slice (unat off + unat dn) (unat len - unat dn) G)"
      unfolding want(1) using want(2) len(2) less.prems(1) by (intro splice_slice_step) simp_all
    then show ?thesis
      using IH rt sl by (subst read_loop.simps) simp
  qed
qed

section \<open>Entries and positions\<close>

text \<open>The path is not marked evicted, and an entry for it carries the path's hash.\<close>

definition entry_ok :: "('db, 'w) env \<Rightarrow> string \<Rightarrow> 'db cstate \<Rightarrow> bool" where
  "entry_ok ev path st \<longleftrightarrow>
     (case map_of (cs_entries st) path of
        None \<Rightarrow> True
      | Some (a, ce) \<Rightarrow> \<not> ce_evicted ce \<and> ce_hash_hex ce = hash_hex (ev_hash ev) path)"

lemma entry_cases:
  assumes "entry_ok ev path st"
  obtains a ce st1 where "entry ev path st = ((a, ce), st1)" and "\<not> ce_evicted ce"
    and "ce_hash_hex ce = hash_hex (ev_hash ev) path"
    and "cs_store st1 = cs_store st" and "cs_root st1 = cs_root st" and "map_of (cs_entries st1) path = Some (a, ce)"
    and "cs_meta st1 = cs_meta st"
  using assms by (auto simp: entry_ok_def entry_def Let_def put_entry_def update_conv split: option.splits)

lemma entry_okI:
  "map_of (cs_entries st) path = Some (a, ce) \<Longrightarrow> ce_hash_hex ce = hash_hex (ev_hash ev) path \<Longrightarrow>
   \<not> ce_evicted ce \<Longrightarrow> entry_ok ev path st"
  by (simp add: entry_ok_def)

text \<open>The loop rule at the method.\<close>

lemma cm_read_rule:
  assumes "entry_ok ev path st" and "unat off + unat len < 9223372036854775808"
    and "unat off + unat len \<le> length G" and "unat len \<le> length buf"
    and turn: "\<And>dn w. I dn w \<Longrightarrow> dn < len \<Longrightarrow> \<exists>block w'.
      load_block ev st path (hash_hex (ev_hash ev) path) (blk_off_of off dn) (ev_stack ev (blk_of off dn)) w =
        (Inr (Some block), w') \<and>
      slice (unat (in_of off dn)) (unat (want_of len off dn)) block =
        slice (unat off + unat dn) (unat (want_of len off dn)) G \<and>
      I (dn + want_of len off dn) w'"
    and "I 0 w"
  shows "\<exists>st' w'. cm_read ev path buf len off st w =
      (Inr (int (unat len)), splice buf 0 (slice (unat off) (unat len) G), st', w') \<and>
    I len w' \<and> entry_ok ev path st' \<and> cs_store st' = cs_store st \<and> cs_root st' = cs_root st \<and>
    cs_meta st' = cs_meta st"
proof -
  let ?h = "hash_hex (ev_hash ev) path"
  obtain a ce st1 where e: "entry ev path st = ((a, ce), st1)" "\<not> ce_evicted ce" "ce_hash_hex ce = ?h"
    "cs_store st1 = cs_store st" "cs_root st1 = cs_root st" "map_of (cs_entries st1) path = Some (a, ce)"
    "cs_meta st1 = cs_meta st"
    by (rule entry_cases [OF assms(1)])
  obtain st' w' ce' where l: "read_loop ev path a len off 0 ce buf st1 w =
      (Inr (int (unat len)), splice buf 0 (slice (unat off) (unat len) G), st', w')"
    "I len w'" "cs_store st' = cs_store st" "cs_root st' = cs_root st" "cs_meta st' = cs_meta st1"
    "map_of (cs_entries st') path = Some (a, ce')" "ce_hash_hex ce' = ?h" "ce_evicted ce' = ce_evicted ce"
    using read_loop_rule [of off len G buf I ev st path ?h 0 w ce st1 a, OF assms(2-4) turn assms(6) _ e(3-6)]
    by auto
  show ?thesis
    using l e by (auto simp: cm_read_def intro: entry_okI)
qed

lemma unat_pos:
  fixes off len dn :: u64
  assumes "unat off + unat len < 9223372036854775808" and "dn \<le> len"
  shows "unat (off + dn) = unat off + unat dn"
proof -
  have "unat off + unat dn < 18446744073709551616" using assms by (simp add: word_le_nat_alt)
  then show ?thesis by (simp add: unat_word_ariths)
qed

text \<open>The position of a turn: block, offset in the block and end of the wanted bytes.\<close>

lemma turn_pos:
  fixes off len dn :: u64
  assumes "unat off + unat len < 9223372036854775808" and "dn < len"
  defines "b \<equiv> (unat off + unat dn) div 65536"
  shows "unat (blk_of off dn) = b" and "unat (blk_off_of off dn) = b * 65536"
    and "b * 65536 + unat (in_of off dn) = unat off + unat dn"
    and "unat (in_of off dn) + unat (want_of len off dn) \<le> 65536"
    and "unat dn + unat (want_of len off dn) \<le> unat len"
    and "b * 65536 < unat off + unat len" and "unat off div 65536 \<le> b"
    and "unat dn + unat (want_of len off dn) < unat len \<Longrightarrow>
      unat off + unat dn + unat (want_of len off dn) = (b + 1) * 65536"
proof -
  have pos: "unat (off + dn) = unat off + unat dn" using assms(1,2) by (intro unat_pos [of off len]) auto
  show "unat (blk_of off dn) = b" "unat (blk_off_of off dn) = b * 65536"
    using pos by (simp_all add: unat_blk_of unat_blk_off_of b_def)
  show in_eq: "b * 65536 + unat (in_of off dn) = unat off + unat dn"
    using pos by (simp add: unat_in_of b_def)
  show le: "unat (in_of off dn) + unat (want_of len off dn) \<le> 65536"
    using pos by (simp add: unat_in_of unat_want_of)
  show "unat dn + unat (want_of len off dn) \<le> unat len" by (rule unat_want(2) [OF assms(2)])
  have "unat dn < unat len" using assms(2) by (simp add: word_less_nat_alt)
  then show "b * 65536 < unat off + unat len" using in_eq by linarith
  show "unat off div 65536 \<le> b" by (simp add: b_def div_le_mono)
  assume "unat dn + unat (want_of len off dn) < unat len"
  moreover have "unat (len - dn) = unat len - unat dn" using assms(2) by (intro unat_sub) simp
  ultimately have "unat (want_of len off dn) = 65536 - unat (in_of off dn)"
    by (auto simp: unat_want_of unat_in_of min_def split: if_splits)
  then show "unat off + unat dn + unat (want_of len off dn) = (b + 1) * 65536"
    using in_eq le by (simp add: add_mult_distrib)
qed

section \<open>Reads answered by the store\<close>

text \<open>Every block the range touches is completely cached and agrees with \<open>G\<close>.\<close>

definition range_cached :: "(nat \<Rightarrow> bytes option) \<Rightarrow> nat \<Rightarrow> nat \<Rightarrow> bytes \<Rightarrow> bool" where
  "range_cached c off len G \<longleftrightarrow>
     (\<forall>b. off div 65536 \<le> b \<and> b * 65536 < off + len \<longrightarrow>
        length (block_at c b) = 65536 \<and>
        (\<forall>i < 65536. off \<le> b * 65536 + i \<and> b * 65536 + i < off + len \<longrightarrow>
           block_at c b ! i = G ! (b * 65536 + i)))"

lemma range_cached_first:
  assumes "off + len \<le> 65536" and "length (block_at c 0) = 65536"
    and "\<And>i. off \<le> i \<Longrightarrow> i < off + len \<Longrightarrow> block_at c 0 ! i = G ! i"
  shows "range_cached c off len G"
proof -
  have "b = 0" if "b * 65536 + i < off + len" for b i using that assms(1) by simp
  then show ?thesis using assms(2,3) unfolding range_cached_def by (metis add_0 add_0_right mult_0)
qed

lemma slice_eqI:
  assumes "i + n \<le> length xs" and "j + n \<le> length ys" and "\<And>k. k < n \<Longrightarrow> xs ! (i + k) = ys ! (j + k)"
  shows "slice i n xs = slice j n ys"
  using assms by (intro nth_equalityI) (simp_all add: length_slice nth_slice)

lemma cm_read_cached:
  assumes "store_ok (cs_store st) (w_fs w)" and "entry_ok ev path st"
    and "unat off + unat len < 9223372036854775808" and "unat off + unat len \<le> length G"
    and "unat len \<le> length buf" and "\<And>b. length (ev_stack ev b) = 65536"
    and "range_cached (store_abs (cs_store st) (w_fs w) (hash_hex (ev_hash ev) path)) (unat off) (unat len) G"
  shows "\<exists>st'. cm_read ev path buf len off st w =
    (Inr (int (unat len)), splice buf 0 (slice (unat off) (unat len) G), st', w) \<and> entry_ok ev path st'"
proof -
  let ?h = "hash_hex (ev_hash ev) path"
  let ?c = "store_abs (cs_store st) (w_fs w) ?h"
  have "\<exists>block w'. load_block ev st path ?h (blk_off_of off dn) (ev_stack ev (blk_of off dn)) w'' =
        (Inr (Some block), w') \<and>
      slice (unat (in_of off dn)) (unat (want_of len off dn)) block =
        slice (unat off + unat dn) (unat (want_of len off dn)) G \<and> w' = w"
    if w'': "w'' = w" and dn: "dn < len" for dn w''
  proof -
    let ?b = "(unat off + unat dn) div 65536"
    note pos = turn_pos [OF assms(3) dn]
    have cached: "length (block_at ?c ?b) = 65536"
      "\<And>i. i < 65536 \<Longrightarrow> unat off \<le> ?b * 65536 + i \<Longrightarrow> ?b * 65536 + i < unat off + unat len \<Longrightarrow>
         block_at ?c ?b ! i = G ! (?b * 65536 + i)"
      using assms(7) pos(6,7) unfolding range_cached_def by blast+
    have "load_block ev st path ?h (blk_off_of off dn) (ev_stack ev (blk_of off dn)) w'' =
        (Inr (Some (block_at ?c ?b)), w)"
      unfolding w'' by (rule load_block_hit [OF assms(1) hash_ok_hash_hex pos(2) cached(1) assms(6)])
    moreover have "slice (unat (in_of off dn)) (unat (want_of len off dn)) (block_at ?c ?b) =
        slice (unat off + unat dn) (unat (want_of len off dn)) G"
    proof (rule slice_eqI)
      show "unat (in_of off dn) + unat (want_of len off dn) \<le> length (block_at ?c ?b)"
        using pos(4) cached(1) by simp
      show "unat off + unat dn + unat (want_of len off dn) \<le> length G" using pos(5) assms(4) by linarith
      fix k assume "k < unat (want_of len off dn)"
      then show "block_at ?c ?b ! (unat (in_of off dn) + k) = G ! (unat off + unat dn + k)"
        using cached(2) [of "unat (in_of off dn) + k"] pos(3-5) by (simp add: add.assoc [symmetric])
    qed
    ultimately show ?thesis by blast
  qed
  then show ?thesis
    using cm_read_rule [where I = "\<lambda>_ w'. w' = w", OF assms(2-5)] by blast
qed

section \<open>Reads through to the backend\<close>

text \<open>Loading block \<open>b\<close> writes no hole: its part file reaches at least to the block's start.\<close>

definition no_hole :: "(nat \<Rightarrow> bytes option) \<Rightarrow> nat \<Rightarrow> bool" where
  "no_hole c b \<longleftrightarrow> b * 65536 mod part_size \<le> part_len c (b * 65536 div part_size)"

text \<open>A whole block in the store makes the next block loadable without a hole.\<close>

lemma part_len_block:
  "block_at c b \<noteq> [] \<Longrightarrow>
   part_len c (b * 65536 div part_size) \<ge> b * 65536 mod part_size + length (block_at c b)"
  by (cases "c (b * 65536 div part_size)") (auto simp: block_at_def part_len_def slice_def)

lemma no_hole_Suc:
  assumes "length (block_at c b) = 65536"
  shows "no_hole c (b + 1)"
proof (cases "(b + 1) * 65536 mod part_size = 0")
  case False
  have eq: "b * 65536 div part_size = b div 32768" "b * 65536 mod part_size = b mod 32768 * 65536" for b :: nat
    using div_mult2_eq [of "b * 65536" 65536 32768] mult_mod_left [of b 32768 65536] by simp_all
  have ne: "(b + 1) mod 32768 \<noteq> 0" using False eq(2) [of "b + 1"] by simp
  then have "(b + 1) mod 32768 = b mod 32768 + 1" "(b + 1) div 32768 = b div 32768"
    by (simp_all add: mod_Suc div_Suc split: if_splits)
  moreover have "b * 65536 mod part_size + 65536 \<le> part_len c (b * 65536 div part_size)"
    using part_len_block [of c b] assms by force
  ultimately show ?thesis unfolding no_hole_def eq by simp
qed (simp add: no_hole_def)

lemma coherent_block:
  assumes "coherent F c"
  shows "block_at c b = slice (b * 65536) (length (block_at c b)) F"
proof (cases "c (b * 65536 div part_size)")
  case (Some d)
  let ?i = "b * 65536 div part_size" and ?o = "b * 65536 mod part_size"
  have d: "d = slice (?i * part_size) (length d) F" using assms Some unfolding coherent_def by blast
  let ?n = "length (slice ?o 65536 d)"
  have n: "?o + ?n \<le> length d \<or> ?n = 0" by (auto simp: length_slice)
  have "slice ?o 65536 d = slice ?o ?n d" by (simp add: slice_def min_def)
  also have "\<dots> = slice (?i * part_size + ?o) ?n F"
    using n by (subst d) (auto simp: slice_slice)
  also have "?i * part_size + ?o = b * 65536" by (rule div_mult_mod_eq)
  finally show ?thesis using Some by (simp add: block_at_def)
qed (simp add: block_at_def)

text \<open>The server answers and has \<open>F\<close>.\<close>

definition serves :: "('db, 'w) env \<Rightarrow> ('w \<Rightarrow> string \<Rightarrow> bytes option) \<Rightarrow> string \<Rightarrow> bytes \<Rightarrow> 'w \<Rightarrow> bool" where
  "serves ev content path F net \<longleftrightarrow>
     (\<exists>b. ev_backend ev = Some b \<and> range_server (ev_cu ev) (base_url b) content \<and> no_nul (base_url b)) \<and>
     no_nul path \<and> content net path = Some F"

lemma range_fetched:
  assumes srv: "serves ev content path F net"
    and b: "unat boff = b * 65536" "b * 65536 < length F" "b * 65536 + 65536 < 9223372036854775808"
    and block: "length block = 65536"
  shows "\<exists>net'. backend_read_range (ev_cu ev) (ev_backend ev) path block kBlockSize boff net =
      (int (length (slice (b * 65536) 65536 F)), splice block 0 (slice (b * 65536) 65536 F), net') \<and>
    0 < length (slice (b * 65536) 65536 F) \<and> serves ev content path F net' \<and> content net' = content net"
proof -
  obtain hb where be: "ev_backend ev = Some hb"
    and up: "range_server (ev_cu ev) (base_url hb) content \<and> no_nul (base_url hb)"
    and path: "no_nul path" and F: "content net path = Some F"
    using srv unfolding serves_def by blast
  obtain n block' net' where rd: "backend_read_range (ev_cu ev) (Some hb) path block kBlockSize boff net =
      (n, block', net')"
    by (metis prod_cases3)
  have lim: "0 < unat kBlockSize" "unat kBlockSize \<le> length block" "unat boff + unat kBlockSize < 9223372036854775808"
    using b block by simp_all
  have off: "unat boff < length F" using b by simp
  note res = http.rd_some [OF up path F off lim, unfolded rd fst_conv snd_conv b(1)]
    and world = http.rd_world [OF up path lim, of net, unfolded rd snd_conv]
  have "serves ev content path F net'" using be up path F world by (auto simp: serves_def)
  moreover have "content net' = content net" using world by simp
  ultimately show ?thesis using rd be res b(2) by (intro exI [of _ net']) (simp add: length_slice)
qed

lemma fetch_block_raw:
  assumes srv: "serves ev content path F (w_net w)" and ok: "store_ok (cs_store st) (w_fs w)" and h: "hash_ok h"
    and b: "unat boff = b * 65536" "b * 65536 < length F" "b * 65536 + 65536 < 9223372036854775808"
    and block: "length block = 65536"
  shows "\<exists>net r fs'. fetch_block ev st path h boff block w =
      (Inr (Some (splice block 0 (slice (b * 65536) 65536 F))), w\<lparr>w_net := net, w_fs := fs'\<rparr>) \<and>
    serves ev content path F net \<and> content net = content (w_net w) \<and>
    bs_write (cs_store st) h (slice (b * 65536) 65536 F) boff False (w_fs w) = (r, fs')"
proof -
  let ?d = "slice (b * 65536) 65536 F"
  obtain net where rd: "backend_read_range (ev_cu ev) (ev_backend ev) path block kBlockSize boff (w_net w) =
      (int (length ?d), splice block 0 ?d, net)" "0 < length ?d" "serves ev content path F net"
      "content net = content (w_net w)"
    using range_fetched [OF srv b block] by blast
  obtain r fs' where wr: "bs_write (cs_store st) h ?d boff False (w_fs w) = (r, fs')" by force
  have "r = Inr (int (length ?d))" by (rule bs.wr_result [OF ok h wr])
  moreover have "take (length ?d) (splice block 0 ?d) = ?d" by (simp add: splice_def)
  ultimately show ?thesis using rd wr
    by (intro exI [of _ net] exI [of _ r] exI [of _ fs']) (simp add: fetch_block_def)
qed

text \<open>The world of a read through: the server has \<open>F\<close>, the store is usable and holds a copy of
  part of \<open>F\<close>.\<close>

definition read_through ::
    "('db, 'w) env \<Rightarrow> ('w \<Rightarrow> string \<Rightarrow> bytes option) \<Rightarrow> bstore \<Rightarrow> string \<Rightarrow> bytes \<Rightarrow> 'w world \<Rightarrow> bool" where
  "read_through ev content store path F w \<longleftrightarrow>
     serves ev content path F (w_net w) \<and> store_ok store (w_fs w) \<and>
     coherent F (store_abs store (w_fs w) (hash_hex (ev_hash ev) path))"

lemma fetch_block_ok:
  assumes rt: "read_through ev content (cs_store st) path F w"
    and b: "unat boff = b * 65536" "b * 65536 < length F" "b * 65536 + 65536 < 9223372036854775808"
    and nohole: "no_hole (store_abs (cs_store st) (w_fs w) (hash_hex (ev_hash ev) path)) b"
    and block: "length block = 65536"
  shows "\<exists>w'. fetch_block ev st path (hash_hex (ev_hash ev) path) boff block w =
      (Inr (Some (splice block 0 (slice (b * 65536) 65536 F))), w') \<and>
    read_through ev content (cs_store st) path F w' \<and>
    store_abs (cs_store st) (w_fs w') (hash_hex (ev_hash ev) path) (b * 65536 div part_size) =
      Some (file_write (case store_abs (cs_store st) (w_fs w) (hash_hex (ev_hash ev) path) (b * 65536 div part_size) of
              None \<Rightarrow> [] | Some c \<Rightarrow> c) (b * 65536 mod part_size) (slice (b * 65536) 65536 F))"
proof -
  let ?h = "hash_hex (ev_hash ev) path" and ?d = "slice (b * 65536) 65536 F"
  have srv: "serves ev content path F (w_net w)" and ok: "store_ok (cs_store st) (w_fs w)"
    and coh: "coherent F (store_abs (cs_store st) (w_fs w) ?h)"
    using rt by (simp_all add: read_through_def)
  obtain net r fs' where f: "fetch_block ev st path ?h boff block w =
      (Inr (Some (splice block 0 ?d)), w\<lparr>w_net := net, w_fs := fs'\<rparr>)" "serves ev content path F net"
    and wr: "bs_write (cs_store st) ?h ?d boff False (w_fs w) = (r, fs')"
    using fetch_block_raw [OF srv ok hash_ok_hash_hex b block] by blast
  have dF: "?d = slice (unat boff) (length ?d) F" using b(1) by (simp add: slice_def min_def)
  have "coherent F (store_abs (cs_store st) fs' ?h)"
    using nohole b(1) by (intro bs.coherent_write [OF ok hash_ok_hash_hex wr coh dF]) (simp add: no_hole_def)
  moreover have "store_ok (cs_store st) fs'" by (rule bs.wr_ok [OF ok hash_ok_hash_hex wr])
  ultimately show ?thesis
    using f bs.wr_contents [OF ok hash_ok_hash_hex hash_ok_hash_hex wr, where j = "b * 65536 div part_size"] b(1)
    by (auto simp: read_through_def)
qed

lemma slice_splice_prefix:
  assumes "i + n \<le> length d" and "length d \<le> length xs"
  shows "slice i n (splice xs 0 d) = slice i n d"
  using assms by (intro slice_eqI) (simp_all add: length_splice nth_splice)

lemma block_at_written:
  assumes "c (b * 65536 div part_size) = Some (file_write x (b * 65536 mod part_size) d)" and "length d = 65536"
  shows "length (block_at c b) = 65536"
proof -
  have "d \<noteq> []" using assms(2) by auto
  then show ?thesis using assms by (simp add: block_at_def length_slice length_file_write)
qed

text \<open>One turn of a read through.\<close>

lemma load_block_through:
  assumes rt: "read_through ev content (cs_store st) path F w"
    and b: "unat boff = b * 65536" "b * 65536 < length F" "b * 65536 + 65536 < 9223372036854775808"
    and nohole: "no_hole (store_abs (cs_store st) (w_fs w) (hash_hex (ev_hash ev) path)) b"
    and stack: "length stack = 65536"
  shows "\<exists>block w'. load_block ev st path (hash_hex (ev_hash ev) path) boff stack w = (Inr (Some block), w') \<and>
    read_through ev content (cs_store st) path F w' \<and>
    (\<forall>i n. i + n \<le> 65536 \<and> b * 65536 + i + n \<le> length F \<longrightarrow> slice i n block = slice (b * 65536 + i) n F) \<and>
    (b * 65536 + 65536 \<le> length F \<longrightarrow>
       no_hole (store_abs (cs_store st) (w_fs w') (hash_hex (ev_hash ev) path)) (b + 1))"
proof -
  let ?h = "hash_hex (ev_hash ev) path"
  let ?c = "store_abs (cs_store st) (w_fs w) ?h"
  have ok: "store_ok (cs_store st) (w_fs w)" and coh: "coherent F ?c"
    using rt by (simp_all add: read_through_def)
  show ?thesis
  proof (cases "length (block_at ?c b) = 65536")
    case True
    have "block_at ?c b = slice (b * 65536) 65536 F" using coherent_block [OF coh, of b] True by simp
    then show ?thesis
      using load_block_hit [OF ok hash_ok_hash_hex b(1) True stack, of ev path] rt no_hole_Suc [OF True]
      by (auto simp: slice_slice)
  next
    case False
    let ?s = "splice stack 0 (block_at ?c b)" and ?d = "slice (b * 65536) 65536 F"
    have s: "length ?s = 65536" using stack length_block_at [of ?c b] by (simp add: length_splice)
    obtain w' where f: "fetch_block ev st path ?h boff ?s w = (Inr (Some (splice ?s 0 ?d)), w')"
      "read_through ev content (cs_store st) path F w'"
      "store_abs (cs_store st) (w_fs w') ?h (b * 65536 div part_size) =
        Some (file_write (case ?c (b * 65536 div part_size) of None \<Rightarrow> [] | Some c \<Rightarrow> c) (b * 65536 mod part_size) ?d)"
      using fetch_block_ok [OF rt b nohole s] by blast
    have "slice i n (splice ?s 0 ?d) = slice (b * 65536 + i) n F"
      if "i + n \<le> 65536" "b * 65536 + i + n \<le> length F" for i n
    proof -
      have "slice i n (splice ?s 0 ?d) = slice i n ?d"
        using that s by (intro slice_splice_prefix) (simp_all add: length_slice)
      then show ?thesis using that(1) by (simp add: slice_slice)
    qed
    moreover have "no_hole (store_abs (cs_store st) (w_fs w') ?h) (b + 1)" if "b * 65536 + 65536 \<le> length F"
      using that by (intro no_hole_Suc block_at_written [where c = "store_abs (cs_store st) (w_fs w') ?h", OF f(3)])
        (simp add: length_slice)
    ultimately show ?thesis
      using f(1,2) load_block_miss [OF ok hash_ok_hash_hex b(1) False, of ev path stack] by auto
  qed
qed

lemma cm_read_through:
  fixes st :: "'db cstate" and ev :: "('db, 'w) env"
  assumes rt: "read_through ev content (cs_store st) path F w" and e: "entry_ok ev path st"
    and lim: "unat off + unat len + 65536 < 9223372036854775808" "unat off + unat len \<le> length F" "unat len \<le> length buf"
    and stack: "\<And>b. length (ev_stack ev b) = 65536"
    and nohole: "no_hole (store_abs (cs_store st) (w_fs w) (hash_hex (ev_hash ev) path)) (unat off div 65536)"
  shows "\<exists>st' w'. cm_read ev path buf len off st w =
      (Inr (int (unat len)), splice buf 0 (slice (unat off) (unat len) F), st', w') \<and>
    read_through ev content (cs_store st') path F w' \<and> entry_ok ev path st' \<and> cs_root st' = cs_root st"
proof -
  let ?h = "hash_hex (ev_hash ev) path"
  define I where "I = (\<lambda>dn w. read_through ev content (cs_store st) path F w \<and>
    (dn < len \<longrightarrow> no_hole (store_abs (cs_store st) (w_fs w) ?h) ((unat off + unat (dn :: u64)) div 65536)))"
  have lim': "unat off + unat len < 9223372036854775808" using lim(1) by simp
  have turn: "\<exists>block w'. load_block ev st path ?h (blk_off_of off dn) (ev_stack ev (blk_of off dn)) w =
      (Inr (Some block), w') \<and>
      slice (unat (in_of off dn)) (unat (want_of len off dn)) block =
        slice (unat off + unat dn) (unat (want_of len off dn)) F \<and> I (dn + want_of len off dn) w'"
    if I: "I dn w" and dn: "dn < len" for dn w
  proof -
    let ?b = "(unat off + unat dn) div 65536" and ?want = "want_of len off dn"
    note pos = turn_pos [OF lim' dn] and rtw = conjunct1 [OF I [unfolded I_def]]
    have nh: "no_hole (store_abs (cs_store st) (w_fs w) ?h) ?b" using I dn by (simp add: I_def)
    have bounds: "?b * 65536 < length F" "?b * 65536 + 65536 < 9223372036854775808"
      using pos(6) lim by linarith+
    obtain block w' where l: "load_block ev st path ?h (blk_off_of off dn) (ev_stack ev (blk_of off dn)) w =
        (Inr (Some block), w')" "read_through ev content (cs_store st) path F w'"
      "\<And>i n. i + n \<le> 65536 \<Longrightarrow> ?b * 65536 + i + n \<le> length F \<Longrightarrow> slice i n block = slice (?b * 65536 + i) n F"
      "?b * 65536 + 65536 \<le> length F \<Longrightarrow> no_hole (store_abs (cs_store st) (w_fs w') ?h) (?b + 1)"
      using load_block_through [OF rtw pos(2) bounds nh stack, of "blk_of off dn"] by blast
    have "slice (unat (in_of off dn)) (unat ?want) block = slice (unat off + unat dn) (unat ?want) F"
      using l(3) [OF pos(4)] pos(3,5) lim(2) by simp
    moreover have "I (dn + ?want) w'"
    proof -
      have "no_hole (store_abs (cs_store st) (w_fs w') ?h) ((unat off + unat (dn + ?want)) div 65536)"
        if "dn + ?want < len"
      proof -
        have lt: "unat dn + unat ?want < unat len"
          using that unat_want(1) [OF dn, of off] by (simp add: word_less_nat_alt)
        note next_pos = pos(8) [OF lt]
        then have "(unat off + unat (dn + ?want)) div 65536 = ?b + 1"
          using unat_want(1) [OF dn, of off] by (simp add: add.assoc [symmetric])
        moreover have "?b * 65536 + 65536 \<le> length F"
          using next_pos lt lim(2) by (simp add: add_mult_distrib)
        ultimately show ?thesis using l(4) by simp
      qed
      then show ?thesis using l(2) by (simp add: I_def)
    qed
    ultimately show ?thesis using l(1) by blast
  qed
  have "I 0 w" using rt nohole by (simp add: I_def)
  then obtain st' w' where "cm_read ev path buf len off st w =
      (Inr (int (unat len)), splice buf 0 (slice (unat off) (unat len) F), st', w')"
    "I len w'" "entry_ok ev path st'" "cs_store st' = cs_store st" "cs_root st' = cs_root st"
    using cm_read_rule [OF e lim' lim(2,3) turn] by blast
  then show ?thesis by (auto simp: I_def)
qed

section \<open>A small system for the witnesses\<close>

definition demo_backend :: HttpBackend where
  "demo_backend = \<lparr>base_url = ''http://h'', bearer_token = []\<rparr>"

definition demo_env :: "(mem_db, mem_world) env" where
  "demo_env = \<lparr>ev_hash = (\<lambda>_. 255), ev_sq = mem_sqlite, ev_cu = mem_curl ''http://h'',
     ev_backend = Some demo_backend, ev_alloc = (\<lambda>m. of_nat (length m + 1)),
     ev_capture = (\<lambda>_. 7), ev_stack = (\<lambda>_. replicate 65536 170)\<rparr>"

definition root_fs :: fsys where
  "root_fs = \<lparr>cwd = [], nodes = [([''c''], Dir)], deny = (\<lambda>_. None), ioerr = (\<lambda>_. None)\<rparr>"

definition demo_world :: "mem_world \<Rightarrow> mem_world world" where
  "demo_world net = \<lparr>w_fs = root_fs, w_net = net\<rparr>"

definition demo_cache :: "mem_db cstate" where
  "demo_cache = fst (CacheManager demo_env ''/c'' (demo_world []))"

lemma demo_root: "resolve root_fs ''/c'' = [''c'']"
  by (simp add: resolve_def absolute_def norm_step_def)

lemma demo_cache_fields: "cs_store demo_cache = BlockStore ''/c'' kBlockSize" "cs_root demo_cache = ''/c''"
  "cs_entries demo_cache = []"
  by (simp_all add: demo_cache_def CacheManager_def Let_def)

lemma demo_store_ok: "store_ok (BlockStore ''/c'' kBlockSize) root_fs"
proof -
  have "fs_wf root_fs" by (auto simp: fs_wf_def root_fs_def lookup_def split: if_splits)
  then show ?thesis
    using demo_root
    by (auto simp: store_ok_def BlockStore_def store_key_def key_defs lookup_def) (auto simp: root_fs_def)
qed

lemma demo_store_empty: "store_abs (BlockStore ''/c'' kBlockSize) root_fs h i = None"
  by (simp add: store_abs_def store_key_def BlockStore_def demo_root blk_key_def lookup_def root_fs_def)

lemma demo_entry_ok: "entry_ok demo_env path demo_cache"
  by (simp add: entry_ok_def demo_cache_fields)

lemma demo_serves: "no_nul path \<Longrightarrow> map_of net path = Some F \<Longrightarrow> serves demo_env map_of path F net"
  by (simp add: serves_def demo_env_def demo_backend_def mem_curl_server) (simp add: no_nul_def)

lemma demo_read_through:
  "no_nul path \<Longrightarrow> map_of net path = Some F \<Longrightarrow>
   read_through demo_env map_of (cs_store demo_cache) path F (demo_world net)"
  by (simp add: read_through_def demo_serves demo_world_def demo_cache_fields demo_store_ok
      coherent_def demo_store_empty)

lemma demo_stack: "length (ev_stack demo_env b) = 65536"
  by (simp add: demo_env_def)

lemma demo_no_hole: "no_hole (store_abs (cs_store demo_cache) (w_fs (demo_world net)) h) 0"
  by (simp add: no_hole_def)

section \<open>Properties of reading\<close>



text \<open>C15: A range whose blocks are completely cached is answered from the block store alone: the
  count and the bytes of the store are returned and neither the network nor the file system is
  touched.\<close>

theorem read_cached_local:
  assumes "store_ok (cs_store st) (w_fs w)" and "entry_ok ev path st"
    and "unat off + unat len < 9223372036854775808" and "unat off + unat len \<le> length G"
    and "unat len \<le> length buf" and "\<And>b. length (ev_stack ev b) = 65536"
    and "range_cached (store_abs (cs_store st) (w_fs w) (hash_hex (ev_hash ev) path)) (unat off) (unat len) G"
  shows "\<exists>st'. cm_read ev path buf len off st w =
    (Inr (int (unat len)), splice buf 0 (slice (unat off) (unat len) G), st', w)"
  using cm_read_cached [OF assms] by blast

text \<open>C32: \<open>read\<close> does not know where an object ends.  For an object shorter than a block that is
  not cached, a read within the first block returns as many bytes as were asked for, also past the
  end of the object; the bytes past the end are the indeterminate contents of the block buffer on
  the stack.\<close>

theorem read_past_end_returns_stack:
  assumes "serves ev content path F (w_net w)" and "store_ok (cs_store st) (w_fs w)" and "entry_ok ev path st"
    and "store_abs (cs_store st) (w_fs w) (hash_hex (ev_hash ev) path) 0 = None"
    and "F \<noteq> []" and "length F < 65536" and "unat off + unat len \<le> 65536" and "unat len \<le> length buf"
    and "\<And>b. length (ev_stack ev b) = 65536"
  shows "\<exists>st' w'. cm_read ev path buf len off st w =
    (Inr (int (unat len)), splice buf 0 (slice (unat off) (unat len) (F @ drop (length F) (ev_stack ev 0))), st', w')"
proof -
  let ?h = "hash_hex (ev_hash ev) path" and ?G = "F @ drop (length F) (ev_stack ev 0)"
  have empty: "block_at (store_abs (cs_store st) (w_fs w) ?h) 0 = []" using assms(4) by (simp add: block_at_def)
  have G: "splice (ev_stack ev 0) 0 (slice (0 * 65536) 65536 F) = ?G"
    using assms(6) by (simp add: splice_def slice_0_all)
  have lim: "unat off + unat len < 9223372036854775808" "unat off + unat len \<le> length ?G"
    using assms(6,7,9) by simp_all
  have "\<exists>block w'. load_block ev st path ?h (blk_off_of off dn) (ev_stack ev (blk_of off dn)) w'' =
        (Inr (Some block), w') \<and>
      slice (unat (in_of off dn)) (unat (want_of len off dn)) block =
        slice (unat off + unat dn) (unat (want_of len off dn)) ?G \<and>
      (dn + want_of len off dn = 0 \<and> w' = w \<or> dn + want_of len off dn = len)"
    if I: "dn = 0 \<and> w'' = w \<or> dn = len" and dn: "dn < len" for dn w''
  proof -
    have z: "dn = 0" "w'' = w" using I dn by auto
    note pos = turn_pos [OF lim(1) dn]
    have "unat off < 65536" using assms(7) dn z(1) by (cases "unat len = 0") (auto simp: word_less_nat_alt)
    then have b: "(unat off + unat dn) div 65536 = 0" by (simp add: z(1))
    have zero: "blk_of off dn = 0" using pos(1) b by (simp add: unat_eq_zero)
    have want: "want_of len off dn = len"
      using assms(7) \<open>unat off < 65536\<close> z(1) by (intro word_unat_eq_iff [THEN iffD2]) (simp add: unat_want_of)
    have "load_block ev st path ?h (blk_off_of off dn) (ev_stack ev 0) w =
        fetch_block ev st path ?h (blk_off_of off dn) (ev_stack ev 0) w"
      using load_block_miss [OF assms(2) hash_ok_hash_hex, of "blk_off_of off dn" 0] pos(2) b empty by simp
    moreover have "\<exists>w'. fetch_block ev st path ?h (blk_off_of off dn) (ev_stack ev 0) w = (Inr (Some ?G), w')"
      using fetch_block_raw [OF assms(1,2) hash_ok_hash_hex [of "ev_hash ev" path], of "blk_off_of off dn" 0 "ev_stack ev 0"]
        pos(2) b assms(5,9) unfolding G by auto
    ultimately show ?thesis using pos(3) b z zero want by auto
  qed
  then show ?thesis
    using cm_read_rule [where I = "\<lambda>dn w'. dn = 0 \<and> w' = w \<or> dn = len", OF assms(3) lim assms(8)] by blast
qed

theorem read_past_end_returns_stack_witness:
  "\<exists>st' w'. cm_read demo_env ''/a'' [0, 0, 0] 3 1 demo_cache (demo_world [(''/a'', [5, 6])]) =
     (Inr 3, [6, 170, 170], st', w')"
proof -
  have two: "replicate 2 x = [x, x]" for x :: byte by (simp add: numeral_2_eq_2)
  have bytes: "slice (Suc 0) 3 (5 # 6 # drop (Suc (Suc 0)) (ev_stack demo_env 0)) = [6, 170, 170 :: byte]"
    by (simp add: slice_def demo_env_def two)
  have store: "store_ok (cs_store demo_cache) (w_fs (demo_world net))"
    "store_abs (cs_store demo_cache) (w_fs (demo_world net)) h i = None" for net h i
    by (simp_all add: demo_world_def demo_cache_fields demo_store_ok demo_store_empty)
  have srv: "serves demo_env map_of ''/a'' [5, 6] (w_net (demo_world [(''/a'', [5, 6])]))"
    by (rule demo_serves) (simp_all add: no_nul_def demo_world_def)
  have "\<exists>st' w'. cm_read demo_env ''/a'' [0, 0, 0] 3 1 demo_cache (demo_world [(''/a'', [5, 6])]) =
      (Inr (int (unat (3 :: u64))), splice [0, 0, 0] 0
        (slice (unat (1 :: u64)) (unat (3 :: u64)) ([5, 6] @ drop (length [5, 6 :: byte]) (ev_stack demo_env 0))), st', w')"
    by (rule read_past_end_returns_stack [OF srv store(1) demo_entry_ok store(2) _ _ _ _ demo_stack]) simp_all
  then show ?thesis using bytes by (simp add: splice_def)
qed

lemma file_write_gap: "d \<noteq> [] \<Longrightarrow> n \<le> off \<Longrightarrow> slice 0 n (file_write [] off d) = replicate n 0"
  by (simp add: slice_def file_write_def)

text \<open>A read of one whole block: what the block buffer holds after it was loaded.\<close>

lemma cm_read_block:
  assumes entry: "entry_ok ev path st" and off: "unat off = k * 65536" "k < 32768" and buf: "length buf = 65536"
    and F: "(k + 1) * 65536 \<le> length F"
    and load: "load_block ev st path (hash_hex (ev_hash ev) path) off (ev_stack ev (of_nat k)) w =
      (Inr (Some (slice (k * 65536) 65536 F)), w1)"
  shows "\<exists>st1. cm_read ev path buf kBlockSize off st w = (Inr 65536, slice (k * 65536) 65536 F, st1, w1) \<and>
    entry_ok ev path st1 \<and> cs_store st1 = cs_store st"
proof -
  let ?h = "hash_hex (ev_hash ev) path"
  have lim: "unat off + unat kBlockSize < 9223372036854775808" "unat off + unat kBlockSize \<le> length F"
    "unat kBlockSize \<le> length buf"
    using off buf F by simp_all
  have turn: "\<exists>block w'. load_block ev st path ?h (blk_off_of off dn) (ev_stack ev (blk_of off dn)) w'' =
        (Inr (Some block), w') \<and>
      slice (unat (in_of off dn)) (unat (want_of kBlockSize off dn)) block =
        slice (unat off + unat dn) (unat (want_of kBlockSize off dn)) F \<and>
      (dn + want_of kBlockSize off dn = 0 \<and> w' = w \<or> dn + want_of kBlockSize off dn = kBlockSize \<and> w' = w1)"
    if I: "dn = 0 \<and> w'' = w \<or> dn = kBlockSize \<and> w'' = w1" and dn: "dn < kBlockSize" for dn w''
  proof -
    have z: "dn = 0" "w'' = w" using I dn by auto
    have "blk_of off dn = of_nat k" "blk_off_of off dn = off" "unat (in_of off dn) = 0" "want_of kBlockSize off dn = kBlockSize"
      unfolding z(1) using off(1)
      by (simp_all add: word_unat_eq_iff unat_blk_of unat_blk_off_of unat_in_of unat_want_of unat_of_nat
          order_less_trans [OF off(2)])
    then show ?thesis using load z off(1) by (simp add: slice_slice)
  qed
  have "kBlockSize \<noteq> 0" by (simp add: kBlockSize_def)
  then obtain st1 where "cm_read ev path buf kBlockSize off st w =
      (Inr 65536, splice buf 0 (slice (unat off) 65536 F), st1, w1)" "entry_ok ev path st1" "cs_store st1 = cs_store st"
    using cm_read_rule [where I = "\<lambda>dn w'. dn = 0 \<and> w' = w \<or> dn = kBlockSize \<and> w' = w1" and w = w,
        OF entry lim turn] by auto
  then show ?thesis using off(1) buf F by (auto simp: splice_0_full length_slice)
qed

text \<open>C31: Random access corrupts the cache.  Reading a whole block other than the first of an
  object that is not cached yet returns the right bytes, but the block store leaves a hole before
  them in the part file; a following read of the first block finds a completely cached block of
  zeros there and returns zeros instead of the object's bytes, without asking the server.\<close>

theorem read_after_seek_returns_zeros:
  assumes "serves ev content path F (w_net w)" and "store_ok (cs_store st) (w_fs w)" and "entry_ok ev path st"
    and "store_abs (cs_store st) (w_fs w) (hash_hex (ev_hash ev) path) 0 = None"
    and "0 < k" and "k < 32768" and "(k + 1) * 65536 \<le> length F" and "unat off = k * 65536"
    and "length buf = 65536" and "\<And>b. length (ev_stack ev b) = 65536"
  shows "\<exists>st1 w1 st2. cm_read ev path buf kBlockSize off st w = (Inr 65536, slice (k * 65536) 65536 F, st1, w1) \<and>
    cm_read ev path buf kBlockSize 0 st1 w1 = (Inr 65536, replicate 65536 0, st2, w1)"
proof -
  let ?h = "hash_hex (ev_hash ev) path" and ?d = "slice (k * 65536) 65536 F"
  have part: "k * 65536 div part_size = 0" "k * 65536 mod part_size = k * 65536" using assms(6) by simp_all
  have len: "length ?d = 65536" using assms(7) by (simp add: length_slice)
  have empty: "block_at (store_abs (cs_store st) (w_fs w) ?h) k = []"
    unfolding block_at_def part using assms(4) by simp
  obtain net r fs1 where f: "fetch_block ev st path ?h off (ev_stack ev (of_nat k)) w =
      (Inr (Some (splice (ev_stack ev (of_nat k)) 0 ?d)), w\<lparr>w_net := net, w_fs := fs1\<rparr>)"
    and wr: "bs_write (cs_store st) ?h ?d off False (w_fs w) = (r, fs1)"
    using fetch_block_raw [OF assms(1,2) hash_ok_hash_hex assms(8) _ _ assms(10)] assms(6,7) by fastforce
  let ?w1 = "w\<lparr>w_net := net, w_fs := fs1\<rparr>"
  have blk: "splice (ev_stack ev (of_nat k)) 0 ?d = ?d" using len assms(10) by (intro splice_0_full) simp
  have load: "load_block ev st path ?h off (ev_stack ev (of_nat k)) w = (Inr (Some ?d), ?w1)"
    using load_block_miss [OF assms(2) hash_ok_hash_hex assms(8)] empty f blk by simp
  obtain st1 where first: "cm_read ev path buf kBlockSize off st w = (Inr 65536, ?d, st1, ?w1)" "entry_ok ev path st1"
    "cs_store st1 = cs_store st"
    using cm_read_block [OF assms(3,8,6,9,7) load] by blast
  have ok1: "store_ok (cs_store st1) (w_fs ?w1)"
    using bs.wr_ok [OF assms(2) hash_ok_hash_hex wr] first(3) by simp
  have "store_abs (cs_store st1) (w_fs ?w1) ?h 0 = Some (file_write [] (k * 65536) ?d)"
    using bs.wr_contents [OF assms(2) hash_ok_hash_hex hash_ok_hash_hex wr, where j = 0] first(3) assms(4,8) part
    by simp
  moreover have "?d \<noteq> []" using len by auto
  ultimately have "block_at (store_abs (cs_store st1) (w_fs ?w1) ?h) 0 = replicate 65536 0"
    using assms(5) by (simp add: block_at_def file_write_gap)
  then have "range_cached (store_abs (cs_store st1) (w_fs ?w1) ?h) (unat (0 :: u64)) (unat kBlockSize) (replicate 65536 0)"
    by (intro range_cached_first) simp_all
  then obtain st2 where "cm_read ev path buf kBlockSize 0 st1 ?w1 =
      (Inr (int (unat kBlockSize)), splice buf 0 (slice (unat (0 :: u64)) (unat kBlockSize) (replicate 65536 0)), st2, ?w1)"
    using cm_read_cached [OF ok1 first(2) _ _ _ assms(10), of 0 kBlockSize "replicate 65536 0" buf] assms(9) by auto
  then show ?thesis
    using first(1) assms(9) by (auto simp: splice_0_full slice_0_all)
qed

lemma demo_store:
  "store_ok (cs_store demo_cache) (w_fs (demo_world net))"
  "store_abs (cs_store demo_cache) (w_fs (demo_world net)) h i = None"
  by (simp_all add: demo_world_def demo_cache_fields demo_store_ok demo_store_empty)

theorem read_after_seek_returns_zeros_witness:
  "\<exists>st1 w1 st2. cm_read demo_env ''/a'' (replicate 65536 0) kBlockSize 65536 demo_cache
       (demo_world [(''/a'', replicate 131072 9)]) = (Inr 65536, replicate 65536 9, st1, w1) \<and>
     cm_read demo_env ''/a'' (replicate 65536 0) kBlockSize 0 st1 w1 = (Inr 65536, replicate 65536 0, st2, w1)"
proof -
  have srv: "serves demo_env map_of ''/a'' (replicate 131072 9) (w_net (demo_world [(''/a'', replicate 131072 9)]))"
    by (rule demo_serves) (simp_all add: no_nul_def demo_world_def)
  show ?thesis
    using read_after_seek_returns_zeros [OF srv demo_store(1) demo_entry_ok demo_store(2), of 1 65536
        "replicate 65536 0"] demo_stack
    by (simp add: slice_def)
qed

theorem read_cached_local_witness:
  "\<exists>st'. cm_read demo_env ''/a'' [0, 0] 2 5 demo_cache
       \<lparr>w_fs = snd (bs_write (BlockStore ''/c'' kBlockSize) (hash_hex (ev_hash demo_env) ''/a'')
                     (replicate 65536 9) 0 False root_fs), w_net = []\<rparr> =
     (Inr 2, [9, 9], st',
       \<lparr>w_fs = snd (bs_write (BlockStore ''/c'' kBlockSize) (hash_hex (ev_hash demo_env) ''/a'')
                     (replicate 65536 9) 0 False root_fs), w_net = []\<rparr>)"
proof -
  let ?h = "hash_hex (ev_hash demo_env) ''/a''"
  obtain r fs' where wr: "bs_write (BlockStore ''/c'' kBlockSize) ?h (replicate 65536 9) 0 False root_fs = (r, fs')"
    by force
  have ok: "store_ok (cs_store demo_cache) (w_fs \<lparr>w_fs = fs', w_net = []\<rparr>)"
    using bs.wr_ok [OF demo_store_ok hash_ok_hash_hex wr] by (simp add: demo_cache_fields)
  have "store_abs (BlockStore ''/c'' kBlockSize) fs' ?h 0 = Some (file_write [] 0 (replicate 65536 9))"
    using bs.wr_contents [OF demo_store_ok hash_ok_hash_hex hash_ok_hash_hex wr, where j = 0]
    by (simp add: demo_store_empty)
  moreover have "file_write [] 0 (replicate 65536 9) = replicate 65536 9" by (simp add: file_write_def)
  ultimately have "block_at (store_abs (BlockStore ''/c'' kBlockSize) fs' ?h) 0 = replicate 65536 9"
    by (simp add: block_at_def slice_0_all)
  then have "range_cached (store_abs (cs_store demo_cache) (w_fs \<lparr>w_fs = fs', w_net = []\<rparr>) ?h)
      (unat (5 :: u64)) (unat (2 :: u64)) (replicate 65536 9)"
    by (intro range_cached_first) (simp_all add: demo_cache_fields)
  moreover have "slice 5 2 (replicate 65536 9) = [9, 9 :: byte]"
    by (simp add: slice_def numeral_2_eq_2 [symmetric]) (simp add: numeral_2_eq_2)
  ultimately show ?thesis
    using read_cached_local [OF ok demo_entry_ok _ _ _ demo_stack, of 5 2 "replicate 65536 9" "[0, 0]"] wr
    by (simp add: splice_def)
qed

end
