(* ===== verification/Cache_Writes.thy ===== *)
theory Cache_Writes
  imports Cache_Reads
begin

text \<open>
  What \<open>CacheManager::write\<close> does to the store, to the dirty bitmap and to the mirrored file,
  and that a read returns what was written.  \<open>mirror_ok\<close> says where the mirrored file may lie:
  its directory exists and it does not fall on the directories and part files of the block store,
  which share the cache root with it.
\<close>

section \<open>The mirrored file\<close>

definition mirror_ok :: "bstore \<Rightarrow> string \<Rightarrow> string \<Rightarrow> fsys \<Rightarrow> bool" where
  "mirror_ok store rt path fs \<longleftrightarrow>
     (let d = mirror_path rt path; mk = resolve fs d; pk = resolve fs (parent_path d); rk = store_key store fs
      in parent_path d \<noteq> [] \<and> lookup fs pk = Some Dir \<and> mk \<noteq> pk \<and> mk \<noteq> rk \<and>
         (\<forall>h. hash_ok h \<longrightarrow> mk \<noteq> shard1_key rk h \<and> mk \<noteq> shard2_key rk h \<and> (\<forall>i. mk \<noteq> blk_key rk h i)))"

text \<open>A change of the file system at one path only, which makes no directory there.\<close>

definition only_at :: "key \<Rightarrow> fsys \<Rightarrow> fsys \<Rightarrow> bool" where
  "only_at k fs fs' \<longleftrightarrow> same_env fs fs' \<and> fs_wf fs' \<and> (\<forall>k'. k' \<noteq> k \<longrightarrow> lookup fs' k' = lookup fs k') \<and>
     (lookup fs' k = Some Dir \<longrightarrow> lookup fs k = Some Dir)"

lemma only_at_trans: "only_at k fs fs1 \<Longrightarrow> only_at k fs1 fs2 \<Longrightarrow> only_at k fs fs2"
  by (auto simp: only_at_def intro: same_env_trans)

lemma only_at_refl: "fs_wf fs \<Longrightarrow> only_at k fs fs"
  by (simp add: only_at_def)

lemma only_at_open:
  assumes "fs_wf fs" and "sys_open p fl fs = (r, fs')"
  shows "only_at (resolve fs p) fs fs' \<and> (r = Inr (resolve fs p) \<or> (\<exists>e. r = Inl e))"
proof -
  have "(k' \<noteq> resolve fs p \<longrightarrow> lookup fs' k' = lookup fs k') \<and>
      (lookup fs' (resolve fs p) = Some Dir \<longrightarrow> lookup fs (resolve fs p) = Some Dir)" for k'
  proof (cases "resolve fs p = []")
    case True
    with assms(2) show ?thesis by (auto simp: sys_open_def Let_def split: if_splits option.splits)
  next
    case False
    with assms(2) show ?thesis
      by (auto simp: sys_open_def Let_def lookup_set_node split: if_splits option.splits node.splits)
  qed
  moreover have "r = Inr (resolve fs p) \<or> (\<exists>e. r = Inl e)"
    using assms(2) by (auto simp: sys_open_def Let_def split: if_splits option.splits node.splits)
  ultimately show ?thesis
    using sys_open_env [of fs p fl] sys_open_wf [OF assms(1), of p fl] assms(2)
    by (simp add: only_at_def)
qed

lemma only_at_pwrite:
  assumes "fs_wf fs" shows "only_at k fs (snd (sys_pwrite k d off fs))"
proof -
  have "(k' \<noteq> k \<longrightarrow> lookup (snd (sys_pwrite k d off fs)) k' = lookup fs k') \<and>
      (lookup (snd (sys_pwrite k d off fs)) k = Some Dir \<longrightarrow> lookup fs k = Some Dir)" for k'
  proof (cases "k = []")
    case True
    then show ?thesis by (simp add: sys_pwrite_def split: option.splits)
  next
    case False
    then show ?thesis by (auto simp: sys_pwrite_def lookup_set_node split: option.splits node.splits)
  qed
  then show ?thesis using sys_pwrite_env [of fs] sys_pwrite_wf [OF assms] by (simp add: only_at_def)
qed

text \<open>No directory but those of the shards is made.\<close>

definition only_shards :: "bstore \<Rightarrow> fsys \<Rightarrow> fsys \<Rightarrow> bool" where
  "only_shards store fs fs' \<longleftrightarrow> same_env fs fs' \<and> (\<forall>k. lookup fs' k = Some Dir \<longrightarrow> lookup fs k = Some Dir \<or>
     (\<exists>h. k = shard1_key (store_key store fs) h \<or> k = shard2_key (store_key store fs) h))"

lemma only_shards_refl: "only_shards store fs fs"
  by (simp add: only_shards_def)

lemma only_shards_trans:
  assumes "only_shards store fs fs1" and "only_shards store fs1 fs2"
  shows "only_shards store fs fs2"
proof -
  have "store_key store fs1 = store_key store fs" using assms(1) by (simp add: only_shards_def store_key_env)
  then show ?thesis using assms unfolding only_shards_def by (metis same_env_trans)
qed

lemma only_at_shards: "only_at k fs fs' \<Longrightarrow> only_shards store fs fs'"
  unfolding only_at_def only_shards_def by metis

text \<open>The files a write may change: shards and parts of the store, and the mirrored file.  No other
  directory goes away.\<close>

definition cache_keys :: "key \<Rightarrow> key set" where
  "cache_keys rk = {k. \<exists>h i. hash_ok h \<and> (k = shard1_key rk h \<or> k = shard2_key rk h \<or> k = blk_key rk h i)}"

definition cache_frame :: "bstore \<Rightarrow> string \<Rightarrow> string \<Rightarrow> fsys \<Rightarrow> fsys \<Rightarrow> bool" where
  "cache_frame store rt path fs fs' \<longleftrightarrow> (\<forall>k. k \<noteq> resolve fs (mirror_path rt path) \<longrightarrow>
     (k \<notin> cache_keys (store_key store fs) \<longrightarrow> lookup fs' k = lookup fs k) \<and>
     (lookup fs k = Some Dir \<longrightarrow> lookup fs' k = Some Dir))"

lemma cache_frame_refl [simp]: "cache_frame store rt path fs fs"
  by (simp add: cache_frame_def)

lemma cache_frame_trans:
  assumes "cache_frame store rt path fs fs1" and "cache_frame store rt path fs1 fs2" and "same_env fs fs1"
  shows "cache_frame store rt path fs fs2"
  using assms by (simp add: cache_frame_def store_key_env [OF assms(3)] same_env_resolve [OF assms(3)])

lemma only_at_frame: "only_at (resolve fs (mirror_path rt path)) fs fs' \<Longrightarrow> cache_frame store rt path fs fs'"
  by (simp add: only_at_def cache_frame_def)

lemma bs_write_frame:
  assumes "store_ok store fs" and "hash_ok h" and "bs_write store h d off m fs = (r, fs')"
  shows "cache_frame store rt path fs fs'"
  using bs_write_ok(4) [OF assms] assms(2) store_okD(8) [OF assms(1,2)] by (auto simp: cache_frame_def cache_keys_def)

lemma mirror_okD:
  assumes "mirror_ok store rt path fs"
  shows "parent_path (mirror_path rt path) \<noteq> []"
    and "lookup fs (resolve fs (parent_path (mirror_path rt path))) = Some Dir"
    and "resolve fs (mirror_path rt path) \<noteq> resolve fs (parent_path (mirror_path rt path))"
    and "resolve fs (mirror_path rt path) \<noteq> store_key store fs"
    and "hash_ok h \<Longrightarrow> resolve fs (mirror_path rt path) \<noteq> shard1_key (store_key store fs) h"
    and "hash_ok h \<Longrightarrow> resolve fs (mirror_path rt path) \<noteq> shard2_key (store_key store fs) h"
    and "hash_ok h \<Longrightarrow> resolve fs (mirror_path rt path) \<noteq> blk_key (store_key store fs) h i"
  using assms by (simp_all add: mirror_ok_def Let_def)

lemma mirror_ok_keep:
  assumes "mirror_ok store rt path fs" and "same_env fs fs'"
    and "lookup fs' (resolve fs (parent_path (mirror_path rt path))) = Some Dir"
  shows "mirror_ok store rt path fs'"
  using assms by (simp add: mirror_ok_def Let_def same_env_resolve store_key_env)

lemma only_at_store_ok:
  assumes ok: "store_ok store fs" and at: "only_at k fs fs'"
    and k: "k \<noteq> store_key store fs" "k \<notin> cache_keys (store_key store fs)"
  shows "store_ok store fs'"
proof -
  let ?rk = "store_key store fs"
  note sd = store_okD [OF ok]
  have env: "same_env fs fs'" and wf: "fs_wf fs'" and same: "\<And>k'. k' \<noteq> k \<Longrightarrow> lookup fs' k' = lookup fs k'"
    using at sd(1) by (auto simp: only_at_def)
  have "lookup fs' (shard1_key ?rk h) = lookup fs (shard1_key ?rk h)"
    "lookup fs' (shard2_key ?rk h) = lookup fs (shard2_key ?rk h)"
    "lookup fs' (blk_key ?rk h i) = lookup fs (blk_key ?rk h i)" if "hash_ok h" for h i
    using k(2) that by (intro same, auto simp: cache_keys_def)+
  moreover have "lookup fs' ?rk = lookup fs ?rk" using same [of ?rk] k(1) by simp
  ultimately show ?thesis using sd by (intro store_ok_change [OF ok env wf]) simp_all
qed

text \<open>A change of the mirrored file is none of the store.\<close>

lemma only_at_mirror:
  assumes "store_ok store fs" and "mirror_ok store rt path fs"
    and "only_at (resolve fs (mirror_path rt path)) fs fs'"
  shows "store_ok store fs' \<and> mirror_ok store rt path fs' \<and>
    (hash_ok h \<longrightarrow> store_abs store fs' h = store_abs store fs h) \<and>
    resolve fs' (mirror_path rt path) = resolve fs (mirror_path rt path)"
proof -
  let ?mk = "resolve fs (mirror_path rt path)" and ?rk = "store_key store fs"
  note md = mirror_okD [OF assms(2)]
  have env: "same_env fs fs'" and same: "\<And>k. k \<noteq> ?mk \<Longrightarrow> lookup fs' k = lookup fs k"
    using assms(3) by (auto simp: only_at_def)
  note res = same_env_resolve [OF env] and rk = store_key_env [OF env, of store]
  have "store_ok store fs'"
    using md by (intro only_at_store_ok [OF assms(1,3)]) (auto simp: cache_keys_def)
  moreover have "mirror_ok store rt path fs'"
    using mirror_ok_keep [OF assms(2) env] same md(2,3) by simp
  moreover have "store_abs store fs' h i = store_abs store fs h i" if "hash_ok h" for i
    using same [of "blk_key ?rk h i"] md(7) [OF that, of i] by (simp add: store_abs_def rk)
  ultimately show ?thesis by (auto simp: res)
qed

text \<open>The two calls on the mirrored file in one turn.\<close>

lemma mirror_step:
  assumes "store_ok (cs_store st) fs" and "mirror_ok (cs_store st) (cs_root st) path fs"
    and "fd = None \<or> fd = Some (resolve fs (mirror_path (cs_root st) path))"
  shows "\<exists>fd' fs1. ensure_dst st path fd fs = (Inr fd', fs1) \<and>
    (fd' = None \<or> fd' = Some (resolve fs (mirror_path (cs_root st) path))) \<and>
    only_at (resolve fs (mirror_path (cs_root st) path)) fs (mirror_write fd' d off fs1)"
proof -
  let ?dst = "mirror_path (cs_root st) path" let ?mk = "resolve fs ?dst"
  note md = mirror_okD [OF assms(2)]
  have wf: "fs_wf fs" using assms(1) by (rule store_okD(1))
  obtain fd' fs1 where e: "ensure_dst st path fd fs = (Inr fd', fs1)" "fd' = None \<or> fd' = Some ?mk" "only_at ?mk fs fs1"
  proof (cases fd)
    case (Some k)
    with assms(3) wf that show ?thesis by (simp add: ensure_dst_def only_at_refl)
  next
    case None
    obtain r fs2 where op: "sys_open ?dst [O_RDWR, O_CREAT] fs = (r, fs2)" by force
    note o = only_at_open [OF wf op]
    have "ensure_dst st path fd fs = (case r of Inl _ \<Rightarrow> (Inr None, fs2) | Inr k \<Rightarrow> (Inr (Some k), fs2))"
      using None op create_directories_existing [OF wf md(1,2)] by (simp add: ensure_dst_def Let_def)
    with o that show ?thesis by auto
  qed
  have "only_at ?mk fs1 (mirror_write fd' d off fs1)"
    using e(2,3) only_at_pwrite [of fs1 ?mk d "sint off"]
    by (auto simp: mirror_write_def only_at_def)
  with e show ?thesis by (blast intro: only_at_trans)
qed

section \<open>One block\<close>

lemma block_split: "b * 65536 div part_size = b div 32768" "b * 65536 mod part_size = b mod 32768 * 65536"
  for b :: nat
  using div_mult2_eq [of "b * 65536" 65536 32768] mult_mod_left [of b 32768 65536] by simp_all

text \<open>Writing a whole block: the block itself, and the complete ones beside it.\<close>

lemma bs_write_block:
  assumes ok: "store_ok store fs" "hash_ok h" and boff: "unat boff = b * 65536" and d: "length d = 65536"
    and wr: "bs_write store h d boff m fs = (r, fs')"
  shows "block_at (store_abs store fs' h) b = d"
    and "b' \<noteq> b \<Longrightarrow> length (block_at (store_abs store fs h) b') = 65536 \<Longrightarrow>
      block_at (store_abs store fs' h) b' = block_at (store_abs store fs h) b'"
proof -
  note c = bs.wr_contents [OF ok ok(2) wr, unfolded boff block_split]
  have "slice off 65536 (file_write x off d) = d" for x off using file_write_read_back [of off d x] d by simp
  then show "block_at (store_abs store fs' h) b = d" by (simp add: block_at_def block_split c)
  assume ne: "b' \<noteq> b" and full: "length (block_at (store_abs store fs h) b') = 65536"
  then obtain x where x: "store_abs store fs h (b' div 32768) = Some x"
      "b' mod 32768 * 65536 + 65536 \<le> length x"
    by (auto simp: block_at_def block_split length_slice min_def split: option.splits if_splits)
  have "slice (b' mod 32768 * 65536) 65536 (file_write x (b mod 32768 * 65536) d) = slice (b' mod 32768 * 65536) 65536 x"
    if "b' div 32768 = b div 32768"
  proof (rule file_write_frame [OF x(2)])
    have "b' mod 32768 \<noteq> b mod 32768" using that ne by (metis div_mult_mod_eq)
    then show "b' mod 32768 * 65536 + 65536 \<le> b mod 32768 * 65536 \<or>
        b mod 32768 * 65536 + length d \<le> b' mod 32768 * 65536"
      using d by linarith
  qed
  then show "block_at (store_abs store fs' h) b' = block_at (store_abs store fs h) b'"
    using x(1) by (auto simp: block_at_def block_split c)
qed

lemma bs_write_mirror:
  assumes ok: "store_ok store fs" "hash_ok h" and m: "mirror_ok store rt path fs"
    and wr: "bs_write store h d off dm fs = (r, fs')"
  shows "mirror_ok store rt path fs'" and "resolve fs' (mirror_path rt path) = resolve fs (mirror_path rt path)"
proof -
  note w = bs_write_ok [OF ok wr] and md = mirror_okD [OF m]
  note res = same_env_resolve [OF w(2)] and rk = store_key_env [OF w(2), of store]
  show "resolve fs' (mirror_path rt path) = resolve fs (mirror_path rt path)" by (rule res)
  have "lookup fs' (resolve fs (parent_path (mirror_path rt path))) = Some Dir"
    using md(2) store_okD(8) [OF ok(1,2)] unfolding w(4) by auto
  with mirror_ok_keep [OF m w(2)] show "mirror_ok store rt path fs'" .
qed

lemma write_block_ok:
  assumes ok: "store_ok store fs" "hash_ok h" and boff: "unat boff = b * 65536"
    and d: "unat in_blk + length d \<le> 65536" and m: "mirror_ok store rt path fs"
  shows "\<exists>fs'. write_block store h d in_blk boff fs = (Inr (), fs') \<and>
    store_ok store fs' \<and> mirror_ok store rt path fs' \<and>
    resolve fs' (mirror_path rt path) = resolve fs (mirror_path rt path) \<and>
    block_at (store_abs store fs' h) b =
      splice (splice (replicate 65536 0) 0 (block_at (store_abs store fs h) b)) (unat in_blk) d \<and>
    (\<forall>b'. b' \<noteq> b \<and> length (block_at (store_abs store fs h) b') = 65536 \<longrightarrow>
       block_at (store_abs store fs' h) b' = block_at (store_abs store fs h) b') \<and>
    only_shards store fs fs' \<and> cache_frame store rt path fs fs'"
proof -
  let ?old = "splice (replicate 65536 0) 0 (block_at (store_abs store fs h) b)"
  obtain r fs' where wr: "bs_write store h (splice ?old (unat in_blk) d) boff True fs = (r, fs')" by force
  have "length ?old = 65536" using length_block_at [of "store_abs store fs h" b] by (simp add: length_splice)
  then have len: "length (splice ?old (unat in_blk) d) = 65536" using d by (simp add: length_splice)
  have "write_block store h d in_blk boff fs = (Inr (), fs')"
    using read_block [OF ok boff, of "replicate 65536 0"] wr bs.wr_result [OF ok wr] by (simp add: write_block_def)
  moreover have "only_shards store fs fs'"
    using bs_write_ok [OF ok wr] by (auto simp: only_shards_def split: if_splits)
  ultimately show ?thesis
    using bs.wr_ok [OF ok wr] bs_write_mirror [OF ok m wr] bs_write_block [OF ok boff len wr] bs_write_frame [OF ok wr] by blast
qed

section \<open>The loop\<close>

lemma SIZE_MAX_unat: "unat SIZE_MAX = 18446744073709551615"
  by (simp add: unsigned_minus_1_eq_mask mask_eq_exp_minus_1)

text \<open>The first \<open>n\<close> bytes of the buffer are in the blocks of the store from \<open>off\<close> on, and
  the blocks are marked dirty.\<close>

definition written :: "(nat \<Rightarrow> bytes option) \<Rightarrow> nat \<Rightarrow> nat \<Rightarrow> bytes \<Rightarrow> bool" where
  "written c off n buf \<longleftrightarrow>
     (\<forall>p < n. length (block_at c ((off + p) div 65536)) = 65536 \<and>
        block_at c ((off + p) div 65536) ! ((off + p) mod 65536) = buf ! p)"

definition marked :: "'db mstore \<Rightarrow> string \<Rightarrow> nat \<Rightarrow> nat \<Rightarrow> bool" where
  "marked m h off n \<longleftrightarrow>
     (\<forall>p < n. dirty_at m h (of_nat ((off + p) div 65536 * 65536 div part_size)) ((off + p) div 65536))"

lemma in_block:
  fixes off dn p want :: nat
  assumes "dn \<le> p" and "p < dn + want" and "(off + dn) mod 65536 + want \<le> 65536"
  shows "(off + p) div 65536 = (off + dn) div 65536" and "(off + p) mod 65536 = (off + dn) mod 65536 + (p - dn)"
proof -
  have eq: "off + p = (off + dn) mod 65536 + (p - dn) + (off + dn) div 65536 * 65536"
    using assms(1) div_mult_mod_eq [of "off + dn" 65536] by linarith
  have lt: "(off + dn) mod 65536 + (p - dn) < 65536" using assms by linarith
  show "(off + p) div 65536 = (off + dn) div 65536"
    using arg_cong [OF eq, of "\<lambda>x. x div 65536"] lt by (simp only: div_mult_self1 div_less)
  show "(off + p) mod 65536 = (off + dn) mod 65536 + (p - dn)"
    using arg_cong [OF eq, of "\<lambda>x. x mod 65536"] lt by (simp only: mod_mult_self1 mod_less)
qed

lemma earlier_in_block:
  fixes off dn p :: nat
  assumes "p < dn" and "(off + p) div 65536 = (off + dn) div 65536"
  shows "(off + p) mod 65536 < (off + dn) mod 65536"
  using assms div_mult_mod_eq [of "off + p" 65536] div_mult_mod_eq [of "off + dn" 65536] by linarith

lemma written_step:
  assumes w: "written c off dn buf" and len: "dn + want \<le> length buf"
    and inb: "(off + dn) mod 65536 + want \<le> 65536"
    and new: "block_at c' ((off + dn) div 65536) =
      splice (splice (replicate 65536 0) 0 (block_at c ((off + dn) div 65536))) ((off + dn) mod 65536) (slice dn want buf)"
    and old: "\<forall>b. b \<noteq> (off + dn) div 65536 \<and> length (block_at c b) = 65536 \<longrightarrow> block_at c' b = block_at c b"
  shows "written c' off (dn + want) buf"
  unfolding written_def
proof (intro allI impI)
  fix p assume p: "p < dn + want"
  let ?b = "(off + dn) div 65536" and ?bp = "(off + p) div 65536" and ?i = "(off + p) mod 65536"
  let ?z = "splice (replicate 65536 0) 0 (block_at c ?b)"
  have zl: "length ?z = 65536" using length_block_at [of c ?b] by (simp add: length_splice)
  have sl: "length (slice dn want buf) = want" using len by (simp add: length_slice)
  have nl: "length (block_at c' ?b) = 65536" using zl sl inb by (simp add: new length_splice)
  show "length (block_at c' ?bp) = 65536 \<and> block_at c' ?bp ! ?i = buf ! p"
  proof (cases "p < dn")
    case True
    then have pw: "length (block_at c ?bp) = 65536" "block_at c ?bp ! ?i = buf ! p"
      using w by (auto simp: written_def)
    show ?thesis
    proof (cases "?bp = ?b")
      case False
      with old pw show ?thesis by simp
    next
      case same: True
      then have "block_at c' ?b ! ?i = ?z ! ?i"
        using earlier_in_block [OF True same] zl sl inb by (simp add: new nth_splice)
      also have "\<dots> = block_at c ?b ! ?i" using pw(1) same by (simp add: nth_splice)
      finally show ?thesis using same pw(2) nl by simp
    qed
  next
    case False
    then have dp: "dn \<le> p" by simp
    note ib = in_block [OF dp p inb]
    have "(off + dn) mod 65536 \<le> ?i" "?i < (off + dn) mod 65536 + want" "?i - (off + dn) mod 65536 = p - dn"
      using ib(2) p dp by linarith+
    then have "block_at c' ?b ! ?i = slice dn want buf ! (p - dn)"
      using zl sl inb by (simp add: new nth_splice)
    also have "\<dots> = buf ! p" using p dp len by (simp add: nth_slice)
    finally show ?thesis using ib nl by simp
  qed
qed

text \<open>What holds between two turns.\<close>

definition write_inv ::
    "string \<Rightarrow> bytes \<Rightarrow> nat \<Rightarrow> bstore \<Rightarrow> string \<Rightarrow> string \<Rightarrow> 'w world \<Rightarrow> nat \<Rightarrow> key option \<Rightarrow> 'db cstate
      \<Rightarrow> 'w world \<Rightarrow> bool"
  where
  "write_inv h buf off store rt path w0 dn fd st w \<longleftrightarrow>
     cs_store st = store \<and> cs_root st = rt \<and> w_net w = w_net w0 \<and> only_shards store (w_fs w0) (w_fs w) \<and>
     cache_frame store rt path (w_fs w0) (w_fs w) \<and>
     store_ok store (w_fs w) \<and> mirror_ok store rt path (w_fs w) \<and>
     (fd = None \<or> fd = Some (resolve (w_fs w) (mirror_path rt path))) \<and>
     written (store_abs store (w_fs w) h) off dn buf \<and> marked (cs_meta st) h off dn"

text \<open>Marking the block that holds the bytes from dn on extends the marked prefix by a turn's bytes.\<close>

lemma marked_step:
  assumes old: "marked m0 h off dn"
    and m: "\<And>h' i' b. dirty_at m h' i' b \<longleftrightarrow> dirty_at m0 h' i' b \<or> h' = h \<and> i' = boff div kMaxPartSize \<and> b = blk"
    and blk: "blk = (off + dn) div 65536" "unat boff = (off + dn) div 65536 * 65536"
    and want: "(off + dn) mod 65536 + want \<le> 65536"
  shows "marked m h off (dn + want)"
  unfolding marked_def
proof (intro allI impI)
  fix p assume p: "p < dn + want"
  show "dirty_at m h (of_nat ((off + p) div 65536 * 65536 div part_size)) ((off + p) div 65536)"
  proof (cases "p < dn")
    case True
    with old show ?thesis unfolding m by (simp add: marked_def)
  next
    case False
    have "of_nat (unat (boff div kMaxPartSize)) = boff div kMaxPartSize" by simp
    then have "boff div kMaxPartSize = of_nat ((off + dn) div 65536 * 65536 div part_size)"
      using unat_part_idx [of boff] blk(2) by simp
    moreover have "(off + p) div 65536 = (off + dn) div 65536" using False p want by (intro in_block(1)) simp_all
    ultimately show ?thesis unfolding m using blk(1) by simp
  qed
qed

lemma write_turn_inv:
  assumes lim: "unat off + unat len < 9223372036854775808" "unat len \<le> length buf" "dn < len"
    and h: "hash_ok (ce_hash_hex ce)"
    and inv: "write_inv (ce_hash_hex ce) buf (unat off) store rt path w0 (unat dn) fd st w"
  shows "\<exists>fd' st' w'. write_turn path a ce buf len off dn fd st w = (Inr fd', st', w') \<and>
    cs_entries st' = cs_entries st \<and>
    write_inv (ce_hash_hex ce) buf (unat off) store rt path w0 (unat dn + unat (want_of len off dn)) fd' st' w' \<and>
    block_at (store_abs store (w_fs w') (ce_hash_hex ce)) ((unat off + unat dn) div 65536) =
      splice (splice (replicate 65536 0) 0 (block_at (store_abs store (w_fs w) (ce_hash_hex ce)) ((unat off + unat dn) div 65536)))
        (unat (in_of off dn)) (slice (unat dn) (unat (want_of len off dn)) buf)"
proof -
  let ?h = "ce_hash_hex ce" and ?b = "(unat off + unat dn) div 65536" and ?want = "unat (want_of len off dn)"
  let ?d = "slice (unat dn) ?want buf"
  note pos = turn_pos [OF lim(1,3)]
  have iv: "cs_store st = store" "cs_root st = rt" "w_net w = w_net w0" "store_ok store (w_fs w)"
    "mirror_ok store rt path (w_fs w)" "fd = None \<or> fd = Some (resolve (w_fs w) (mirror_path rt path))"
    "written (store_abs store (w_fs w) ?h) (unat off) (unat dn) buf" "marked (cs_meta st) ?h (unat off) (unat dn)"
    "only_shards store (w_fs w0) (w_fs w)" "cache_frame store rt path (w_fs w0) (w_fs w)"
    using inv by (auto simp: write_inv_def)
  have inb: "unat (in_of off dn) = (unat off + unat dn) mod 65536"
    using pos(3) div_mult_mod_eq [of "unat off + unat dn" 65536] by linarith
  have dl: "length ?d = ?want" using pos(5) lim(2) by (simp add: length_slice)
  then have "unat (in_of off dn) + length ?d \<le> 65536" using pos(4) by simp
  from write_block_ok [OF iv(4) h pos(2) this iv(5)]
  obtain fs1 where wb: "write_block store ?h ?d (in_of off dn) (blk_off_of off dn) (w_fs w) = (Inr (), fs1)"
    "store_ok store fs1" "mirror_ok store rt path fs1"
    "resolve fs1 (mirror_path rt path) = resolve (w_fs w) (mirror_path rt path)"
    "block_at (store_abs store fs1 ?h) ?b =
      splice (splice (replicate 65536 0) 0 (block_at (store_abs store (w_fs w) ?h) ?b)) (unat (in_of off dn)) ?d"
    "\<forall>b'. b' \<noteq> ?b \<and> length (block_at (store_abs store (w_fs w) ?h) b') = 65536 \<longrightarrow>
       block_at (store_abs store fs1 ?h) b' = block_at (store_abs store (w_fs w) ?h) b'"
    "only_shards store (w_fs w) fs1" "cache_frame store rt path (w_fs w) fs1"
    by blast
  have wr: "written (store_abs store fs1 ?h) (unat off) (unat dn + ?want) buf"
    using pos(4,5) lim(2) inb wb(5,6) by (intro written_step [OF iv(7)]) (simp_all add: inb)
  have "?b < 9223372036854775808" using pos(3) lim(1,3) by (simp add: word_less_nat_alt)
  then have "blk_of off dn \<noteq> SIZE_MAX" using pos(1) by (auto simp: SIZE_MAX_unat)
  from markDirtyBlock_bits [OF this, of ?h "blk_off_of off dn div kMaxPartSize" "cs_meta st"]
  obtain m where m: "markDirtyBlock ?h (blk_off_of off dn div kMaxPartSize) (blk_of off dn) (cs_meta st) = Inr m"
    "\<And>h' i' b. dirty_at m h' i' b \<longleftrightarrow> dirty_at (cs_meta st) h' i' b \<or>
      h' = ?h \<and> i' = blk_off_of off dn div kMaxPartSize \<and> b = unat (blk_of off dn)"
    by blast
  have mk: "marked m ?h (unat off) (unat dn + ?want)"
    using pos(1,2,4) inb by (intro marked_step [OF iv(8) m(2)]) simp_all
  let ?st = "touch_block a (blk_of off dn) (Fin 1) (st\<lparr>cs_meta := m\<rparr>)"
  have st: "cs_store ?st = store" "cs_root ?st = rt" "cs_meta ?st = m" "cs_entries ?st = cs_entries st"
    using iv(1,2) by (simp_all add: touch_block_def)
  from mirror_step [of ?st fs1 path fd ?d "off + dn"] wb(2-4) iv(6) st(1,2)
  obtain fd' fs2 where ms: "ensure_dst ?st path fd fs1 = (Inr fd', fs2)"
    "fd' = None \<or> fd' = Some (resolve fs1 (mirror_path rt path))"
    "only_at (resolve fs1 (mirror_path rt path)) fs1 (mirror_write fd' ?d (off + dn) fs2)"
    by auto
  note om = only_at_mirror [OF wb(2,3) ms(3), of ?h]
  have "write_turn path a ce buf len off dn fd st w = (Inr fd', ?st, w\<lparr>w_fs := mirror_write fd' ?d (off + dn) fs2\<rparr>)"
    using wb(1) m(1) ms(1) iv(1) by (simp add: write_turn_def Let_def)
  moreover have "only_shards store (w_fs w0) (mirror_write fd' ?d (off + dn) fs2)"
    by (rule only_shards_trans [OF only_shards_trans [OF iv(9) wb(7)] only_at_shards [OF ms(3)]])
  moreover have "cache_frame store rt path (w_fs w0) (mirror_write fd' ?d (off + dn) fs2)"
  proof (rule cache_frame_trans)
    show "cache_frame store rt path (w_fs w0) fs1" "same_env (w_fs w0) fs1"
      using cache_frame_trans [OF iv(10) wb(8)] only_shards_trans [OF iv(9) wb(7)] iv(9) by (auto simp: only_shards_def)
    show "cache_frame store rt path fs1 (mirror_write fd' ?d (off + dn) fs2)"
      using ms(3) wb(4) iv by (intro only_at_frame) simp
  qed
  ultimately show ?thesis using om h wr mk st ms(2) iv(3) wb(5) by (auto simp: write_inv_def)
qed

lemma write_loop_inv:
  assumes lim: "unat off + unat len < 9223372036854775808" "unat len \<le> length buf" and h: "hash_ok (ce_hash_hex ce)"
    and "dn \<le> len" and "write_inv (ce_hash_hex ce) buf (unat off) store rt path w0 (unat dn) fd st w"
  shows "\<exists>fd' st' w'. write_loop path a ce buf len off dn fd st w = (Inr (int (unat len)), st', w') \<and>
    cs_entries st' = cs_entries st \<and>
    write_inv (ce_hash_hex ce) buf (unat off) store rt path w0 (unat len) fd' st' w'"
  using assms(4,5)
proof (induction "unat len - unat dn" arbitrary: dn fd st w rule: less_induct)
  case less
  show ?case
  proof (cases "dn < len")
    case False
    then have "dn = len" using less.prems(1) by simp
    moreover have "sint len = int (unat len)" using lim(1) by (intro sint_small) simp
    ultimately show ?thesis using less.prems(2) by (subst write_loop.simps) auto
  next
    case True
    note want = unat_want [OF True, of off] want_less_unsigned [OF True, of off]
    obtain fd1 st1 w1 where t: "write_turn path a ce buf len off dn fd st w = (Inr fd1, st1, w1)"
      "cs_entries st1 = cs_entries st"
      "write_inv (ce_hash_hex ce) buf (unat off) store rt path w0 (unat (dn + want_of len off dn)) fd1 st1 w1"
      using write_turn_inv [OF lim True h less.prems(2), of a] want(1) by auto
    have "dn + want_of len off dn \<le> len" using want(1,2) by (simp add: word_le_nat_alt)
    from less.hyps [OF want(3) this t(3)] t(1,2) True show ?thesis
      by (subst write_loop.simps) simp
  qed
qed

lemma cm_write_inv:
  assumes "store_ok (cs_store st) (w_fs w)" and "mirror_ok (cs_store st) (cs_root st) path (w_fs w)"
    and "entry_ok ev path st" and "unat off + unat len < 9223372036854775808" and "unat len \<le> length buf"
  shows "\<exists>fd st' w'. cm_write ev path buf len off st w = (Inr (int (unat len)), st', w') \<and> entry_ok ev path st' \<and>
    write_inv (hash_hex (ev_hash ev) path) buf (unat off) (cs_store st) (cs_root st) path w (unat len) fd st' w'"
proof -
  let ?h = "hash_hex (ev_hash ev) path"
  obtain a ce st1 where e: "entry ev path st = ((a, ce), st1)" "\<not> ce_evicted ce" "ce_hash_hex ce = ?h"
    "cs_store st1 = cs_store st" "cs_root st1 = cs_root st" "map_of (cs_entries st1) path = Some (a, ce)"
    "cs_meta st1 = cs_meta st"
    by (rule entry_cases [OF assms(3)])
  have "write_inv (ce_hash_hex ce) buf (unat off) (cs_store st) (cs_root st) path w (unat 0) None st1 w"
    using assms(1,2) e(3-5) by (simp add: write_inv_def written_def marked_def only_shards_refl)
  then obtain fd st' w' where l: "write_loop path a ce buf len off 0 None st1 w = (Inr (int (unat len)), st', w')"
    "cs_entries st' = cs_entries st1"
    "write_inv ?h buf (unat off) (cs_store st) (cs_root st) path w (unat len) fd st' w'"
    using write_loop_inv [OF assms(4,5), of ce 0 "cs_store st" "cs_root st" path w None st1 w a] e(3) by auto
  have "entry_ok ev path st'" using l(2) e(2,3,6) by (simp add: entry_ok_def)
  then show ?thesis using l e(1,2) by (auto simp: cm_write_def)
qed

text \<open>A write inside one block is one turn.\<close>

lemma cm_write_one_block:
  assumes "store_ok (cs_store st) (w_fs w)" and "mirror_ok (cs_store st) (cs_root st) path (w_fs w)"
    and "entry_ok ev path st" and lim: "unat off + unat len < 9223372036854775808" "unat len \<le> length buf"
    and one: "0 < unat len" "unat off mod 65536 + unat len \<le> 65536"
  shows "\<exists>st' w'. cm_write ev path buf len off st w = (Inr (int (unat len)), st', w') \<and> entry_ok ev path st' \<and>
    cs_store st' = cs_store st \<and> store_ok (cs_store st') (w_fs w') \<and>
    block_at (store_abs (cs_store st) (w_fs w') (hash_hex (ev_hash ev) path)) (unat off div 65536) =
      splice (splice (replicate 65536 0) 0
          (block_at (store_abs (cs_store st) (w_fs w) (hash_hex (ev_hash ev) path)) (unat off div 65536)))
        (unat off mod 65536) (take (unat len) buf)"
proof -
  let ?h = "hash_hex (ev_hash ev) path"
  obtain a ce st1 where e: "entry ev path st = ((a, ce), st1)" "\<not> ce_evicted ce" "ce_hash_hex ce = ?h"
    "cs_store st1 = cs_store st" "cs_root st1 = cs_root st" "map_of (cs_entries st1) path = Some (a, ce)"
    "cs_meta st1 = cs_meta st"
    by (rule entry_cases [OF assms(3)])
  have inv: "write_inv (ce_hash_hex ce) buf (unat off) (cs_store st) (cs_root st) path w (unat 0) None st1 w"
    using assms(1,2) e(3-5) by (simp add: write_inv_def written_def marked_def only_shards_refl)
  have pos: "(0 :: u64) < len" using one(1) by (simp add: word_less_nat_alt)
  have want: "want_of len off 0 = len" using one(2) by (simp add: word_unat_eq_iff unat_want_of)
  have inb: "unat (in_of off 0) = unat off mod 65536" by (simp add: unat_in_of)
  have hok: "hash_ok (ce_hash_hex ce)" by (simp add: e(3))
  obtain fd' st' w' where t: "write_turn path a ce buf len off 0 None st1 w = (Inr fd', st', w')"
      "cs_entries st' = cs_entries st1"
      "write_inv ?h buf (unat off) (cs_store st) (cs_root st) path w (unat len) fd' st' w'"
    and new: "block_at (store_abs (cs_store st) (w_fs w') ?h) (unat off div 65536) =
      splice (splice (replicate 65536 0) 0 (block_at (store_abs (cs_store st) (w_fs w) ?h) (unat off div 65536)))
        (unat off mod 65536) (take (unat len) buf)"
    using write_turn_inv [OF lim pos hok inv, of a] by (auto simp: want inb e(3) slice_def)
  have "sint len = int (unat len)" using lim(1) by (intro sint_small) simp
  then have "write_loop path a ce buf len off 0 None st1 w = (Inr (int (unat len)), st', w')"
    using t(1) pos by (subst write_loop.simps, simp add: want) (subst write_loop.simps, simp)
  then have "cm_write ev path buf len off st w = (Inr (int (unat len)), st', w')"
    using e(1,2) by (simp add: cm_write_def)
  moreover have "entry_ok ev path st'" using t(2) e(2,3,6) by (simp add: entry_ok_def)
  ultimately show ?thesis using t(3) new by (auto simp: write_inv_def)
qed

lemma written_range_cached:
  assumes "written c off n buf" and "0 < n" and "n \<le> length buf"
  shows "range_cached c off n (replicate off 0 @ take n buf)"
  unfolding range_cached_def
proof (intro allI impI conjI)
  fix b assume b: "off div 65536 \<le> b \<and> b * 65536 < off + n"
  define p where "p = (if off \<le> b * 65536 then b * 65536 - off else 0)"
  have "p < n" "(off + p) div 65536 = b"
    using b assms(2) div_le_mono [of off "b * 65536" 65536] by (auto simp: p_def less_mult_imp_div_less
        intro!: antisym dest: less_mult_imp_div_less)
  then show "length (block_at c b) = 65536" using assms(1) by (auto simp: written_def)
  fix i :: nat assume i: "i < 65536" "off \<le> b * 65536 + i \<and> b * 65536 + i < off + n"
  define q where "q = b * 65536 + i - off"
  have q: "q < n" "off + q = i + b * 65536" using i by (auto simp: q_def)
  then have "block_at c ((i + b * 65536) div 65536) ! ((i + b * 65536) mod 65536) = buf ! q"
    using assms(1) unfolding written_def by metis
  then have "block_at c b ! i = buf ! q" using i(1) by simp
  also have "\<dots> = (replicate off 0 @ take n buf) ! (b * 65536 + i)"
    using q i assms(3) by (simp add: nth_append q_def)
  finally show "block_at c b ! i = (replicate off 0 @ take n buf) ! (b * 65536 + i)" .
qed

section \<open>Properties of writing\<close>

text \<open>C4: a write through the cache always succeeds on a store in order, for a file whose mirror has
  its place beside the store: it reports the whole length, leaves the network alone, marks every
  block it touches dirty, and a read of the same range afterwards returns exactly the bytes written,
  from the store alone.\<close>

theorem write_then_read:
  assumes "store_ok (cs_store st) (w_fs w)" and "mirror_ok (cs_store st) (cs_root st) path (w_fs w)"
    and "entry_ok ev path st" and "unat off + unat len < 9223372036854775808" and "unat len \<le> length buf"
    and "0 < unat len" and "unat len \<le> length buf2" and "\<And>b. length (ev_stack ev b) = 65536"
  shows "\<exists>st' w' st''. cm_write ev path buf len off st w = (Inr (int (unat len)), st', w') \<and>
    w_net w' = w_net w \<and> store_ok (cs_store st') (w_fs w') \<and>
    marked (cs_meta st') (hash_hex (ev_hash ev) path) (unat off) (unat len) \<and>
    cm_read ev path buf2 len off st' w' = (Inr (int (unat len)), splice buf2 0 (take (unat len) buf), st'', w')"
proof -
  let ?G = "replicate (unat off) 0 @ take (unat len) buf"
  obtain fd st' w' where wr: "cm_write ev path buf len off st w = (Inr (int (unat len)), st', w')"
    "entry_ok ev path st'"
    and inv: "write_inv (hash_hex (ev_hash ev) path) buf (unat off) (cs_store st) (cs_root st) path w
      (unat len) fd st' w'"
    using cm_write_inv [OF assms(1-5)] by blast
  have ok: "store_ok (cs_store st') (w_fs w')" using inv by (simp add: write_inv_def)
  have "range_cached (store_abs (cs_store st') (w_fs w') (hash_hex (ev_hash ev) path)) (unat off) (unat len) ?G"
    using inv assms(5,6) by (intro written_range_cached) (auto simp: write_inv_def)
  moreover have "unat off + unat len \<le> length ?G" using assms(5) by simp
  ultimately obtain st'' where "cm_read ev path buf2 len off st' w' =
      (Inr (int (unat len)), splice buf2 0 (slice (unat off) (unat len) ?G), st'', w')"
    using cm_read_cached [OF ok wr(2) assms(4) _ assms(7,8), of ?G] by blast
  moreover have "slice (unat off) (unat len) ?G = take (unat len) buf" by (simp add: slice_def)
  ultimately show ?thesis using wr inv ok by (auto simp: write_inv_def)
qed


text \<open>C12: the block store is the abstract store of object parts: what is written at an offset is
  read back there, other objects keep every byte, and a deleted object has none left while the
  others keep theirs.\<close>

theorem block_store_refines:
  assumes "store_ok st fs" and "hash_ok h" and "hash_ok h'" and "h' \<noteq> h" and "unat len = length d"
    and "bs_write st h d off m fs = (r, fs1)" and "delete_object st h fs1 = (r', fs2)"
  shows "r = Inr (int (length d)) \<and> bs_read st h buf len off fs1 = Inr (int (length d), splice buf 0 d) \<and>
    bs_read st h' buf' len' off' fs1 = bs_read st h' buf' len' off' fs \<and>
    bs_read st h buf'' len'' off'' fs2 = Inr (- ENOENT, buf'') \<and>
    bs_read st h' buf' len' off' fs2 = bs_read st h' buf' len' off' fs"
proof -
  note ok1 = bs.wr_ok [OF assms(1,2,6)]
  note w = bs.write_other_object [OF assms(1-4,6), of buf' len' off']
  show ?thesis
    using bs.wr_result [OF assms(1,2,6)] bs.read_after_write [OF assms(1,2,6,5)] w
      bs.read_deleted [OF ok1 assms(2,7)] bs.delete_other_object [OF ok1 assms(2-4,7), of buf' len' off']
    by simp
qed

section \<open>Witnesses\<close>

lemma demo_mirror_ok: "mirror_ok (cs_store demo_cache) (cs_root demo_cache) ''/file'' (w_fs (demo_world net))"
proof -
  have m: "mirror_path ''/c'' ''/file'' = ''/c/file''" by (simp add: mirror_path_def path_join_def absolute_def)
  have p: "parent_path ''/c/file'' = ''/c/''" using parent_path_plain [of "''file''" "''/c''"] by simp
  have r: "resolve root_fs ''/c/file'' = [''c'', ''file'']" "resolve root_fs ''/c/'' = [''c'']"
    by (simp_all add: resolve_def absolute_def norm_step_def)
  have ne: "take 2 h \<noteq> ''file''" for h :: string
  proof
    assume "take 2 h = ''file''"
    then have "length (take 2 h) = 4" by simp
    then show False by simp
  qed
  show ?thesis
    by (simp add: ne ne [symmetric] mirror_ok_def demo_cache_fields demo_world_def m p r Let_def store_key_def BlockStore_def demo_root
        key_defs) (simp add: lookup_def root_fs_def)
qed

theorem write_then_read_witness:
  "\<exists>st' w' st''. cm_write demo_env ''/file'' [1, 2, 3] 3 7 demo_cache (demo_world []) = (Inr 3, st', w') \<and>
    cm_read demo_env ''/file'' [0, 0, 0] 3 7 st' w' = (Inr 3, [1, 2, 3], st'', w')"
  using write_then_read [OF _ demo_mirror_ok demo_entry_ok _ _ _ _ demo_stack, of "[]" 7 3 "[1, 2, 3]" "[0, 0, 0]"]
    demo_store(1) [of "[]"]
  by (auto simp: splice_def)


theorem block_store_refines_witness:
  "\<exists>r fs1. bs_write (BlockStore ''/c'' kBlockSize) (hash_hex (\<lambda>_. 1) []) [5, 6] 10 False root_fs = (r, fs1) \<and>
     bs_read (BlockStore ''/c'' kBlockSize) (hash_hex (\<lambda>_. 1) []) [0, 0] 2 10 fs1 = Inr (2, [5, 6])"
proof -
  let ?st = "BlockStore ''/c'' kBlockSize" and ?h = "hash_hex (\<lambda>_. 1) []" and ?h' = "hash_hex (\<lambda>_. 2) []"
  obtain r fs1 where wr: "bs_write ?st ?h [5, 6] 10 False root_fs = (r, fs1)" by force
  obtain r' fs2 where del: "delete_object ?st ?h fs1 = (r', fs2)" by force
  have "?h' \<noteq> ?h" by (simp add: hash_hex_def, code_simp)
  then have "bs_read ?st ?h [0, 0] 2 10 fs1 = Inr (2, [5, 6])"
    using block_store_refines [OF demo_store_ok hash_ok_hash_hex hash_ok_hash_hex _ _ wr del, of "\<lambda>_. 2" "[]" 2 "[0, 0]"]
    by (simp add: splice_def)
  with wr show ?thesis by blast
qed

end
