(* ===== verification/Cache_Eviction.thy ===== *)
theory Cache_Eviction
  imports Cache_Writes
begin

text \<open>
  Eviction in the cache manager: the keys under which blocks are handed to the LRU policy, what the
  loop of \<open>evict_until_gb\<close> has reached when it ends, and the life of an entry under any sequence
  of calls and prefetch jobs.
\<close>

section \<open>Steps of a cache\<close>

text \<open>One call of a method, or one prefetch job of the pool.  \<open>evict_until_gb\<close> and the jobs run
  without the mutex, so that a single turn of their loops is a step as well and other calls may come
  between two turns.\<close>

inductive cache_step :: "('db, 'w) env \<Rightarrow> 'db cstate \<times> 'w world \<Rightarrow> 'db cstate \<times> 'w world \<Rightarrow> bool" for ev where
  step_read: "cm_read ev path buf len off st w = (r, buf', st', w') \<Longrightarrow> cache_step ev (st, w) (st', w')"
| step_write: "cm_write ev path buf len off st w = (r, st', w') \<Longrightarrow> cache_step ev (st, w) (st', w')"
| step_evict: "evict_until_gb gb st w = (r, st', w') \<Longrightarrow> cache_step ev (st, w) (st', w')"
| step_flush: "flush_all st w = (r, w') \<Longrightarrow> cache_step ev (st, w) (st, w')"
| step_job: "prefetch_job ev j st w = (st', w') \<Longrightarrow> cache_step ev (st, w) (st', w')"
| step_evict_turn: "lru_evict (cs_lru st) = (key, l) \<Longrightarrow> evict_entry key (st\<lparr>cs_lru := l\<rparr>) (w_fs w) = (r, st', fs') \<Longrightarrow>
    cache_step ev (st, w) (st', w\<lparr>w_fs := fs'\<rparr>)"
| step_job_turn: "prefetch_turn ev ce f blk st w = (b, st', w') \<Longrightarrow> cache_step ev (st, w) (st', w')"

inductive_cases cache_stepE: "cache_step ev x y"

definition evicted :: "string \<Rightarrow> 'db cstate \<Rightarrow> bool" where
  "evicted path st \<longleftrightarrow> (\<exists>a ce. map_of (cs_entries st) path = Some (a, ce) \<and> ce_evicted ce)"

section \<open>Rules for the loops\<close>

text \<open>What every turn keeps, the loop keeps; for \<open>read\<close> the entry the next turn starts with is
  part of it, and \<open>write\<close> relates the states before and after.\<close>

lemma read_loop_keeps:
  assumes turn: "\<And>dn' ce buf st w t st' w'. sint dn \<le> sint dn' \<Longrightarrow> sint dn' < sint len \<Longrightarrow>
      read_turn ev path a len off dn' ce buf st w = (t, st', w') \<Longrightarrow>
      P ce \<Longrightarrow> Q st \<Longrightarrow> Q st' \<and> (\<forall>ce' b. t = Next (ce', b) \<longrightarrow> P ce')"
  shows "read_loop ev path a len off dn ce buf st w = (r, buf', st', w') \<Longrightarrow> P ce \<Longrightarrow> Q st \<Longrightarrow> Q st'"
  using turn
proof (induction ev path a len off dn ce buf st w arbitrary: r buf' st' w' rule: read_loop.induct)
  case (1 ev path a len off dn ce buf st w)
  show ?case
  proof (cases "sint dn < sint len")
    case False
    with "1.prems"(1,3) show ?thesis by (subst (asm) read_loop.simps) simp
  next
    case True
    obtain t st1 w1 where rt: "read_turn ev path a len off dn ce buf st w = (t, st1, w1)"
      by (metis prod_cases3)
    note keep = "1.prems"(4) [OF order_refl True rt "1.prems"(2,3)]
    show ?thesis
    proof (cases t)
      case (Next x)
      then obtain c1 b1 where t: "t = Next (c1, b1)" by (cases x) simp
      from True rt t "1.prems"(1)
      have loop: "read_loop ev path a len off (dn + want_of len off dn) c1 b1 st1 w1 = (r, buf', st', w')"
        by (subst (asm) read_loop.simps) simp
      have cont: "P c1" "Q st1" using keep t by simp_all
      have le: "sint dn \<le> sint (dn + want_of len off dn)" using want_less_signed [OF True] by (rule order_less_imp_le)
      show ?thesis
        by (rule "1.IH" [OF True rt [symmetric] t refl refl loop cont]) (rule "1.prems"(4) [OF order_trans [OF le]])
    qed (use True rt "1.prems"(1) keep in \<open>subst (asm) read_loop.simps, simp\<close>)+
  qed
qed

lemma write_loop_rel:
  assumes turn: "\<And>dn fd st w r st' w'. write_turn path a ce buf len off dn fd st w = (r, st', w') \<Longrightarrow> R (st, w) (st', w')"
    and same: "\<And>x. R x x" and trans: "\<And>x y z. R x y \<Longrightarrow> R y z \<Longrightarrow> R x z"
  shows "write_loop path a ce buf len off dn fd st w = (r, st', w') \<Longrightarrow> R (st, w) (st', w')"
  using turn
proof (induction path a ce buf len off dn fd st w arbitrary: r st' w' rule: write_loop.induct)
  case (1 path a ce buf len off dn fd st w)
  obtain t st1 w1 where wt: "write_turn path a ce buf len off dn fd st w = (t, st1, w1)" by (metis prod_cases3)
  note step = "1.prems"(2) [OF wt]
  show ?case
  proof (cases "dn < len")
    case False
    with "1.prems"(1) same show ?thesis by (subst (asm) write_loop.simps) simp
  next
    case True
    show ?thesis
    proof (cases t)
      case (Inl e)
      with True wt "1.prems"(1) step show ?thesis by (subst (asm) write_loop.simps) simp
    next
      case (Inr fd')
      with True wt "1.prems"(1) have "write_loop path a ce buf len off (dn + want_of len off dn) fd' st1 w1 = (r, st', w')"
        by (subst (asm) write_loop.simps) simp
      from trans [OF step "1.IH" [OF True wt [symmetric] Inr refl this "1.prems"(2)]] show ?thesis .
    qed
  qed
qed

lemma evict_loop_keeps:
  assumes lru: "\<And>st. P st \<Longrightarrow> P (st\<lparr>cs_lru := snd (lru_evict (cs_lru st))\<rparr>)"
    and turn: "\<And>key st fs r st' fs'. evict_entry key st fs = (r, st', fs') \<Longrightarrow> P st \<Longrightarrow> P st'"
  shows "evict_loop gb st fs = (r, st', fs') \<Longrightarrow> P st \<Longrightarrow> P st'"
proof (induction gb st fs arbitrary: r st' fs' rule: evict_loop.induct)
  case (1 gb st fs)
  let ?key = "fst (lru_evict (cs_lru st))" and ?st1 = "st\<lparr>cs_lru := snd (lru_evict (cs_lru st))\<rparr>"
  have P1: "P ?st1" using "1.prems"(2) by (rule lru)
  show ?case
  proof (cases "used_gb st fs")
    case (Inl e)
    with "1.prems" show ?thesis by (subst (asm) evict_loop.simps) simp
  next
    case (Inr used)
    obtain t st2 fs2 where ee: "evict_entry ?key ?st1 fs = (t, st2, fs2)" by (metis prod_cases3)
    note P2 = turn [OF ee P1]
    show ?thesis
    proof (cases "double_less gb used \<and> ?key \<noteq> SIZE_MAX")
      case False
      with Inr P1 "1.prems" show ?thesis by (subst (asm) evict_loop.simps) (auto simp: Let_def split: if_splits)
    next
      case go: True
      show ?thesis
      proof (cases t)
        case (Inl e)
        with go ee P2 "1.prems"(1) \<open>used_gb st fs = Inr used\<close> show ?thesis
          by (subst (asm) evict_loop.simps) (simp add: Let_def)
      next
        case u: (Inr u)
        with go ee "1.prems"(1) \<open>used_gb st fs = Inr used\<close> have "evict_loop gb st2 fs2 = (r, st', fs')"
          by (subst (asm) evict_loop.simps) (simp add: Let_def)
        with "1.IH" [OF \<open>used_gb st fs = Inr used\<close> _ refl refl _ ee [symmetric] u refl] go P2
        show ?thesis by blast
      qed
    qed
  qed
qed

section \<open>Frames on the entries\<close>

lemma entries_touch [simp]: "cs_entries (touch_block a blk h st) = cs_entries st"
  by (simp add: touch_block_def)

lemma entries_prefetch [simp]: "cs_entries (schedule_prefetch ce b st) = cs_entries st"
  by (simp add: schedule_prefetch_def)

lemma map_of_put_entry:
  "map_of (cs_entries (put_entry path a ce st)) q = (if q = path then Some (a, ce) else map_of (cs_entries st) q)"
  by (simp add: put_entry_def update_conv)

lemma read_turn_other:
  "read_turn ev path a len off dn ce buf st w = (t, st', w') \<Longrightarrow> q \<noteq> path \<Longrightarrow>
   map_of (cs_entries st') q = map_of (cs_entries st) q"
  by (auto simp: read_turn_def Let_def map_of_put_entry split: if_splits prod.splits sum.splits option.splits)

lemma read_loop_other:
  "read_loop ev path a len off dn ce buf st w = (r, buf', st', w') \<Longrightarrow> q \<noteq> path \<Longrightarrow>
   map_of (cs_entries st') q = map_of (cs_entries st) q"
  by (rule read_loop_keeps [where P = "\<lambda>_. True" and Q = "\<lambda>s. map_of (cs_entries s) q = map_of (cs_entries st) q"])
    (auto dest: read_turn_other)

lemma entry_other:
  "entry ev path st = ((a, ce), st') \<Longrightarrow> q \<noteq> path \<Longrightarrow> map_of (cs_entries st') q = map_of (cs_entries st) q"
  by (auto simp: entry_def Let_def map_of_put_entry split: option.splits)

lemma entry_evicted:
  "evicted path st \<Longrightarrow> \<exists>a ce. entry ev path st = ((a, ce), st) \<and> ce_evicted ce"
  by (auto simp: evicted_def entry_def)

lemma cm_read_evicted: "evicted path st \<Longrightarrow> cm_read ev path buf len off st w = (Inr (- ENOENT), buf, st, w)"
  using entry_evicted [of path st ev] by (auto simp: cm_read_def)

lemma cm_write_evicted: "evicted path st \<Longrightarrow> cm_write ev path buf len off st w = (Inr (- ENOENT), st, w)"
  using entry_evicted [of path st ev] by (auto simp: cm_write_def)

lemma evicted_read:
  assumes "evicted q st" and "cm_read ev path buf len off st w = (r, buf', st', w')"
  shows "evicted q st'"
proof (cases "q = path")
  case True
  with assms cm_read_evicted [of path st ev buf len off w] show ?thesis by simp
next
  case False
  obtain a ce st1 where e: "entry ev path st = ((a, ce), st1)" by (metis prod.collapse)
  with assms(2) have "map_of (cs_entries st') q = map_of (cs_entries st1) q"
    using read_loop_other [OF _ False] by (auto simp: cm_read_def split: if_splits)
  with entry_other [OF e False] assms(1) show ?thesis by (simp add: evicted_def)
qed

lemma write_turn_entries:
  "write_turn path a ce buf len off dn fd st w = (r, st', w') \<Longrightarrow> cs_entries st' = cs_entries st"
  by (auto simp: write_turn_def Let_def split: prod.splits sum.splits)

lemma write_loop_entries:
  "write_loop path a ce buf len off dn fd st w = (r, st', w') \<Longrightarrow> cs_entries st' = cs_entries st"
  by (drule write_loop_rel [where R = "\<lambda>x y. cs_entries (fst y) = cs_entries (fst x)", rotated -1])
    (auto dest: write_turn_entries)

lemma evicted_write:
  assumes "evicted q st" and "cm_write ev path buf len off st w = (r, st', w')"
  shows "evicted q st'"
proof (cases "q = path")
  case True
  with assms cm_write_evicted [of path st ev buf len off w] show ?thesis by simp
next
  case False
  obtain a ce st1 where e: "entry ev path st = ((a, ce), st1)" by (metis prod.collapse)
  with assms(2) have "cs_entries st' = cs_entries st1"
    by (auto simp: cm_write_def split: if_splits dest: write_loop_entries)
  with entry_other [OF e False] assms(1) show ?thesis by (simp add: evicted_def)
qed

lemma evicted_evict_entry: "evicted q st \<Longrightarrow> evict_entry key st fs = (r, st', fs') \<Longrightarrow> evicted q st'"
  by (auto simp: evict_entry_def evicted_def Let_def map_of_put_entry
      split: if_splits option.splits prod.splits sum.splits)

lemma evicted_lru [simp]: "evicted q (st\<lparr>cs_lru := l\<rparr>) = evicted q st"
  by (simp add: evicted_def)

lemma evicted_evict_loop: "evict_loop gb st fs = (r, st', fs') \<Longrightarrow> evicted q st \<Longrightarrow> evicted q st'"
  by (rule evict_loop_keeps [where P = "evicted q"]) (auto dest: evicted_evict_entry)

lemma prefetch_turn_entries: "prefetch_turn ev ce f blk st w = (b, st', w') \<Longrightarrow> cs_entries st' = cs_entries st"
  by (auto simp: prefetch_turn_def Let_def split: sum.splits prod.splits if_splits)

lemma prefetch_turns_entries: "prefetch_turns ev ce f is st w = (st', w') \<Longrightarrow> cs_entries st' = cs_entries st"
proof (induction "is" arbitrary: st w)
  case (Cons i "is")
  obtain b st1 w1 where "prefetch_turn ev ce f (f + of_nat i) st w = (b, st1, w1)" by (metis prod_cases3)
  with Cons prefetch_turn_entries [OF this] show ?case by (cases b) auto
qed simp

lemma evicted_job: "prefetch_job ev j st w = (st', w') \<Longrightarrow> evicted q st \<Longrightarrow> evicted q st'"
  by (auto simp: prefetch_job_def evicted_def dest: prefetch_turns_entries)

lemma evicted_until_gb: "evict_until_gb gb st w = (r, st', w') \<Longrightarrow> evicted q st \<Longrightarrow> evicted q st'"
  by (auto simp: evict_until_gb_def split: prod.splits dest: evicted_evict_loop)

lemma evicted_job_turn: "prefetch_turn ev ce f blk st w = (b, st', w') \<Longrightarrow> evicted q st \<Longrightarrow> evicted q st'"
  by (auto simp: evicted_def dest: prefetch_turn_entries)

lemma evicted_step: "cache_step ev (st, w) (st', w') \<Longrightarrow> evicted q st \<Longrightarrow> evicted q st'"
  by (erule cache_stepE)
    (auto dest: evicted_read evicted_write evicted_until_gb evicted_job evicted_job_turn evicted_evict_entry [rotated])

lemma evicted_steps: "(cache_step ev)\<^sup>*\<^sup>* x y \<Longrightarrow> evicted q (fst x) \<Longrightarrow> evicted q (fst y)"
proof (induction rule: rtranclp_induct)
  case (step y z)
  then show ?case using evicted_step [of ev "fst y" "snd y" "fst z" "snd z" q] by simp
qed simp

section \<open>Keys\<close>

lemma drop_push_32: "drop_bit 32 (push_bit 32 (a :: u64)) = take_bit 32 a"
proof (rule bit_eqI)
  fix n assume "possible_bit TYPE(64 word) n"
  then have "n < 64" by (simp add: possible_bit_word)
  then show "bit (drop_bit 32 (push_bit 32 a)) n = bit (take_bit 32 a) n"
    by (auto simp: bit_drop_bit_eq bit_push_bit_iff bit_take_bit_iff possible_bit_word)
qed

lemma lru_key_pointer:
  assumes "unat blk < 4294967296"
  shows "drop_bit 32 (lru_key a blk) = take_bit 32 a"
proof -
  have "drop_bit 32 blk = 0"
    using assms by (simp add: word_unat_eq_iff drop_bit_eq_div unat_div)
  then show ?thesis by (simp add: lru_key_def drop_bit_or drop_push_32)
qed

lemma take_bit_self_iff: "take_bit 32 (a :: u64) = a \<longleftrightarrow> unat a < 4294967296"
proof -
  have "unat a mod 4294967296 = unat a \<longleftrightarrow> unat a < 4294967296"
    by (metis mod_less mod_less_divisor zero_less_numeral)
  then show ?thesis by (simp add: word_unat_eq_iff take_bit_eq_mod unat_mod)
qed

section \<open>Properties of eviction\<close>

text \<open>C27: the LRU key of a block gives back the entry it belongs to exactly when the entry lives
  below 4 GiB: a higher pointer loses its upper half, and \<open>evict_until_gb\<close> then dereferences an
  address at which there need not be any entry.\<close>

theorem lru_key_finds_entry:
  assumes "unat blk < 4294967296"
  shows "(drop_bit 32 (lru_key a blk) = a \<longleftrightarrow> unat a < 4294967296) \<and>
     (take_bit 32 a \<noteq> 0 \<and> entry_at (take_bit 32 a) (cs_entries st) = None \<longrightarrow>
      evict_entry (lru_key a blk) st fs = (Inl Undefined_behaviour, st, fs))"
  using lru_key_pointer [OF assms, of a] by (simp_all add: take_bit_self_iff evict_entry_def Let_def)


text \<open>C13: once the entry of a path has been evicted, no sequence of reads, writes, evictions, flushes
  and prefetch jobs brings it back: every later read and write of the path fails with
  \<open>ENOENT\<close> and changes nothing.\<close>

theorem evicted_forever:
  assumes "evicted path st" and "(cache_step ev)\<^sup>*\<^sup>* (st, w) (st', w')"
  shows "cm_read ev path buf len off st' w' = (Inr (- ENOENT), buf, st', w') \<and>
     cm_write ev path buf len off st' w' = (Inr (- ENOENT), st', w')"
  using evicted_steps [OF assms(2), of path] assms(1) by (simp add: cm_read_evicted cm_write_evicted)

section \<open>Witnesses\<close>

text \<open>A cache with one entry, at address 7 and evicted.\<close>

definition evicted_cache :: "mem_db cstate" where
  "evicted_cache = demo_cache\<lparr>cs_entries := [(''/a'', 7, \<lparr>ce_path = ''/a'', ce_hash_hex = ''00000000000000ff'',
     ce_last_block = 0, ce_evicted = True\<rparr>)]\<rparr>"

theorem lru_key_finds_entry_witness:
  "unat (5 :: u64) < 4294967296 \<and> drop_bit 32 (lru_key 4096 5) = 4096 \<and>
   evict_entry (lru_key 0x500000001 5) evicted_cache root_fs = (Inl Undefined_behaviour, evicted_cache, root_fs)"
  using lru_key_finds_entry [of 5 4096 evicted_cache root_fs]
    lru_key_finds_entry [of 5 "0x500000001" evicted_cache root_fs]
  by (simp add: evicted_cache_def take_bit_eq_mod)

lemma demo_used: "used_gb evicted_cache (w_fs (demo_world [])) = Inr (Fin 0)"
proof -
  have "cs_root evicted_cache = ''/c''" by (simp add: evicted_cache_def demo_cache_fields)
  moreover have "lookup root_fs [''c''] = Some Dir" "tree_bytes root_fs [''c''] = 0"
    by (simp_all add: lookup_def tree_bytes_def root_fs_def)
  ultimately show ?thesis by (simp add: used_gb_def demo_world_def demo_root)
qed


theorem evicted_forever_witness:
  "cm_read demo_env ''/a'' [1] 1 0 evicted_cache (demo_world []) = (Inr (- ENOENT), [1], evicted_cache, demo_world [])"
proof -
  have "evicted ''/a'' evicted_cache" by (simp add: evicted_def evicted_cache_def)
  from evicted_forever [OF this rtranclp.rtrancl_refl] show ?thesis by (rule conjunct1)
qed

end
