(* ===== verification/Cache_Flush.thy ===== *)
theory Cache_Flush
  imports Cache_Eviction
begin

text \<open>
  Flushing the dirty bitmaps: the files it writes lie beside the part files of the block store and
  never on them, so that a flush keeps every object, and with an environment that lets the bitmap
  files be written every block that \<open>write\<close> marked dirty is recorded in its \<^verbatim>\<open>.dmap\<close> file.
  Evicting an entry is a deletion of its object followed by such a flush.
\<close>

section \<open>Files a flush may touch\<close>

text \<open>The changes a flush of object \<open>h\<close> makes: its shard directories and its bitmap files.\<close>

definition flush_frame :: "bstore \<Rightarrow> string \<Rightarrow> fsys \<Rightarrow> fsys \<Rightarrow> bool" where
  "flush_frame store h fs fs' \<longleftrightarrow> same_env fs fs' \<and> fs_wf fs' \<and>
     (\<forall>k. lookup fs' k = lookup fs k \<or>
        lookup fs' k = Some Dir \<and> (k = shard1_key (store_key store fs) h \<or> k = shard2_key (store_key store fs) h) \<or>
        (\<exists>i. k = dmap_key (store_key store fs) h i))"

lemma flush_frame_refl: "fs_wf fs \<Longrightarrow> flush_frame store h fs fs"
  by (simp add: flush_frame_def)

lemma flush_frame_trans:
  assumes "flush_frame store h fs fs1" and "flush_frame store h fs1 fs2"
  shows "flush_frame store h fs fs2"
proof -
  have "store_key store fs1 = store_key store fs" using assms(1) by (simp add: flush_frame_def store_key_env)
  then show ?thesis
    using assms unfolding flush_frame_def by (metis same_env_trans)
qed

lemma root_key_differs [simp]:
  "rk \<noteq> shard1_key rk h" "rk \<noteq> shard2_key rk h" "rk \<noteq> dmap_key rk h i"
  by (simp_all add: key_defs)

lemma flush_frame_store:
  assumes ok: "store_ok store fs" and fr: "flush_frame store h fs fs'"
  shows "store_ok store fs'" and "store_abs store fs' h' = store_abs store fs h'"
proof -
  let ?rk = "store_key store fs"
  note okD = store_okD [OF ok]
  have env: "same_env fs fs'" "fs_wf fs'"
    and look: "\<And>k. lookup fs' k = lookup fs k \<or> lookup fs' k = Some Dir \<and> (k = shard1_key ?rk h \<or> k = shard2_key ?rk h) \<or>
      (\<exists>i. k = dmap_key ?rk h i)"
    using fr by (simp_all add: flush_frame_def)
  have blk: "lookup fs' (blk_key ?rk h' i) = lookup fs (blk_key ?rk h' i)" for h' i
    using look [of "blk_key ?rk h' i"] by simp
  show "store_ok store fs'"
  proof (rule store_ok_change [OF ok env])
    show "lookup fs' ?rk = Some Dir" using look [of ?rk] okD(3) by simp
    show "lookup fs' (shard1_key ?rk h') \<noteq> Some (File bs)" "lookup fs' (shard2_key ?rk h') \<noteq> Some (File bs)"
      if "hash_ok h'" for h' bs
      using look [of "shard1_key ?rk h'"] look [of "shard2_key ?rk h'"] okD(4,5) [OF that]
        shard_keys_differ [of ?rk] by (metis node.distinct(1) option.inject)+
    show "lookup fs' (blk_key ?rk h' i) \<noteq> Some Dir" if "hash_ok h'" for h' i
      using okD(8) [OF that] blk by simp
  qed
  show "store_abs store fs' h' = store_abs store fs h'"
    using blk by (intro ext) (simp add: store_abs_def store_key_env [OF env(1)])
qed

section \<open>One bitmap\<close>

lemma mkdirs_known: "\<forall>k \<in> set ks. lookup fs k = Some Dir \<Longrightarrow> mkdirs (ks @ ks') fs = mkdirs ks' fs"
  by (induction ks) auto

lemma make_dir:
  assumes "k \<noteq> []" and "\<And>bs. lookup fs k \<noteq> Some (File bs)" and "deny fs k = None"
    and "fs_wf fs" and "lookup fs (butlast k) = Some Dir"
  shows "\<exists>fs'. mkdirs (k # ks) fs = mkdirs ks fs' \<and> same_env fs fs' \<and> fs_wf fs' \<and>
    (\<forall>k'. lookup fs' k' = (if k' = k then Some Dir else lookup fs k'))"
proof (cases "lookup fs k")
  case None
  then show ?thesis using assms
    by (intro exI [of _ "set_node k Dir fs"]) (auto intro: fs_wf_set_node simp: lookup_set_node)
next
  case (Some n)
  then have "n = Dir" using assms(2) by (cases n) auto
  then show ?thesis using Some assms(4) by (intro exI [of _ fs]) auto
qed

text \<open>The directory of the bitmap files is there after \<open>create_directories\<close>.\<close>

lemma make_shards:
  assumes ok: "store_ok store fs" and h: "hash_ok h" and p: "p \<noteq> []" "resolve fs p = shard2_key (store_key store fs) h"
  shows "\<exists>fs'. create_directories p fs = (None, fs') \<and> create_directories p fs' = (None, fs') \<and>
    same_env fs fs' \<and> fs_wf fs' \<and>
    (\<forall>k. lookup fs' k = (if k = shard1_key (store_key store fs) h \<or> k = shard2_key (store_key store fs) h
                          then Some Dir else lookup fs k))"
proof -
  let ?rk = "store_key store fs"
  note okD = store_okD [OF ok]
  have pre: "prefixes (shard2_key ?rk h) = prefixes ?rk @ [shard1_key ?rk h, shard2_key ?rk h]"
    using prefixes_snoc [of "?rk @ [take 2 h]" "slice 2 2 h"] by (simp add: key_defs)
  obtain fs1 where fs1: "mkdirs [shard1_key ?rk h, shard2_key ?rk h] fs = mkdirs [shard2_key ?rk h] fs1"
      "same_env fs fs1" "fs_wf fs1" "\<And>k. lookup fs1 k = (if k = shard1_key ?rk h then Some Dir else lookup fs k)"
    using make_dir [of "shard1_key ?rk h" fs "[shard2_key ?rk h]"] okD(1,3) okD(4,6) [OF h] by auto
  have s2: "\<And>bs. lookup fs1 (shard2_key ?rk h) \<noteq> Some (File bs)" "deny fs1 (shard2_key ?rk h) = None"
      "lookup fs1 (butlast (shard2_key ?rk h)) = Some Dir"
    using fs1(2,4) okD(5,7) [OF h] by (simp_all add: same_env_def)
  obtain fs2 where fs2: "mkdirs [shard2_key ?rk h] fs1 = mkdirs [] fs2"
      "same_env fs1 fs2" "fs_wf fs2" "\<And>k. lookup fs2 k = (if k = shard2_key ?rk h then Some Dir else lookup fs1 k)"
    using make_dir [OF _ s2(1,2) fs1(3) s2(3), of "[]"] by auto
  have env: "same_env fs fs2" using fs1(2) fs2(2) by (rule same_env_trans)
  have "create_directories p fs = (None, fs2)"
    using p fs1(1) fs2(1) mkdirs_known [OF fs_wf_prefixes [OF okD(1,3)]] by (simp add: create_directories_def pre)
  moreover have "create_directories p fs2 = (None, fs2)"
    using p fs2(3,4) by (intro create_directories_existing) (simp_all add: same_env_resolve [OF env])
  ultimately show ?thesis using env fs1(4) fs2(3,4) by (intro exI [of _ fs2]) simp
qed

text \<open>The path of a bitmap, its parent and what they resolve to.\<close>

lemma bitmap_file:
  assumes "hash_ok h" and "rt \<noteq> []"
  obtains p where "bitmap_path rt h i = Inr p" and "p \<noteq> []"
    and "\<And>fs. resolve fs p = dmap_key (resolve fs rt) h (unat i)"
    and "parent_path p \<noteq> []" and "\<And>fs. resolve fs (parent_path p) = shard2_key (resolve fs rt) h"
proof -
  let ?file = "h @ ''.'' @ to_dec (unat i) @ ''.dmap''"
  let ?dir = "rt @ ''/'' @ take 2 h @ ''/'' @ slice 2 2 h"
  let ?p = "?dir @ CHR ''/'' # ?file"
  have par: "parent_path ?p = ?dir @ ''/''"
    using plain_file [OF assms(1), of "''.dmap''" "unat i"] by (intro parent_path_plain) (simp add: plain_def)
  have "bitmap_path rt h i = Inr ?p"
    using hash_ok_length [OF assms(1)] by (simp add: bitmap_path_def shard_dir_ok)
  moreover have "resolve fs ?p = dmap_key (resolve fs rt) h (unat i)" for fs
    using resolve_part_file [OF assms, of "''.dmap''" fs] by (simp add: dmap_key_def shard2_key_def)
  moreover have "resolve fs (parent_path ?p) = shard2_key (resolve fs rt) h" for fs
    unfolding par using resolve_shard2 [OF assms, of fs] resolve_trailing_slash [of ?dir fs] by simp
  ultimately show thesis using par by (intro that [of ?p]) simp_all
qed

text \<open>Persisting never throws on a store in order, and changes nothing but the shard directories
  and its own bitmap file; when that file can be written, it then holds the packed bits.\<close>

lemma persistBitmap_frame:
  assumes ok: "store_ok store fs" and h: "hash_ok h" and rt: "ms_cache_root m = bs_root store"
    and res: "persistBitmap m h i bits fs = (r, fs')"
  shows "\<exists>b. r = Inr b" and "same_env fs fs'" and "fs_wf fs'"
    and "k \<noteq> dmap_key (store_key store fs) h (unat i) \<Longrightarrow> lookup fs' k = lookup fs k \<or>
      lookup fs' k = Some Dir \<and> (k = shard1_key (store_key store fs) h \<or> k = shard2_key (store_key store fs) h)"
    and "bits \<noteq> [] \<Longrightarrow> lookup fs (dmap_key (store_key store fs) h (unat i)) \<noteq> Some Dir \<Longrightarrow>
      deny fs (dmap_key (store_key store fs) h (unat i)) = None \<Longrightarrow>
      ioerr fs (dmap_key (store_key store fs) h (unat i)) = None \<Longrightarrow>
      lookup fs' (dmap_key (store_key store fs) h (unat i)) = Some (File (pack_bits bits))"
proof -
  let ?rk = "store_key store fs" and ?k = "dmap_key (store_key store fs) h (unat i)"
  note okD = store_okD [OF ok]
  have root: "ms_cache_root m \<noteq> []" using okD(2) rt by simp
  have rk: "resolve fs0 (ms_cache_root m) = ?rk" if "same_env fs fs0" for fs0
    using rt same_env_resolve [OF that] by (simp add: store_key_def)
  obtain p where p: "bitmap_path (ms_cache_root m) h i = Inr p" "p \<noteq> []"
      "\<And>fs. resolve fs p = dmap_key (resolve fs (ms_cache_root m)) h (unat i)"
      "parent_path p \<noteq> []" "\<And>fs. resolve fs (parent_path p) = shard2_key (resolve fs (ms_cache_root m)) h"
    using bitmap_file [OF h root, of i] by blast
  obtain fs1 where mk: "create_directories (parent_path p) fs = (None, fs1)"
      "create_directories (parent_path p) fs1 = (None, fs1)" "same_env fs fs1" "fs_wf fs1"
      "\<And>k. lookup fs1 k = (if k = shard1_key ?rk h \<or> k = shard2_key ?rk h then Some Dir else lookup fs k)"
    using make_shards [OF ok h p(4)] p(5) [of fs] rk [of fs] by auto
  have same: "persistBitmap m h i bits fs = persistBitmap m h i bits fs1" if "bits \<noteq> []"
    using that p(1) mk(1,2) by (simp add: persistBitmap_def)
  obtain ro fs2 where op: "sys_open p [O_RDWR, O_CREAT, O_TRUNC] fs1 = (ro, fs2)" by force
  have key: "resolve fs1 p = ?k" using p(3) [of fs1] rk [OF mk(3)] by simp
  note o = only_at_open [OF mk(4) op, unfolded key]
  have frame: "(\<exists>b. r = Inr b) \<and> only_at ?k fs1 fs'" if ne: "bits \<noteq> []"
  proof (cases ro)
    case (Inl e)
    then show ?thesis using res ne p(1) mk(1) op o by (auto simp: persistBitmap_def)
  next
    case (Inr fd)
    then have fd: "fd = ?k" using o by auto
    obtain rw fs3 where pw: "sys_pwrite ?k (pack_bits bits) 0 fs2 = (rw, fs3)" by force
    have "fs_wf fs2" using o by (simp add: only_at_def)
    then have "only_at ?k fs2 fs3" using only_at_pwrite [of fs2 ?k "pack_bits bits" 0] pw by simp
    then have "only_at ?k fs1 fs3" using o only_at_trans by blast
    moreover have "(\<exists>b. r = Inr b) \<and> fs' = fs3"
      using res ne p(1) mk(1) op Inr fd pw by (auto simp: persistBitmap_def Let_def split: sum.splits)
    ultimately show ?thesis by simp
  qed
  have empty: "r = Inr True \<and> fs' = fs" if "bits = []" using res that by (simp add: persistBitmap_def)
  show "\<exists>b. r = Inr b" using frame empty by blast
  show "same_env fs fs'" "fs_wf fs'"
    using frame empty mk(3) okD(1) by (cases "bits = []", auto simp: only_at_def intro: same_env_trans)+
  show "lookup fs' k = lookup fs k \<or> lookup fs' k = Some Dir \<and> (k = shard1_key ?rk h \<or> k = shard2_key ?rk h)"
    if "k \<noteq> ?k"
    using frame empty mk(5) that by (cases "bits = []") (auto simp: only_at_def)
  assume dm: "bits \<noteq> []" "lookup fs ?k \<noteq> Some Dir" "deny fs ?k = None" "ioerr fs ?k = None"
  have "bitmap_ok m h i fs1"
    using dm mk(3-5) h root rk [OF mk(3)] by (simp add: bitmap_ok_def Let_def same_env_def)
  from persistBitmap_ok [OF this dm(1)] show "lookup fs' ?k = Some (File (pack_bits bits))"
    using res same [OF dm(1)] rk [OF mk(3)] by (auto simp: lookup_set_node)
qed

section \<open>The bitmaps of an object\<close>

text \<open>The environment lets the bitmap files be written.\<close>

definition dmaps_ok :: "bstore \<Rightarrow> fsys \<Rightarrow> bool" where
  "dmaps_ok store fs \<longleftrightarrow> (\<forall>h i. hash_ok h \<longrightarrow>
     (let k = dmap_key (store_key store fs) h i in lookup fs k \<noteq> Some Dir \<and> deny fs k = None \<and> ioerr fs k = None))"

text \<open>Keys occur once, as in a hash table.\<close>

definition bitmaps_wf :: "bitmaps \<Rightarrow> bool" where
  "bitmaps_wf bm \<longleftrightarrow> (\<forall>h parts. map_of bm h = Some parts \<longrightarrow> distinct (map fst parts))"

lemma dmaps_only_shards:
  assumes "dmaps_ok store fs" and "only_shards store fs fs'"
  shows "dmaps_ok store fs'"
proof -
  have key: "store_key store fs' = store_key store fs" using assms(2) by (simp add: only_shards_def store_key_env)
  show ?thesis using assms unfolding dmaps_ok_def only_shards_def key Let_def by (auto simp: same_env_def)
qed

lemma persistBitmap_flush_frame:
  assumes "store_ok store fs" and "hash_ok h" and "ms_cache_root m = bs_root store"
    and "persistBitmap m h i bits fs = (r, fs')"
  shows "flush_frame store h fs fs'" and "dmaps_ok store fs \<Longrightarrow> dmaps_ok store fs'"
proof -
  note f = persistBitmap_frame [OF assms]
  have look: "lookup fs' k = lookup fs k \<or>
      lookup fs' k = Some Dir \<and> (k = shard1_key (store_key store fs) h \<or> k = shard2_key (store_key store fs) h) \<or>
      k = dmap_key (store_key store fs) h (unat i)" for k
    using f(4) by blast
  then show "flush_frame store h fs fs'" using f(2,3) unfolding flush_frame_def by blast
  assume d: "dmaps_ok store fs"
  have "lookup fs' (dmap_key (store_key store fs) h' j) \<noteq> Some Dir" if h': "hash_ok h'" for h' j
  proof (cases "bits = [] \<or> dmap_key (store_key store fs) h' j \<noteq> dmap_key (store_key store fs) h (unat i)")
    case True
    have "lookup fs (dmap_key (store_key store fs) h' j) \<noteq> Some Dir" using d h' by (simp add: dmaps_ok_def Let_def)
    then show ?thesis
      using True f(4) [of "dmap_key (store_key store fs) h' j"] assms(4) by (auto simp: persistBitmap_def)
  next
    case False
    then show ?thesis using f(5) d assms(2) by (simp add: dmaps_ok_def Let_def)
  qed
  then show "dmaps_ok store fs'"
    using d f(2) by (simp add: dmaps_ok_def Let_def store_key_env [OF f(2)]) (simp add: same_env_def)
qed

lemma flush_parts_ok:
  assumes "hash_ok h" and "ms_cache_root m = bs_root store"
  shows "store_ok store fs \<Longrightarrow> \<exists>b fs'. flush_parts m h parts ok fs = (Inr b, fs') \<and> flush_frame store h fs fs' \<and>
    (\<forall>i. i \<notin> fst ` set parts \<longrightarrow> lookup fs' (dmap_key (store_key store fs) h (unat i)) =
       lookup fs (dmap_key (store_key store fs) h (unat i))) \<and>
    (dmaps_ok store fs \<longrightarrow> dmaps_ok store fs' \<and> (distinct (map fst parts) \<longrightarrow>
       (\<forall>(i, bits) \<in> set parts. bits \<noteq> [] \<longrightarrow>
          lookup fs' (dmap_key (store_key store fs) h (unat i)) = Some (File (pack_bits bits)))))"
proof (induction parts arbitrary: ok fs)
  case Nil
  then show ?case by (simp add: flush_frame_refl store_okD(1))
next
  case (Cons x parts)
  obtain i bits where x: "x = (i, bits)" by force
  obtain r fs1 where pb: "persistBitmap m h i bits fs = (r, fs1)" by force
  note f = persistBitmap_frame [OF Cons.prems assms pb] and ff = persistBitmap_flush_frame [OF Cons.prems assms pb]
  obtain b where r: "r = Inr b" using f(1) by blast
  have key: "store_key store fs1 = store_key store fs" by (rule store_key_env [OF f(2)])
  from Cons.IH [OF flush_frame_store(1) [OF Cons.prems ff(1)], of "ok \<and> b"]
  obtain b' fs' where IH: "flush_parts m h parts (ok \<and> b) fs1 = (Inr b', fs')" "flush_frame store h fs1 fs'"
      "\<And>i. i \<notin> fst ` set parts \<Longrightarrow> lookup fs' (dmap_key (store_key store fs) h (unat i)) =
         lookup fs1 (dmap_key (store_key store fs) h (unat i))"
      "dmaps_ok store fs1 \<Longrightarrow> dmaps_ok store fs'"
      "dmaps_ok store fs1 \<Longrightarrow> distinct (map fst parts) \<Longrightarrow> \<forall>(i, bits) \<in> set parts. bits \<noteq> [] \<longrightarrow>
         lookup fs' (dmap_key (store_key store fs) h (unat i)) = Some (File (pack_bits bits))"
    unfolding key by blast
  have other: "lookup fs' (dmap_key (store_key store fs) h (unat j)) = lookup fs (dmap_key (store_key store fs) h (unat j))"
    if "j \<notin> fst ` set (x # parts)" for j
    using that IH(3) [of j] f(4) [of "dmap_key (store_key store fs) h (unat j)"] x
    by (auto simp: dmap_key_inject [OF assms(1,1)] word_unat_eq_iff [symmetric])
  have first: "lookup fs' (dmap_key (store_key store fs) h (unat i)) = Some (File (pack_bits bits))"
    if "dmaps_ok store fs" "distinct (map fst (x # parts))" "bits \<noteq> []"
    using that x IH(3) [of i] f(5) assms(1) by (auto simp: dmaps_ok_def Let_def)
  show ?case
    using pb r x IH(1) flush_frame_trans [OF ff(1) IH(2)] other first IH(4,5) ff(2)
    by (intro exI [of _ b'] exI [of _ fs']) auto
qed

text \<open>Every non-empty bitmap of the object is in its file.\<close>

definition flushed :: "'db mstore \<Rightarrow> bstore \<Rightarrow> string \<Rightarrow> fsys \<Rightarrow> bool" where
  "flushed m store h fs \<longleftrightarrow> (\<forall>i. bits_of (ms_bitmap m) h i \<noteq> [] \<longrightarrow>
     lookup fs (dmap_key (store_key store fs) h (unat i)) = Some (File (pack_bits (bits_of (ms_bitmap m) h i))))"

lemma flushBitmaps_ok:
  assumes "store_ok store fs" and "hash_ok h" and "ms_cache_root m = bs_root store"
  shows "\<exists>b fs'. flushBitmaps m h fs = (Inr b, fs') \<and> flush_frame store h fs fs' \<and>
    (dmaps_ok store fs \<longrightarrow> dmaps_ok store fs' \<and> (bitmaps_wf (ms_bitmap m) \<longrightarrow> flushed m store h fs'))"
proof (cases "map_of (ms_bitmap m) h")
  case None
  then show ?thesis
    using assms by (intro exI [of _ True] exI [of _ fs])
      (simp add: flushBitmaps_def flush_frame_refl store_okD(1) flushed_def bits_of_def)
next
  case (Some parts)
  obtain b fs' where f: "flush_parts m h parts True fs = (Inr b, fs')" "flush_frame store h fs fs'"
      "dmaps_ok store fs \<Longrightarrow> dmaps_ok store fs'"
      "dmaps_ok store fs \<Longrightarrow> distinct (map fst parts) \<Longrightarrow> \<forall>(i, bits) \<in> set parts. bits \<noteq> [] \<longrightarrow>
         lookup fs' (dmap_key (store_key store fs) h (unat i)) = Some (File (pack_bits bits))"
    using flush_parts_ok [OF assms(2,3,1), of parts True] by blast
  have key: "store_key store fs' = store_key store fs" using f(2) by (simp add: flush_frame_def store_key_env)
  have "flushed m store h fs'" if d: "dmaps_ok store fs" "bitmaps_wf (ms_bitmap m)"
  proof -
    have "distinct (map fst parts)" using d(2) Some by (auto simp: bitmaps_wf_def)
    note files = f(4) [OF d(1) this]
    show ?thesis
      unfolding flushed_def key
    proof (intro allI impI)
      fix i assume ne: "bits_of (ms_bitmap m) h i \<noteq> []"
      then have "map_of parts i = Some (bits_of (ms_bitmap m) h i)"
        by (auto simp: bits_of_def Some split: option.splits)
      with files ne show "lookup fs' (dmap_key (store_key store fs) h (unat i)) =
          Some (File (pack_bits (bits_of (ms_bitmap m) h i)))"
        by (auto dest: map_of_SomeD)
    qed
  qed
  then show ?thesis using f(1-3) Some by (simp add: flushBitmaps_def)
qed

lemma flush_frame_flushed:
  assumes "flushed m store h fs" and "flush_frame store h' fs fs'" and "hash_ok h" and "hash_ok h'" and "h' \<noteq> h"
  shows "flushed m store h fs'"
proof -
  have key: "store_key store fs' = store_key store fs" using assms(2) by (simp add: flush_frame_def store_key_env)
  have "lookup fs' (dmap_key (store_key store fs) h i) = lookup fs (dmap_key (store_key store fs) h i)" for i
    using assms(2,5) dmap_key_inject [OF assms(3,4)] unfolding flush_frame_def by (metis shard_keys_differ(5,6))
  then show ?thesis using assms(1) by (simp add: flushed_def key)
qed

section \<open>Flushing the cache\<close>

lemma flush_entries_ok:
  assumes "ms_cache_root m = bs_root store" and "bitmaps_wf (ms_bitmap m)"
  shows "store_ok store fs \<Longrightarrow> dmaps_ok store fs \<Longrightarrow> (\<forall>(p, a, ce) \<in> set es. hash_ok (ce_hash_hex ce)) \<Longrightarrow>
    \<exists>fs'. flush_entries m es fs = (Inr (), fs') \<and> same_env fs fs' \<and> store_ok store fs' \<and> store_abs store fs' = store_abs store fs \<and>
      (\<forall>(p, a, ce) \<in> set es. flushed m store (ce_hash_hex ce) fs') \<and>
      (\<forall>h. hash_ok h \<longrightarrow> flushed m store h fs \<longrightarrow> flushed m store h fs') \<and>
      dmaps_ok store fs' \<and> (\<forall>k. lookup fs k = Some Dir \<longrightarrow> lookup fs' k = Some Dir)"
proof (induction es arbitrary: fs)
  case (Cons e es)
  obtain p a ce where e: "e = (p, a, ce)" by (metis prod_cases3)
  let ?h = "ce_hash_hex ce"
  have h: "hash_ok ?h" using Cons.prems(3) e by simp
  obtain b fs1 where f: "flushBitmaps m ?h fs = (Inr b, fs1)" "flush_frame store ?h fs fs1" "dmaps_ok store fs1"
      "flushed m store ?h fs1"
    using flushBitmaps_ok [OF Cons.prems(1) h assms(1)] Cons.prems(2) assms(2) by blast
  have abs: "store_abs store fs1 = store_abs store fs"
    by (intro ext) (simp add: flush_frame_store(2) [OF Cons.prems(1) f(2)])
  have "\<forall>(p, a, ce) \<in> set es. hash_ok (ce_hash_hex ce)" using Cons.prems(3) by simp
  from Cons.IH [OF flush_frame_store(1) [OF Cons.prems(1) f(2)] f(3) this]
  obtain fs' where IH: "flush_entries m es fs1 = (Inr (), fs')" "same_env fs1 fs'" "store_ok store fs'" "store_abs store fs' = store_abs store fs1"
      "\<forall>(p, a, ce) \<in> set es. flushed m store (ce_hash_hex ce) fs'"
      "\<And>h. hash_ok h \<Longrightarrow> flushed m store h fs1 \<Longrightarrow> flushed m store h fs'"
      "dmaps_ok store fs'" "\<And>k. lookup fs1 k = Some Dir \<Longrightarrow> lookup fs' k = Some Dir"
    by blast
  have dirs: "lookup fs' k = Some Dir" if "lookup fs k = Some Dir" for k
    using that f(2) Cons.prems(2) h IH(8) [of k] unfolding flush_frame_def dmaps_ok_def Let_def by metis
  have "flushed m store h' fs'" if "hash_ok h'" "flushed m store h' fs" for h'
    using that IH(6) flush_frame_flushed [OF that(2) f(2) that(1) h] f(4) by (cases "h' = ?h") auto
  moreover have "same_env fs fs'" using f(2) IH(2) by (auto simp: flush_frame_def intro: same_env_trans)
  ultimately show ?case using e f(1) IH(1,3-5,7) abs dirs IH(6) [OF h f(4)] by simp
qed simp

section \<open>What a write keeps for the flush\<close>

definition meta_keeps :: "'db mstore \<Rightarrow> 'db mstore \<Rightarrow> bool" where
  "meta_keeps m m' \<longleftrightarrow> ms_cache_root m' = ms_cache_root m \<and> (bitmaps_wf (ms_bitmap m) \<longrightarrow> bitmaps_wf (ms_bitmap m'))"

lemma markDirtyBlock_keeps: "markDirtyBlock h i b m = Inr m' \<Longrightarrow> meta_keeps m m'"
  by (auto simp: markDirtyBlock_def Let_def meta_keeps_def bitmaps_wf_def set_bits_def update_conv distinct_update
      split: if_splits option.splits)

lemma write_turn_meta:
  "write_turn path a ce buf len off dn fd st w = (r, st', w') \<Longrightarrow> meta_keeps (cs_meta st) (cs_meta st')"
  by (auto simp: write_turn_def Let_def touch_block_def meta_keeps_def [of m m for m]
      split: prod.splits sum.splits dest: markDirtyBlock_keeps)

lemma write_loop_meta:
  "write_loop path a ce buf len off dn fd st w = (r, st', w') \<Longrightarrow> meta_keeps (cs_meta st) (cs_meta st')"
  by (drule write_loop_rel [where R = "\<lambda>x y. meta_keeps (cs_meta (fst x)) (cs_meta (fst y))", rotated -1])
    (auto dest: write_turn_meta simp: meta_keeps_def)

lemma entry_meta: "entry ev path st = (x, st') \<Longrightarrow> cs_meta st' = cs_meta st"
  by (auto simp: entry_def Let_def put_entry_def split: option.splits)

lemma cm_write_meta: "cm_write ev path buf len off st w = (r, st', w') \<Longrightarrow> meta_keeps (cs_meta st) (cs_meta st')"
  by (auto simp: cm_write_def meta_keeps_def [of m m for m] split: prod.splits if_splits
      dest!: entry_meta write_loop_meta)

lemma set_update: "x \<in> set (AList.update k v al) \<Longrightarrow> x = (k, v) \<or> x \<in> set al"
  by (induction al) (auto split: if_splits)

section \<open>Properties of flushing and eviction\<close>

lemma dirty_bit_on_disk:
  assumes "flushed m store h fs" and "dirty_at m h (of_nat i) b" and "i < 18446744073709551616"
  shows "\<exists>bs. lookup fs (dmap_key (store_key store fs) h i) = Some (File bs) \<and> b div 8 < length bs \<and>
    bit (bs ! (b div 8)) (b mod 8)"
proof -
  let ?bits = "bits_of (ms_bitmap m) h (of_nat i)"
  have b: "b < length ?bits" "?bits ! b" using assms(2) by (auto simp: dirty_at_def)
  then have "?bits \<noteq> []" by auto
  moreover have "unat (of_nat i :: u64) = i" using assms(3) by (simp add: unat_of_nat)
  ultimately have "lookup fs (dmap_key (store_key store fs) h i) = Some (File (pack_bits ?bits))"
    using assms(1) unfolding flushed_def by metis
  moreover have k: "b div 8 < (length ?bits + 7) div 8" using b(1) by linarith
  then have "bit (pack_bits ?bits ! (b div 8)) (b mod 8)"
    using bit_pack_bits [OF k, of "b mod 8"] b by simp
  ultimately show ?thesis using k by (auto simp: length_pack_bits)
qed

text \<open>A write and the flush after it.\<close>

lemma cm_write_flush:
  assumes ok: "store_ok (cs_store st) (w_fs w)" and mir: "mirror_ok (cs_store st) (cs_root st) path (w_fs w)"
    and e: "entry_ok ev path st" and lim: "unat off + unat len < 9223372036854775808" "unat len \<le> length buf"
    and dm: "dmaps_ok (cs_store st) (w_fs w)" and wf: "bitmaps_wf (ms_bitmap (cs_meta st))"
    and rt: "ms_cache_root (cs_meta st) = bs_root (cs_store st)"
    and names: "\<forall>(p, a, ce) \<in> set (cs_entries st). hash_ok (ce_hash_hex ce)"
  shows "\<exists>fd st' w' fs'. cm_write ev path buf len off st w = (Inr (int (unat len)), st', w') \<and>
    write_inv (hash_hex (ev_hash ev) path) buf (unat off) (cs_store st) (cs_root st) path w (unat len) fd st' w' \<and>
    flush_all st' w' = (Inr (), w'\<lparr>w_fs := fs'\<rparr>) \<and> same_env (w_fs w) fs' \<and> store_ok (cs_store st) fs' \<and>
    store_abs (cs_store st) fs' = store_abs (cs_store st) (w_fs w') \<and>
    flushed (cs_meta st') (cs_store st) (hash_hex (ev_hash ev) path) fs'"
proof -
  let ?h = "hash_hex (ev_hash ev) path" and ?s = "cs_store st"
  obtain fd st' w' where wr: "cm_write ev path buf len off st w = (Inr (int (unat len)), st', w')"
    and inv: "write_inv ?h buf (unat off) ?s (cs_root st) path w (unat len) fd st' w'"
    using cm_write_inv [OF ok mir e lim] by blast
  have st': "store_ok ?s (w_fs w')" "only_shards ?s (w_fs w) (w_fs w')" using inv by (simp_all add: write_inv_def)
  have dm': "dmaps_ok ?s (w_fs w')" by (rule dmaps_only_shards [OF dm st'(2)])
  note mk = cm_write_meta [OF wr, unfolded meta_keeps_def]
  obtain a ce st1 where en: "entry ev path st = ((a, ce), st1)" "\<not> ce_evicted ce" "ce_hash_hex ce = ?h"
      "map_of (cs_entries st1) path = Some (a, ce)"
    by (rule entry_cases [OF e])
  have es: "cs_entries st' = cs_entries st1"
    using wr en(1,2) by (auto simp: cm_write_def dest: write_loop_entries)
  have "hash_ok (ce_hash_hex c)" if "(p, a', c) \<in> set (cs_entries st1)" for p a' c
    using that en(1) names by (auto simp: entry_def Let_def put_entry_def split: option.splits dest!: set_update)
  then have "\<forall>(p, a, ce) \<in> set (cs_entries st'). hash_ok (ce_hash_hex ce)" by (auto simp: es)
  then obtain fs' where fl: "flush_entries (cs_meta st') (cs_entries st') (w_fs w') = (Inr (), fs')"
      "store_abs ?s fs' = store_abs ?s (w_fs w')" "store_ok ?s fs'"
      "\<forall>(p, a, ce) \<in> set (cs_entries st'). flushed (cs_meta st') ?s (ce_hash_hex ce) fs'" "same_env (w_fs w') fs'"
    using flush_entries_ok [of "cs_meta st'" ?s "w_fs w'" "cs_entries st'"] mk rt wf st'(1) dm' by auto
  have "flushed (cs_meta st') ?s ?h fs'"
    using fl(4) map_of_SomeD [OF en(4)] en(3) unfolding es by auto
  moreover have "same_env (w_fs w) fs'" using st'(2) fl(5) by (auto simp: only_shards_def intro: same_env_trans)
  moreover have "flush_all st' w' = (Inr (), w'\<lparr>w_fs := fs'\<rparr>)" using fl(1) by (simp add: flush_all_def)
  ultimately show ?thesis using wr inv fl(2,3) by blast
qed

text \<open>C6: after a write, a flush of the cache does not throw, keeps every byte of the block store and
  leaves on disk, in the bitmap file of the right part, a set bit for every block the write touched.\<close>

theorem write_then_flush_persists:
  assumes "store_ok (cs_store st) (w_fs w)" and "mirror_ok (cs_store st) (cs_root st) path (w_fs w)"
    and "entry_ok ev path st" and "unat off + unat len < 9223372036854775808" and "unat len \<le> length buf"
    and "dmaps_ok (cs_store st) (w_fs w)" and "bitmaps_wf (ms_bitmap (cs_meta st))"
    and "ms_cache_root (cs_meta st) = bs_root (cs_store st)"
    and "\<forall>(p, a, ce) \<in> set (cs_entries st). hash_ok (ce_hash_hex ce)"
  shows "\<exists>st' w' w''. cm_write ev path buf len off st w = (Inr (int (unat len)), st', w') \<and>
    flush_all st' w' = (Inr (), w'') \<and>
    store_abs (cs_store st) (w_fs w'') = store_abs (cs_store st) (w_fs w') \<and>
    (\<forall>p < unat len. let b = (unat off + p) div 65536 in
       \<exists>bs. lookup (w_fs w'') (dmap_key (store_key (cs_store st) (w_fs w)) (hash_hex (ev_hash ev) path) (b * 65536 div part_size)) =
           Some (File bs) \<and> b div 8 < length bs \<and> bit (bs ! (b div 8)) (b mod 8))"
proof -
  let ?h = "hash_hex (ev_hash ev) path" and ?s = "cs_store st"
  obtain fd st' w' fs' where wr: "cm_write ev path buf len off st w = (Inr (int (unat len)), st', w')"
      "write_inv ?h buf (unat off) ?s (cs_root st) path w (unat len) fd st' w'"
    and fl: "flush_all st' w' = (Inr (), w'\<lparr>w_fs := fs'\<rparr>)" "same_env (w_fs w) fs'"
      "store_abs ?s fs' = store_abs ?s (w_fs w')" "flushed (cs_meta st') ?s ?h fs'"
    using cm_write_flush [OF assms] by blast
  note key = store_key_env [OF fl(2), of ?s]
  have bits: "\<exists>bs. lookup fs' (dmap_key (store_key ?s (w_fs w)) ?h (b * 65536 div part_size)) = Some (File bs) \<and>
      b div 8 < length bs \<and> bit (bs ! (b div 8)) (b mod 8)"
    if p: "p < unat len" "b = (unat off + p) div 65536" for p b
  proof -
    have "b * 65536 div part_size < 18446744073709551616" using p assms(4) by simp
    moreover have "dirty_at (cs_meta st') ?h (of_nat (b * 65536 div part_size)) b"
      using wr(2) p by (simp add: write_inv_def marked_def)
    ultimately show ?thesis using dirty_bit_on_disk [OF fl(4)] key by metis
  qed
  then show ?thesis using wr(1) fl(1,3) by (auto simp: Let_def)
qed

lemma evict_entry_ok:
  assumes ok: "store_ok (cs_store st) fs" and rt: "ms_cache_root (cs_meta st) = bs_root (cs_store st)"
    and found: "drop_bit 32 key \<noteq> 0" "entry_at (drop_bit 32 key) (cs_entries st) = Some (path, ce)"
      "\<not> ce_evicted ce" "hash_ok (ce_hash_hex ce)"
  shows "\<exists>st' fs'. evict_entry key st fs = (Inr (), st', fs') \<and> evicted path st' \<and> store_ok (cs_store st') fs' \<and>
    (\<forall>i. store_abs (cs_store st) fs' (ce_hash_hex ce) i = None) \<and>
    (\<forall>h. hash_ok h \<and> h \<noteq> ce_hash_hex ce \<longrightarrow> store_abs (cs_store st) fs' h = store_abs (cs_store st) fs h) \<and>
    (\<forall>q. q \<noteq> path \<longrightarrow> map_of (cs_entries st') q = map_of (cs_entries st) q) \<and>
    (dmaps_ok (cs_store st) fs \<and> bitmaps_wf (ms_bitmap (cs_meta st)) \<longrightarrow>
       flushed (cs_meta st) (cs_store st) (ce_hash_hex ce) fs')"
proof -
  let ?s = "cs_store st" and ?h = "ce_hash_hex ce"
  obtain r fs1 where del: "delete_object ?s ?h fs = (r, fs1)" by force
  note d = delete_object_frame [OF ok found(4) del]
  have ok1: "store_ok ?s fs1" by (rule bs.del_ok [OF ok found(4) del])
  obtain b fs2 where fl: "flushBitmaps (cs_meta st) ?h fs1 = (Inr b, fs2)" "flush_frame ?s ?h fs1 fs2"
      "dmaps_ok ?s fs1 \<Longrightarrow> bitmaps_wf (ms_bitmap (cs_meta st)) \<Longrightarrow> flushed (cs_meta st) ?s ?h fs2"
    using flushBitmaps_ok [OF ok1 found(4) rt] by blast
  let ?st' = "put_entry path (drop_bit 32 key) (ce\<lparr>ce_evicted := True\<rparr>) st"
  have "lookup fs1 k \<noteq> Some Dir" if "lookup fs k \<noteq> Some Dir" for k using d(4) [of k] that by auto
  then have dm: "dmaps_ok ?s fs1" if "dmaps_ok ?s fs"
    using that d(1) by (simp add: dmaps_ok_def Let_def store_key_env [OF d(1)]) (simp add: same_env_def)
  have ev: "evict_entry key st fs = (Inr (), ?st', fs2)"
    using found(1-3) del d(3) fl(1) by (auto simp: evict_entry_def Let_def)
  have abs: "store_abs ?s fs2 h' = (if h' = ?h then (\<lambda>_. None) else store_abs ?s fs h')" if "hash_ok h'" for h'
    using bs.del_contents [OF ok found(4) that del] flush_frame_store(2) [OF ok1 fl(2)] by auto
  have "evicted path ?st'" "store_ok (cs_store ?st') fs2"
    using flush_frame_store(1) [OF ok1 fl(2)] by (simp_all add: evicted_def map_of_put_entry) (simp add: put_entry_def)
  moreover have "\<forall>q. q \<noteq> path \<longrightarrow> map_of (cs_entries ?st') q = map_of (cs_entries st) q" by (simp add: map_of_put_entry)
  ultimately show ?thesis
    using ev abs found(4) fl(3) dm by (intro exI [of _ ?st'] exI [of _ fs2]) auto
qed

text \<open>C10: evicting an entry, once its address is found, never throws on a store in order: afterwards
  the store holds no byte of the entry's object and every byte of all other objects, the entry is
  marked evicted for good and no other entry has changed.  The flush that follows the deletion writes
  the object's dirty bitmaps again, although the blocks they mark, dirty or not, are gone.\<close>

theorem evict_entry_drops_object:
  assumes ok: "store_ok (cs_store st) fs" and rt: "ms_cache_root (cs_meta st) = bs_root (cs_store st)"
    and found: "drop_bit 32 key \<noteq> 0" "entry_at (drop_bit 32 key) (cs_entries st) = Some (path, ce)"
      "\<not> ce_evicted ce" "hash_ok (ce_hash_hex ce)"
  shows "\<exists>st' fs'. evict_entry key st fs = (Inr (), st', fs') \<and> evicted path st' \<and> store_ok (cs_store st') fs' \<and>
    (\<forall>i. store_abs (cs_store st) fs' (ce_hash_hex ce) i = None) \<and>
    (\<forall>h. hash_ok h \<and> h \<noteq> ce_hash_hex ce \<longrightarrow> store_abs (cs_store st) fs' h = store_abs (cs_store st) fs h) \<and>
    (\<forall>q. q \<noteq> path \<longrightarrow> map_of (cs_entries st') q = map_of (cs_entries st) q) \<and>
    (dmaps_ok (cs_store st) fs \<and> bitmaps_wf (ms_bitmap (cs_meta st)) \<longrightarrow>
       flushed (cs_meta st) (cs_store st) (ce_hash_hex ce) fs')"
  using evict_entry_ok [OF assms] .

section \<open>Witnesses\<close>

lemma demo_dmaps: "dmaps_ok (cs_store demo_cache) (w_fs (demo_world net))"
  by (auto simp: dmaps_ok_def demo_cache_fields demo_world_def store_key_def BlockStore_def demo_root dmap_key_def
      lookup_def Let_def root_fs_def)

lemma demo_meta: "bitmaps_wf (ms_bitmap (cs_meta demo_cache))"
  "ms_cache_root (cs_meta demo_cache) = bs_root (cs_store demo_cache)"
  by (simp_all add: bitmaps_wf_def demo_cache_def CacheManager_def Let_def ms_init_def MetadataStore_def demo_env_def
      mem_sqlite_def BlockStore_def)

theorem write_then_flush_persists_witness:
  "\<exists>st' w' w'' bs. cm_write demo_env ''/file'' [1, 2, 3] 3 7 demo_cache (demo_world []) = (Inr 3, st', w') \<and>
     flush_all st' w' = (Inr (), w'') \<and>
     lookup (w_fs w'') (dmap_key [''c''] (hash_hex (ev_hash demo_env) ''/file'') 0) = Some (File bs) \<and> bit (bs ! 0) 0"
proof -
  have key: "store_key (cs_store demo_cache) (w_fs (demo_world [])) = [''c'']"
    by (simp add: demo_cache_fields demo_world_def store_key_def BlockStore_def demo_root)
  have names: "\<forall>(p, a, ce) \<in> set (cs_entries demo_cache). hash_ok (ce_hash_hex ce)" by (simp add: demo_cache_fields)
  show ?thesis
    using write_then_flush_persists [OF demo_store(1) demo_mirror_ok demo_entry_ok _ _ demo_dmaps demo_meta names,
        of 7 3 "[1, 2, 3]" "[]"]
    by (force simp: key Let_def)
qed

text \<open>A cache with one live entry at address 7.\<close>

definition live_cache :: "mem_db cstate" where
  "live_cache = demo_cache\<lparr>cs_entries := [(''/a'', 7, \<lparr>ce_path = ''/a'',
     ce_hash_hex = hash_hex (ev_hash demo_env) ''/a'', ce_last_block = 0, ce_evicted = False\<rparr>)]\<rparr>"

theorem evict_entry_drops_object_witness:
  "\<exists>st' fs'. evict_entry (lru_key 7 5) live_cache root_fs = (Inr (), st', fs') \<and> evicted ''/a'' st' \<and>
     store_abs (cs_store live_cache) fs' (hash_hex (ev_hash demo_env) ''/a'') 0 = None"
proof -
  have key: "drop_bit 32 (lru_key 7 5) = 7" by (simp add: lru_key_def)
  have st: "store_ok (cs_store live_cache) root_fs" "ms_cache_root (cs_meta live_cache) = bs_root (cs_store live_cache)"
    using demo_store(1) [of "[]"] demo_meta(2) by (simp_all add: live_cache_def demo_world_def)
  show ?thesis
    using evict_entry_drops_object [OF st, of "lru_key 7 5"] by (force simp: key live_cache_def)
qed

end
