(* ===== verification/Cache_Prefetch.thy ===== *)
theory Cache_Prefetch
  imports Cache_Writes
begin

text \<open>
  The prefetch jobs of the cache manager: a job that starts behind a complete block fetches the
  window of blocks after it, keeps the cached copy consistent with the remote object and leaves every
  whole block of the window in the store, so that later reads of the window stay local.
\<close>

section \<open>One block of a job\<close>

text \<open>A block that is past the end of the object, or whose predecessors are complete.\<close>

definition reachable_block :: "bytes \<Rightarrow> (nat \<Rightarrow> bytes option) \<Rightarrow> nat \<Rightarrow> bool" where
  "reachable_block F c b \<longleftrightarrow> length F \<le> b * 65536 \<or> no_hole c b"

text \<open>The blocks complete in one store are complete in the other.\<close>

definition keeps_blocks :: "(nat \<Rightarrow> bytes option) \<Rightarrow> (nat \<Rightarrow> bytes option) \<Rightarrow> bool" where
  "keeps_blocks c c' \<longleftrightarrow> (\<forall>b. length (block_at c b) = 65536 \<longrightarrow> length (block_at c' b) = 65536)"

lemma keeps_blocks_refl [simp]: "keeps_blocks c c"
  by (simp add: keeps_blocks_def)

lemma keeps_blocks_trans: "keeps_blocks c c1 \<Longrightarrow> keeps_blocks c1 c2 \<Longrightarrow> keeps_blocks c c2"
  by (simp add: keeps_blocks_def)

lemma reachable_block_Suc:
  "length (block_at c b) = 65536 \<or> length F < (b + 1) * 65536 \<Longrightarrow> reachable_block F c (b + 1)"
  using no_hole_Suc [of c b] by (auto simp: reachable_block_def)

lemma bs_write_keeps_blocks:
  assumes "store_ok store fs" and "hash_ok h" and "bs_write store h d off m fs = (r, fs')"
  shows "keeps_blocks (store_abs store fs h) (store_abs store fs' h)"
  unfolding keeps_blocks_def
proof (intro allI impI)
  fix b assume full: "length (block_at (store_abs store fs h) b) = 65536"
  then obtain x where x: "store_abs store fs h (b * 65536 div part_size) = Some x"
      "b * 65536 mod part_size + 65536 \<le> length x"
    by (auto simp: block_at_def length_slice min_def split: option.splits if_splits)
  obtain y where y: "store_abs store fs' h (b * 65536 div part_size) = Some y" "length x \<le> length y"
  proof (cases "b * 65536 div part_size = unat off div part_size")
    case True
    with bs.wr_contents [OF assms(1,2,2,3), of "b * 65536 div part_size"] x(1) show ?thesis
      by (intro that [of "file_write x (unat off mod part_size) d"]) (simp_all add: length_file_write)
  next
    case False
    with bs.wr_contents [OF assms(1,2,2,3), of "b * 65536 div part_size"] x(1) show ?thesis
      by (intro that [of x]) simp_all
  qed
  with x(2) show "length (block_at (store_abs store fs' h) b) = 65536"
    by (simp add: block_at_def length_slice)
qed

text \<open>The three ways a turn goes: the block is complete in the store, it is fetched, or it lies past
  the end of the object.\<close>

lemma prefetch_turn_hit:
  assumes ok: "store_ok (cs_store st) (w_fs w)" and h: "hash_ok (ce_hash_hex ce)" and boff: "unat (blk * kBlockSize) = b * 65536"
    and full: "length (block_at (store_abs (cs_store st) (w_fs w) (ce_hash_hex ce)) b) = 65536"
  shows "prefetch_turn ev ce f blk st w = (True, st, w)"
proof -
  have "store_abs (cs_store st) (w_fs w) (ce_hash_hex ce) (b * 65536 div part_size) \<noteq> None"
    using full by (auto simp: block_at_def split: option.splits)
  then show ?thesis using read_block [OF ok h boff, of "ev_stack ev blk"] full by (auto simp: prefetch_turn_def)
qed

lemma prefetch_turn_miss:
  assumes ok: "store_ok (cs_store st) (w_fs w)" and h: "hash_ok (ce_hash_hex ce)" and boff: "unat (blk * kBlockSize) = b * 65536"
    and short: "length (block_at (store_abs (cs_store st) (w_fs w) (ce_hash_hex ce)) b) \<noteq> 65536"
    and stack: "length (ev_stack ev blk) = 65536"
  obtains buf where "length buf = 65536" and "prefetch_turn ev ce f blk st w =
    (case backend_read_range (ev_cu ev) (ev_backend ev) (ce_path ce) buf kBlockSize (blk * kBlockSize) (w_net w) of
       (got, buf', net) \<Rightarrow>
         (if got \<le> 0 then (True, st, w\<lparr>w_net := net\<rparr>)
          else case bs_write (cs_store st) (ce_hash_hex ce) (take (nat got) buf') (blk * kBlockSize) False (w_fs w) of
            (Inl e, fs') \<Rightarrow> (False, st, w\<lparr>w_net := net, w_fs := fs'\<rparr>)
          | (Inr _, fs') \<Rightarrow>
              (True, touch_block (ev_capture ev (ce, f)) blk (Fin (1 / 4)) st, w\<lparr>w_net := net, w_fs := fs'\<rparr>)))"
proof
  let ?buf = "splice (ev_stack ev blk) 0 (block_at (store_abs (cs_store st) (w_fs w) (ce_hash_hex ce)) b)"
  show "length ?buf = 65536"
    using stack length_block_at [of "store_abs (cs_store st) (w_fs w) (ce_hash_hex ce)" b] by (simp add: length_splice)
  show "prefetch_turn ev ce f blk st w =
    (case backend_read_range (ev_cu ev) (ev_backend ev) (ce_path ce) ?buf kBlockSize (blk * kBlockSize) (w_net w) of
       (got, buf', net) \<Rightarrow>
         (if got \<le> 0 then (True, st, w\<lparr>w_net := net\<rparr>)
          else case bs_write (cs_store st) (ce_hash_hex ce) (take (nat got) buf') (blk * kBlockSize) False (w_fs w) of
            (Inl e, fs') \<Rightarrow> (False, st, w\<lparr>w_net := net, w_fs := fs'\<rparr>)
          | (Inr _, fs') \<Rightarrow>
              (True, touch_block (ev_capture ev (ce, f)) blk (Fin (1 / 4)) st, w\<lparr>w_net := net, w_fs := fs'\<rparr>)))"
    using read_block [OF ok h boff, of "ev_stack ev blk"] short by (simp add: prefetch_turn_def Let_def)
qed

lemma prefetch_turn_fetch:
  assumes srv: "serves ev content (ce_path ce) F (w_net w)"
    and st: "store_ok (cs_store st) (w_fs w)" "hash_ok (ce_hash_hex ce)" "unat (blk * kBlockSize) = b * 65536"
      "length (block_at (store_abs (cs_store st) (w_fs w) (ce_hash_hex ce)) b) \<noteq> 65536" "length (ev_stack ev blk) = 65536"
    and b: "b * 65536 < length F" "b * 65536 + 65536 < 9223372036854775808"
  shows "\<exists>net r fs'. prefetch_turn ev ce f blk st w =
      (True, touch_block (ev_capture ev (ce, f)) blk (Fin (1 / 4)) st, w\<lparr>w_net := net, w_fs := fs'\<rparr>) \<and>
    serves ev content (ce_path ce) F net \<and> content net = content (w_net w) \<and>
    bs_write (cs_store st) (ce_hash_hex ce) (slice (b * 65536) 65536 F) (blk * kBlockSize) False (w_fs w) = (r, fs')"
proof -
  let ?d = "slice (b * 65536) 65536 F"
  obtain buf where buf: "length buf = 65536" and turn: "prefetch_turn ev ce f blk st w =
    (case backend_read_range (ev_cu ev) (ev_backend ev) (ce_path ce) buf kBlockSize (blk * kBlockSize) (w_net w) of
       (got, buf', net) \<Rightarrow>
         (if got \<le> 0 then (True, st, w\<lparr>w_net := net\<rparr>)
          else case bs_write (cs_store st) (ce_hash_hex ce) (take (nat got) buf') (blk * kBlockSize) False (w_fs w) of
            (Inl e, fs') \<Rightarrow> (False, st, w\<lparr>w_net := net, w_fs := fs'\<rparr>)
          | (Inr _, fs') \<Rightarrow>
              (True, touch_block (ev_capture ev (ce, f)) blk (Fin (1 / 4)) st, w\<lparr>w_net := net, w_fs := fs'\<rparr>)))"
    by (rule prefetch_turn_miss [OF st])
  obtain net where fetched: "backend_read_range (ev_cu ev) (ev_backend ev) (ce_path ce) buf kBlockSize (blk * kBlockSize) (w_net w) =
      (int (length ?d), splice buf 0 ?d, net)" "0 < length ?d" "serves ev content (ce_path ce) F net"
      "content net = content (w_net w)"
    using range_fetched [OF srv st(3) b buf] by blast
  obtain r fs' where wr: "bs_write (cs_store st) (ce_hash_hex ce) ?d (blk * kBlockSize) False (w_fs w) = (r, fs')" by force
  have "take (length ?d) (splice buf 0 ?d) = ?d" by (simp add: splice_def)
  then have "prefetch_turn ev ce f blk st w =
      (True, touch_block (ev_capture ev (ce, f)) blk (Fin (1 / 4)) st, w\<lparr>w_net := net, w_fs := fs'\<rparr>)"
    using turn fetched(1,2) wr bs.wr_result [OF st(1,2) wr] by simp
  then show ?thesis using fetched(3,4) wr by blast
qed

lemma prefetch_turn_past:
  assumes srv: "serves ev content (ce_path ce) F (w_net w)"
    and st: "store_ok (cs_store st) (w_fs w)" "hash_ok (ce_hash_hex ce)" "unat (blk * kBlockSize) = b * 65536"
      "length (block_at (store_abs (cs_store st) (w_fs w) (ce_hash_hex ce)) b) \<noteq> 65536" "length (ev_stack ev blk) = 65536"
    and b: "length F \<le> b * 65536" "b * 65536 + 65536 < 9223372036854775808"
  shows "\<exists>net. prefetch_turn ev ce f blk st w = (True, st, w\<lparr>w_net := net\<rparr>) \<and> serves ev content (ce_path ce) F net \<and>
    content net = content (w_net w)"
proof -
  obtain hb where be: "ev_backend ev = Some hb"
    and up: "range_server (ev_cu ev) (base_url hb) content \<and> no_nul (base_url hb)"
    and path: "no_nul (ce_path ce)" and F: "content (w_net w) (ce_path ce) = Some F"
    using srv unfolding serves_def by blast
  obtain buf where buf: "length buf = 65536" and turn: "prefetch_turn ev ce f blk st w =
    (case backend_read_range (ev_cu ev) (ev_backend ev) (ce_path ce) buf kBlockSize (blk * kBlockSize) (w_net w) of
       (got, buf', net) \<Rightarrow>
         (if got \<le> 0 then (True, st, w\<lparr>w_net := net\<rparr>)
          else case bs_write (cs_store st) (ce_hash_hex ce) (take (nat got) buf') (blk * kBlockSize) False (w_fs w) of
            (Inl e, fs') \<Rightarrow> (False, st, w\<lparr>w_net := net, w_fs := fs'\<rparr>)
          | (Inr _, fs') \<Rightarrow>
              (True, touch_block (ev_capture ev (ce, f)) blk (Fin (1 / 4)) st, w\<lparr>w_net := net, w_fs := fs'\<rparr>)))"
    by (rule prefetch_turn_miss [OF st])
  obtain n buf' net where rr: "backend_read_range (ev_cu ev) (Some hb) (ce_path ce) buf kBlockSize (blk * kBlockSize) (w_net w) =
      (n, buf', net)"
    by (metis prod_cases3)
  have lim: "0 < unat kBlockSize" "unat kBlockSize \<le> length buf" "unat (blk * kBlockSize) + unat kBlockSize < 9223372036854775808"
    using st(3) b(2) buf by simp_all
  have "n \<le> 0" using http.rd_none [OF up path _ lim, of "w_net w" F] F b(1) st(3) rr by simp
  moreover have "serves ev content (ce_path ce) F net \<and> content net = content (w_net w)"
    using http.rd_world [OF up path lim, of "w_net w"] rr be up path F by (auto simp: serves_def)
  ultimately show ?thesis using turn be rr by auto
qed

lemma prefetch_turn_ok:
  assumes rt: "read_through ev content (cs_store st) path F w"
    and ce: "ce_path ce = path" "ce_hash_hex ce = hash_hex (ev_hash ev) path"
    and b: "unat blk = b" "b * 65536 + 65536 < 9223372036854775808"
    and reach: "reachable_block F (store_abs (cs_store st) (w_fs w) (ce_hash_hex ce)) b"
    and stack: "length (ev_stack ev blk) = 65536"
  shows "\<exists>st' w'. prefetch_turn ev ce f blk st w = (True, st', w') \<and>
    cs_store st' = cs_store st \<and> cs_entries st' = cs_entries st \<and> read_through ev content (cs_store st') path F w' \<and>
    keeps_blocks (store_abs (cs_store st) (w_fs w) (ce_hash_hex ce)) (store_abs (cs_store st) (w_fs w') (ce_hash_hex ce)) \<and>
    (b * 65536 + 65536 \<le> length F \<longrightarrow>
       length (block_at (store_abs (cs_store st) (w_fs w') (ce_hash_hex ce)) b) = 65536)"
proof -
  let ?h = "ce_hash_hex ce" and ?boff = "blk * kBlockSize" and ?s = "cs_store st" and ?d = "slice (b * 65536) 65536 F"
  let ?c = "store_abs ?s (w_fs w) ?h"
  have h: "hash_ok ?h" by (simp add: ce(2))
  have ok: "store_ok ?s (w_fs w)" and coh: "coherent F ?c" and srv: "serves ev content (ce_path ce) F (w_net w)"
    using rt by (simp_all add: read_through_def ce)
  have boff: "unat ?boff = b * 65536" using b by (simp add: unat_word_ariths)
  consider "length (block_at ?c b) = 65536" | "length (block_at ?c b) \<noteq> 65536" "b * 65536 < length F"
    | "length (block_at ?c b) \<noteq> 65536" "length F \<le> b * 65536"
    by linarith
  then show ?thesis
  proof cases
    case 1
    then show ?thesis using prefetch_turn_hit [OF ok h boff, of ev f] rt by simp
  next
    case 2
    obtain net r fs' where turn: "prefetch_turn ev ce f blk st w =
        (True, touch_block (ev_capture ev (ce, f)) blk (Fin (1 / 4)) st, w\<lparr>w_net := net, w_fs := fs'\<rparr>)"
        "serves ev content (ce_path ce) F net" and wr: "bs_write ?s ?h ?d ?boff False (w_fs w) = (r, fs')"
      using prefetch_turn_fetch [OF srv ok h boff 2(1) stack 2(2) b(2)] by blast
    have "no_hole ?c b" using reach 2(2) by (simp add: reachable_block_def)
    moreover have "?d = slice (unat ?boff) (length ?d) F" using boff by (simp add: slice_def min_def)
    ultimately have "coherent F (store_abs ?s fs' ?h)"
      using boff by (intro bs.coherent_write [OF ok h wr coh]) (simp_all add: no_hole_def)
    moreover have "length (block_at (store_abs ?s fs' ?h) b) = 65536" if "b * 65536 + 65536 \<le> length F"
    proof -
      have "length ?d = 65536" using that by (simp add: length_slice)
      from bs_write_block(1) [OF ok h boff this wr] this show ?thesis by simp
    qed
    ultimately show ?thesis
      using turn bs.wr_ok [OF ok h wr] bs_write_keeps_blocks [OF ok h wr]
      by (simp add: read_through_def ce touch_block_def)
  next
    case 3
    then show ?thesis
      using prefetch_turn_past [OF srv ok h boff 3(1) stack 3(2) b(2), of f] rt by (auto simp: read_through_def ce(1))
  qed
qed

section \<open>The window\<close>

lemma prefetch_turns_ok:
  assumes ce: "ce_path ce = path" "ce_hash_hex ce = hash_hex (ev_hash ev) path"
    and first: "unat first = f" "(f + n) * 65536 < 9223372036854775808"
    and stack: "\<And>b. length (ev_stack ev b) = 65536"
  shows "read_through ev content (cs_store st) path F w \<Longrightarrow>
    reachable_block F (store_abs (cs_store st) (w_fs w) (ce_hash_hex ce)) (f + k) \<Longrightarrow>
    \<exists>st' w'. prefetch_turns ev ce first [k..<n] st w = (st', w') \<and>
      cs_store st' = cs_store st \<and> cs_entries st' = cs_entries st \<and>
      read_through ev content (cs_store st') path F w' \<and>
      keeps_blocks (store_abs (cs_store st) (w_fs w) (ce_hash_hex ce)) (store_abs (cs_store st) (w_fs w') (ce_hash_hex ce)) \<and>
      (\<forall>b. f + k \<le> b \<and> b < f + n \<and> b * 65536 + 65536 \<le> length F \<longrightarrow>
         length (block_at (store_abs (cs_store st) (w_fs w') (ce_hash_hex ce)) b) = 65536)"
proof (induction "n - k" arbitrary: k st w)
  case 0
  then show ?case by (intro exI [of _ st] exI [of _ w]) auto
next
  case (Suc m)
  let ?h = "ce_hash_hex ce" and ?s = "cs_store st"
  let ?c = "\<lambda>w. store_abs ?s (w_fs w) ?h"
  have k: "k < n" using Suc.hyps(2) by simp
  have blk: "unat (first + of_nat k) = f + k"
  proof -
    have "f + k < 2 ^ 64" using first(2) k by simp
    then show ?thesis using first(1) by (simp add: unat_word_ariths unat_of_nat)
  qed
  have lim: "(f + k) * 65536 + 65536 < 9223372036854775808" using first(2) k by simp
  obtain st1 w1 where t: "prefetch_turn ev ce first (first + of_nat k) st w = (True, st1, w1)"
      "cs_store st1 = ?s" "cs_entries st1 = cs_entries st" "read_through ev content (cs_store st1) path F w1"
      "keeps_blocks (?c w) (?c w1)"
      "(f + k) * 65536 + 65536 \<le> length F \<Longrightarrow> length (block_at (?c w1) (f + k)) = 65536"
    using prefetch_turn_ok [OF Suc.prems(1) ce blk lim Suc.prems(2) stack, of first] by blast
  have "reachable_block F (?c w1) (f + k + 1)"
    using t(6) by (intro reachable_block_Suc) auto
  then have reach: "reachable_block F (store_abs (cs_store st1) (w_fs w1) ?h) (f + Suc k)" by (simp add: t(2))
  have m: "m = n - Suc k" using Suc.hyps(2) by simp
  obtain st' w' where ts: "prefetch_turns ev ce first [Suc k..<n] st1 w1 = (st', w')"
      "cs_store st' = cs_store st1" "cs_entries st' = cs_entries st1" "read_through ev content (cs_store st') path F w'"
      and ks: "keeps_blocks (?c w1) (?c w')"
      and rest: "\<And>b. f + Suc k \<le> b \<Longrightarrow> b < f + n \<Longrightarrow> b * 65536 + 65536 \<le> length F \<Longrightarrow> length (block_at (?c w') b) = 65536"
    using Suc.hyps(1) [OF m t(4) reach] unfolding t(2) by blast
  have win: "length (block_at (?c w') b) = 65536"
    if "f + k \<le> b" "b < f + n" "b * 65536 + 65536 \<le> length F" for b
  proof (cases "b = f + k")
    case True
    then show ?thesis using t(6) ks that(3) by (auto simp: keeps_blocks_def)
  qed (use rest that in simp)
  have "prefetch_turns ev ce first [k..<n] st w = (st', w')" using t(1) ts(1) k by (simp add: upt_conv_Cons)
  then show ?case using ts t(2,3) keeps_blocks_trans [OF t(5) ks] win by auto
qed

text \<open>Whole blocks of a consistent copy hold the bytes of the object.\<close>

lemma coherent_range_cached:
  assumes coh: "coherent F c" and le: "off + len \<le> length F"
    and full: "\<And>b. off div 65536 \<le> b \<Longrightarrow> b * 65536 < off + len \<Longrightarrow> length (block_at c b) = 65536"
  shows "range_cached c off len F"
  unfolding range_cached_def
proof (intro allI impI conjI)
  fix b assume b: "off div 65536 \<le> b \<and> b * 65536 < off + len"
  then show len: "length (block_at c b) = 65536" using full by blast
  fix i assume "i < (65536 :: nat)" "off \<le> b * 65536 + i \<and> b * 65536 + i < off + len"
  then show "block_at c b ! i = F ! (b * 65536 + i)"
    using coherent_block [OF coh, of b] le len by (simp add: nth_slice)
qed

section \<open>The job\<close>

text \<open>A prefetch job for an object whose block before the window is complete (or that ends before
  the window) brings every whole block of the window into the store and keeps the cached copy
  consistent with the object; afterwards any read of whole blocks of the window returns the object's
  bytes from the block store alone, without the network and without changing a file.\<close>

lemma prefetch_window_local:
  assumes rt: "read_through ev content (cs_store st) path F w" and e: "entry_ok ev path st"
    and ce: "ce_path ce = path" "ce_hash_hex ce = hash_hex (ev_hash ev) path"
    and first: "(unat first + PREFETCH_WINDOW) * 65536 < 9223372036854775808"
    and reach: "reachable_block F (store_abs (cs_store st) (w_fs w) (ce_hash_hex ce)) (unat first)"
    and stack: "\<And>b. length (ev_stack ev b) = 65536"
  shows "\<exists>st' w'. prefetch_job ev (ce, first) st w = (st', w') \<and>
    read_through ev content (cs_store st') path F w' \<and> cs_entries st' = cs_entries st \<and>
    (\<forall>off len buf. unat first * 65536 \<le> unat off \<and> unat off + unat len \<le> (unat first + PREFETCH_WINDOW) * 65536 \<and>
       unat off + unat len \<le> length F div 65536 * 65536 \<and> unat len \<le> length buf \<longrightarrow>
       (\<exists>st2. cm_read ev path buf len off st' w' =
          (Inr (int (unat len)), splice buf 0 (slice (unat off) (unat len) F), st2, w')))"
proof -
  let ?h = "ce_hash_hex ce" and ?f = "unat first"
  obtain st' w' where job: "prefetch_turns ev ce first [0..<PREFETCH_WINDOW] st w = (st', w')"
      "cs_store st' = cs_store st" "cs_entries st' = cs_entries st" "read_through ev content (cs_store st') path F w'"
      "\<And>b. ?f \<le> b \<Longrightarrow> b < ?f + PREFETCH_WINDOW \<Longrightarrow> b * 65536 + 65536 \<le> length F \<Longrightarrow>
         length (block_at (store_abs (cs_store st) (w_fs w') ?h) b) = 65536"
    using prefetch_turns_ok [OF ce refl first stack rt, of 0] reach by auto
  have ok: "store_ok (cs_store st') (w_fs w')" and e': "entry_ok ev path st'"
    and coh: "coherent F (store_abs (cs_store st') (w_fs w') (hash_hex (ev_hash ev) path))"
    using job(3,4) e by (simp_all add: read_through_def entry_ok_def)
  have "\<exists>st2. cm_read ev path buf len off st' w' =
      (Inr (int (unat len)), splice buf 0 (slice (unat off) (unat len) F), st2, w')"
    if r: "?f * 65536 \<le> unat off" "unat off + unat len \<le> (?f + PREFETCH_WINDOW) * 65536"
      "unat off + unat len \<le> length F div 65536 * 65536" "unat len \<le> length buf" for off len buf
  proof -
    have inF: "unat off + unat len \<le> length F" using r(3) div_times_less_eq_dividend order_trans by blast
    have "range_cached (store_abs (cs_store st') (w_fs w') (hash_hex (ev_hash ev) path)) (unat off) (unat len) F"
    proof (rule coherent_range_cached [OF coh inF])
      fix b assume b: "unat off div 65536 \<le> b" "b * 65536 < unat off + unat len"
      have "?f \<le> b" using r(1) b(1) by simp
      moreover have "b < ?f + PREFETCH_WINDOW" "b < length F div 65536"
        using order_less_le_trans [OF b(2) r(2)] order_less_le_trans [OF b(2) r(3)] by simp_all
      moreover have "b * 65536 + 65536 \<le> length F" if "b < length F div 65536" using that by simp
      ultimately show "length (block_at (store_abs (cs_store st') (w_fs w') (hash_hex (ev_hash ev) path)) b) = 65536"
        using job(5) by (simp add: job(2) ce(2))
    qed
    then show ?thesis
      using cm_read_cached [OF ok e' _ inF r(4) stack] r(2) first by force
  qed
  then show ?thesis using job by (auto simp: prefetch_job_def)
qed

section \<open>From a sequential read to the job\<close>

text \<open>A read inside the block after the last one read is one turn of the loop, which puts a job
  for the window behind the block into the pool.\<close>

lemma cm_read_sequential:
  assumes entry: "map_of (cs_entries st) path = Some (a, ce)" "\<not> ce_evicted ce"
    and seq: "ce_last_block ce \<noteq> SIZE_MAX" "blk_of off 0 = ce_last_block ce + 1"
    and len: "0 < unat len" "unat off mod 65536 + unat len \<le> 65536" "unat off + unat len < 9223372036854775808"
    and load: "load_block ev st path (ce_hash_hex ce) (blk_off_of off 0) (ev_stack ev (blk_of off 0)) w =
      (Inr (Some block), w')"
  shows "\<exists>st'. cm_read ev path buf len off st w =
      (Inr (int (unat len)), splice buf 0 (slice (unat off mod 65536) (unat len) block), st', w') \<and>
    cs_store st' = cs_store st \<and>
    map_of (cs_entries st') path = Some (a, ce\<lparr>ce_last_block := blk_of off 0\<rparr>) \<and>
    cs_pool st' = pool_enqueue (ce\<lparr>ce_last_block := blk_of off 0\<rparr>, blk_of off 0 + 1) (cs_pool st)"
proof -
  let ?ce = "ce\<lparr>ce_last_block := blk_of off 0\<rparr>"
  have slen: "sint len = int (unat len)" "sint off = int (unat off)" using len(3) by (intro sint_small, simp)+
  have pos: "0 < uint len" using len(1) by (metis of_nat_0_less_iff of_nat_unat)
  have want: "want_of len off 0 = len"
    using len(2) by (simp add: word_unat_eq_iff unat_want_of)
  have inb: "unat (in_of off 0) = unat off mod 65536" by (simp add: unat_in_of)
  have "sint off + sint (0 :: u64) < 9223372036854775808" using sint_bounds [of off] by simp
  then obtain st' where "read_turn ev path a len off 0 ce buf st w =
      (Next (?ce, splice buf 0 (slice (unat off mod 65536) (unat len) block)), st', w')"
    and st': "cs_store st' = cs_store st" "map_of (cs_entries st') path = Some (a, ?ce)"
      "cs_pool st' = pool_enqueue (?ce, blk_of off 0 + 1) (cs_pool st)"
    using load seq(1)
    by (simp add: read_turn_def Let_def want inb seq(2) [symmetric] touch_block_def put_entry_def
        schedule_prefetch_def update_conv)
  then have "read_loop ev path a len off 0 ce buf st w =
      (Inr (int (unat len)), splice buf 0 (slice (unat off mod 65536) (unat len) block), st', w')"
    using slen pos by (subst read_loop.simps, simp add: want) (subst read_loop.simps, simp)
  then show ?thesis using st' entry by (simp add: cm_read_def entry_def)
qed

text \<open>C7: A sequential reader is served ahead.  A read inside the block that follows the last block
  read returns the object's bytes and puts exactly one job behind the jobs of the pool; once a worker
  has run that job, every read of whole blocks of the next four is answered with the object's bytes
  from the block store alone.\<close>

theorem sequential_read_prefetches:
  assumes rt: "read_through ev content (cs_store st) path F w"
    and entry: "map_of (cs_entries st) path = Some (a, ce)" "\<not> ce_evicted ce" "ce_path ce = path"
      "ce_hash_hex ce = hash_hex (ev_hash ev) path"
    and seq: "ce_last_block ce \<noteq> SIZE_MAX" "off div kBlockSize = ce_last_block ce + 1"
    and len: "0 < unat len" "unat off mod 65536 + unat len \<le> 65536" "unat off + unat len \<le> length F" "unat len \<le> length buf"
    and big: "length F + 655360 < 9223372036854775808"
    and nohole: "no_hole (store_abs (cs_store st) (w_fs w) (ce_hash_hex ce)) (unat off div 65536)"
    and stack: "\<And>b. length (ev_stack ev b) = 65536"
  shows "\<exists>st1 w1 j st2 w2.
    cm_read ev path buf len off st w = (Inr (int (unat len)), splice buf 0 (slice (unat off) (unat len) F), st1, w1) \<and>
    wp_tasks (cs_pool st1) = wp_tasks (cs_pool st) @ [j] \<and>
    prefetch_job ev j st1 w1 = (st2, w2) \<and>
    (\<forall>off' len' buf'. (unat off div 65536 + 1) * 65536 \<le> unat off' \<and>
       unat off' + unat len' \<le> (unat off div 65536 + 5) * 65536 \<and>
       unat off' + unat len' \<le> length F div 65536 * 65536 \<and> unat len' \<le> length buf' \<longrightarrow>
       (\<exists>st3. cm_read ev path buf' len' off' st2 w2 =
          (Inr (int (unat len')), splice buf' 0 (slice (unat off') (unat len') F), st3, w2)))"
proof -
  let ?h = "hash_hex (ev_hash ev) path" and ?b = "unat off div 65536"
  let ?ce = "ce\<lparr>ce_last_block := blk_of off 0\<rparr>" and ?c = "\<lambda>w. store_abs (cs_store st) (w_fs w) ?h"
  have blk: "unat (blk_of off 0) = ?b" "unat (blk_off_of off 0) = ?b * 65536"
    by (simp_all add: unat_blk_of unat_blk_off_of)
  have inF: "?b * 65536 < length F" "?b * 65536 + 65536 < 9223372036854775808"
    using len(1,3) big div_times_less_eq_dividend [of "unat off" 65536] by linarith+
  obtain block w1 where load: "load_block ev st path ?h (blk_off_of off 0) (ev_stack ev (blk_of off 0)) w =
        (Inr (Some block), w1)" "read_through ev content (cs_store st) path F w1"
      and bytes: "\<And>i n. i + n \<le> 65536 \<Longrightarrow> ?b * 65536 + i + n \<le> length F \<Longrightarrow> slice i n block = slice (?b * 65536 + i) n F"
      and next_block: "?b * 65536 + 65536 \<le> length F \<Longrightarrow> no_hole (?c w1) (?b + 1)"
    using load_block_through [OF rt blk(2) inF nohole [unfolded entry(4)] stack, of "blk_of off 0"] by blast
  have range: "slice (unat off mod 65536) (unat len) block = slice (unat off) (unat len) F"
    using bytes [OF len(2)] len(3) by simp
  obtain st1 where rd: "cm_read ev path buf len off st w =
        (Inr (int (unat len)), splice buf 0 (slice (unat off) (unat len) F), st1, w1)"
      and st1: "cs_store st1 = cs_store st" "map_of (cs_entries st1) path = Some (a, ?ce)"
      "cs_pool st1 = pool_enqueue (?ce, blk_of off 0 + 1) (cs_pool st)"
    using cm_read_sequential [OF entry(1,2) seq(1) _ len(1,2), of ev w block w1 buf] seq(2) load(1) entry(4) len(3) big
    by (auto simp: blk_of_def range)
  have first: "unat (blk_of off 0 + 1) = ?b + 1"
    using inF(2) blk(1) by (simp add: unat_word_ariths)
  have reach: "reachable_block F (store_abs (cs_store st1) (w_fs w1) (ce_hash_hex ?ce)) (unat (blk_of off 0 + 1))"
    unfolding reachable_block_def first using next_block by (cases "?b * 65536 + 65536 \<le> length F") (simp_all add: st1(1) entry(4))
  obtain st2 w2 where job: "prefetch_job ev (?ce, blk_of off 0 + 1) st1 w1 = (st2, w2)"
      and local: "\<forall>off' len' buf'. unat (blk_of off 0 + 1) * 65536 \<le> unat off' \<and>
        unat off' + unat len' \<le> (unat (blk_of off 0 + 1) + PREFETCH_WINDOW) * 65536 \<and>
        unat off' + unat len' \<le> length F div 65536 * 65536 \<and> unat len' \<le> length buf' \<longrightarrow>
       (\<exists>st3. cm_read ev path buf' len' off' st2 w2 =
          (Inr (int (unat len')), splice buf' 0 (slice (unat off') (unat len') F), st3, w2))"
    using prefetch_window_local [OF load(2) [folded st1(1)] _ _ _ _ reach stack] st1(2) entry first inF(1) big
    by (auto simp: entry_ok_def PREFETCH_WINDOW_def)
  show ?thesis
    using rd job local unfolding first PREFETCH_WINDOW_def by (auto simp: st1(3) pool_enqueue_def)
qed

text \<open>A cache whose last read ended with the last block of the first part of a large object.\<close>

definition demo_large :: bytes where
  "demo_large = replicate 2147614720 9"

definition demo_reader :: "mem_db cstate" where
  "demo_reader = demo_cache\<lparr>cs_entries := [(''/a'', 7, \<lparr>ce_path = ''/a'',
     ce_hash_hex = hash_hex (ev_hash demo_env) ''/a'', ce_last_block = 32767, ce_evicted = False\<rparr>)]\<rparr>"

theorem sequential_read_prefetches_witness:
  "\<exists>st1 w1 j st2 w2 st3. cm_read demo_env ''/a'' [0] 1 2147483648 demo_reader (demo_world [(''/a'', demo_large)]) =
       (Inr 1, [9], st1, w1) \<and>
     wp_tasks (cs_pool st1) = wp_tasks (cs_pool demo_reader) @ [j] \<and> prefetch_job demo_env j st1 w1 = (st2, w2) \<and>
     cm_read demo_env ''/a'' [0] 1 2147549184 st2 w2 = (Inr 1, [9], st3, w2)"
proof -
  have bytes: "slice i 1 demo_large = [9]" if "i < 2147614720" for i
    using that by (simp add: slice_def demo_large_def)
  have rt: "read_through demo_env map_of (cs_store demo_reader) ''/a'' demo_large (demo_world [(''/a'', demo_large)])"
    using demo_read_through [of "''/a''" "[(''/a'', demo_large)]" demo_large] by (simp add: no_nul_def demo_reader_def)
  let ?ce = "\<lparr>ce_path = ''/a'', ce_hash_hex = hash_hex (ev_hash demo_env) ''/a'', ce_last_block = 32767,
    ce_evicted = False\<rparr>"
  have e: "map_of (cs_entries demo_reader) ''/a'' = Some (7, ?ce)" by (simp add: demo_reader_def)
  have seq: "ce_last_block ?ce \<noteq> SIZE_MAX" "(2147483648 :: u64) div kBlockSize = ce_last_block ?ce + 1"
    by (simp_all add: kBlockSize_def)
  have nh: "no_hole c 32768" for c by (simp add: no_hole_def)
  have len: "length demo_large = 2147614720" by (simp add: demo_large_def)
  obtain st1 w1 j st2 w2 where rd: "cm_read demo_env ''/a'' [0] 1 2147483648 demo_reader (demo_world [(''/a'', demo_large)]) =
        (Inr 1, splice [0] 0 (slice 2147483648 1 demo_large), st1, w1)"
      "wp_tasks (cs_pool st1) = wp_tasks (cs_pool demo_reader) @ [j]" "prefetch_job demo_env j st1 w1 = (st2, w2)"
    and local: "\<And>off' len' buf'. 32769 * 65536 \<le> unat off' \<Longrightarrow> unat off' + unat len' \<le> 32773 * 65536 \<Longrightarrow>
      unat off' + unat len' \<le> 32770 * 65536 \<Longrightarrow> unat len' \<le> length buf' \<Longrightarrow>
      \<exists>st3. cm_read demo_env ''/a'' buf' len' off' st2 w2 =
        (Inr (int (unat len')), splice buf' 0 (slice (unat off') (unat len') demo_large), st3, w2)"
    using sequential_read_prefetches [OF rt e _ _ _ seq _ _ _ _ _ _ demo_stack, of 1 "[0]"] nh
    by (auto simp: len)
  obtain st3 where "cm_read demo_env ''/a'' [0] 1 2147549184 st2 w2 =
      (Inr 1, splice [0] 0 (slice 2147549184 1 demo_large), st3, w2)"
    using local [of 2147549184 1 "[0]"] by auto
  then show ?thesis using rd bytes [of 2147483648] bytes [of 2147549184]
    by (cases j) (auto simp: splice_def)
qed

end
