(* ===== verification/Cache_Invariant.thy ===== *)
theory Cache_Invariant
  imports Cache_Flush Cache_Prefetch
begin

text \<open>
  The type invariant of a cache object: entries are stored under their own path and carry the hash of
  it, list and table of the LRU policy agree, the dirty bitmaps have one vector per part, the three
  components work below the same root, and the jobs that wait in the pool carry consistent copies of
  entries.  Every step of the cache keeps it, so that it holds in every reachable state and the
  hypotheses on the object in the theorems about reads, writes, flushes and evictions are met there.
\<close>

section \<open>The invariant\<close>

definition ce_wf :: "('db, 'w) env \<Rightarrow> string \<Rightarrow> CacheEntry \<Rightarrow> bool" where
  "ce_wf ev path ce \<longleftrightarrow> ce_path ce = path \<and> ce_hash_hex ce = hash_hex (ev_hash ev) path"

definition cache_wf :: "('db, 'w) env \<Rightarrow> string \<Rightarrow> 'db cstate \<Rightarrow> bool" where
  "cache_wf ev rt st \<longleftrightarrow>
     cs_root st = rt \<and> cs_store st = BlockStore rt kBlockSize \<and> ms_cache_root (cs_meta st) = rt \<and>
     distinct (map fst (cs_entries st)) \<and> (\<forall>(p, a, ce) \<in> set (cs_entries st). ce_wf ev p ce) \<and>
     lru_inv (cs_lru st) \<and> bitmaps_wf (ms_bitmap (cs_meta st)) \<and>
     (\<forall>(ce, f) \<in> set (wp_tasks (cs_pool st)). ce_wf ev (ce_path ce) ce)"

named_theorems wf_intros

lemma put_entry_wf [wf_intros]: "cache_wf ev rt st \<Longrightarrow> ce_wf ev path ce \<Longrightarrow> cache_wf ev rt (put_entry path a ce st)"
  by (auto simp: cache_wf_def put_entry_def distinct_update dest!: set_update)

lemma touch_block_wf [wf_intros]: "cache_wf ev rt st \<Longrightarrow> cache_wf ev rt (touch_block a blk hot st)"
  by (simp add: cache_wf_def touch_block_def lru_touch_inv)

lemma schedule_prefetch_wf [wf_intros]:
  "cache_wf ev rt st \<Longrightarrow> ce_wf ev path ce \<Longrightarrow> cache_wf ev rt (schedule_prefetch ce b st)"
  by (auto simp: cache_wf_def schedule_prefetch_def pool_enqueue_def ce_wf_def)

lemma lru_update_wf [wf_intros]: "cache_wf ev rt st \<Longrightarrow> cache_wf ev rt (st\<lparr>cs_lru := snd (lru_evict (cs_lru st))\<rparr>)"
  by (simp add: cache_wf_def lru_evict_inv)

lemma meta_update_wf [wf_intros]: "cache_wf ev rt st \<Longrightarrow> markDirtyBlock h i b (cs_meta st) = Inr m \<Longrightarrow> cache_wf ev rt (st\<lparr>cs_meta := m\<rparr>)"
  by (auto simp: cache_wf_def meta_keeps_def dest!: markDirtyBlock_keeps)

lemma ce_wf_last_block [simp]: "ce_wf ev path (ce\<lparr>ce_last_block := b\<rparr>) = ce_wf ev path ce"
  "ce_wf ev path (ce\<lparr>ce_evicted := e\<rparr>) = ce_wf ev path ce"
  by (simp_all add: ce_wf_def)

lemma entry_wf:
  assumes "cache_wf ev rt st" and "entry ev path st = ((a, ce), st')"
  shows "cache_wf ev rt st' \<and> ce_wf ev path ce"
proof (cases "map_of (cs_entries st) path")
  case None
  let ?ce = "\<lparr>ce_path = path, ce_hash_hex = hash_hex (ev_hash ev) path, ce_last_block = SIZE_MAX, ce_evicted = False\<rparr>"
  have "ce_wf ev path ?ce" by (simp add: ce_wf_def)
  then show ?thesis using None assms by (auto simp: entry_def Let_def intro: put_entry_wf)
next
  case (Some x)
  then show ?thesis using assms by (auto simp: entry_def cache_wf_def dest: map_of_SomeD)
qed

section \<open>Every method keeps it\<close>

lemma read_turn_wf:
  assumes "read_turn ev path a len off dn ce buf st w = (t, st', w')"
    and "cache_wf ev rt st" and "ce_wf ev path ce"
  shows "cache_wf ev rt st' \<and> (\<forall>ce' b'. t = Next (ce', b') \<longrightarrow> ce_wf ev path ce')"
  using assms
  by (auto simp: read_turn_def Let_def split: if_splits prod.splits sum.splits option.splits
      intro!: put_entry_wf touch_block_wf schedule_prefetch_wf [where path = path])

lemma read_loop_wf:
  "read_loop ev path a len off dn ce buf st w = (r, buf', st', w') \<Longrightarrow> cache_wf ev rt st \<Longrightarrow> ce_wf ev path ce \<Longrightarrow>
   cache_wf ev rt st'"
  by (rule read_loop_keeps [where P = "ce_wf ev path" and Q = "cache_wf ev rt"]) (auto dest: read_turn_wf)

lemma cm_read_wf: "cm_read ev path buf len off st w = (r, buf', st', w') \<Longrightarrow> cache_wf ev rt st \<Longrightarrow> cache_wf ev rt st'"
  by (auto simp: cm_read_def split: prod.splits if_splits dest: entry_wf read_loop_wf)

lemma write_turn_wf:
  "write_turn path a ce buf len off dn fd st w = (r, st', w') \<Longrightarrow> cache_wf ev rt st \<Longrightarrow> cache_wf ev rt st'"
  by (auto simp: write_turn_def Let_def split: prod.splits sum.splits intro: touch_block_wf meta_update_wf)

lemma write_loop_wf:
  "write_loop path a ce buf len off dn fd st w = (r, st', w') \<Longrightarrow> cache_wf ev rt st \<Longrightarrow> cache_wf ev rt st'"
  by (drule write_loop_rel [where R = "\<lambda>x y. cache_wf ev rt (fst x) \<longrightarrow> cache_wf ev rt (fst y)", rotated -1])
    (auto dest: write_turn_wf)

lemma cm_write_wf: "cm_write ev path buf len off st w = (r, st', w') \<Longrightarrow> cache_wf ev rt st \<Longrightarrow> cache_wf ev rt st'"
  by (auto simp: cm_write_def split: prod.splits if_splits dest: entry_wf write_loop_wf)

lemma entry_at_mem: "entry_at a es = Some (p, ce) \<Longrightarrow> (p, a, ce) \<in> set es"
  by (induction a es rule: entry_at.induct) (auto split: if_splits)

lemma evict_entry_wf: "evict_entry key st fs = (r, st', fs') \<Longrightarrow> cache_wf ev rt st \<Longrightarrow> cache_wf ev rt st'"
proof -
  assume e: "evict_entry key st fs = (r, st', fs')" and wf: "cache_wf ev rt st"
  have "ce_wf ev p ce" if "entry_at a (cs_entries st) = Some (p, ce)" for a p ce
    using entry_at_mem [OF that] wf by (auto simp: cache_wf_def)
  with e wf show ?thesis
    by (auto simp: evict_entry_def Let_def split: if_splits option.splits prod.splits sum.splits intro!: put_entry_wf)
qed

lemma evict_loop_wf: "evict_loop gb st fs = (r, st', fs') \<Longrightarrow> cache_wf ev rt st \<Longrightarrow> cache_wf ev rt st'"
  by (rule evict_loop_keeps [where P = "cache_wf ev rt"]) (auto intro: lru_update_wf dest: evict_entry_wf)

lemma evict_until_gb_wf: "evict_until_gb gb st w = (r, st', w') \<Longrightarrow> cache_wf ev rt st \<Longrightarrow> cache_wf ev rt st'"
  by (auto simp: evict_until_gb_def split: prod.splits dest: evict_loop_wf)

lemma prefetch_turn_wf: "prefetch_turn ev ce f blk st w = (b, st', w') \<Longrightarrow> cache_wf ev rt st \<Longrightarrow> cache_wf ev rt st'"
  by (auto simp: prefetch_turn_def Let_def split: sum.splits prod.splits if_splits intro: touch_block_wf)

lemma prefetch_turns_wf: "prefetch_turns ev ce f is st w = (st', w') \<Longrightarrow> cache_wf ev rt st \<Longrightarrow> cache_wf ev rt st'"
proof (induction "is" arbitrary: st w)
  case (Cons i "is")
  obtain b st1 w1 where "prefetch_turn ev ce f (f + of_nat i) st w = (b, st1, w1)" by (metis prod_cases3)
  with Cons prefetch_turn_wf [OF this Cons.prems(2)] show ?case by (cases b) auto
qed simp

lemma prefetch_job_wf: "prefetch_job ev j st w = (st', w') \<Longrightarrow> cache_wf ev rt st \<Longrightarrow> cache_wf ev rt st'"
  by (auto simp: prefetch_job_def dest: prefetch_turns_wf)

section \<open>Reachable caches\<close>

lemma CacheManager_wf: "cache_wf ev rt (fst (CacheManager ev rt w))"
  by (auto simp: cache_wf_def CacheManager_def Let_def ms_init_def MetadataStore_def bitmaps_wf_def LruPolicy_inv
      ThreadPool_def split: option.splits prod.splits)

lemma evict_turn_wf:
  "lru_evict (cs_lru st) = (key, l) \<Longrightarrow> evict_entry key (st\<lparr>cs_lru := l\<rparr>) fs = (r, st', fs') \<Longrightarrow>
   cache_wf ev rt st \<Longrightarrow> cache_wf ev rt st'"
  using lru_update_wf [of ev rt st] by (auto dest: evict_entry_wf)

lemma cache_step_wf: "cache_step ev (st, w) (st', w') \<Longrightarrow> cache_wf ev rt st \<Longrightarrow> cache_wf ev rt st'"
  by (erule cache_stepE)
    (auto dest: cm_read_wf cm_write_wf evict_until_gb_wf prefetch_job_wf prefetch_turn_wf evict_turn_wf)

text \<open>Objects that the constructor made, and what calls and jobs in any order make of them.\<close>

inductive cache_start :: "('db, 'w) env \<Rightarrow> string \<Rightarrow> 'db cstate \<times> 'w world \<Rightarrow> bool" for ev rt where
  "cache_start ev rt (CacheManager ev rt w)"

inductive_cases cache_startE: "cache_start ev rt x"

interpretation cache: transition_system "cache_start ev rt" "cache_step ev" "\<lambda>x. cache_wf ev rt (fst x)" for ev rt
proof unfold_locales
  show "cache_wf ev rt (fst s)" if "cache_start ev rt s" for s
    using that by (auto elim!: cache_startE simp: CacheManager_wf)
  show "cache_wf ev rt (fst t)" if "cache_wf ev rt (fst s)" "cache_step ev s t" for s t
    using that cache_step_wf [of ev "fst s" "snd s" "fst t" "snd t" rt] by simp
qed

section \<open>Properties of reachable caches\<close>

text \<open>C5: the cache object is well typed in every state that the constructor and any sequence of
  reads, writes, flushes, evictions and prefetch jobs, single turns of the unlocked loops included,
  can reach: \<open>cache_wf\<close> holds, so the root, the store and the metadata stay those of the
  constructor and the names of all entries are valid object names; and a path is either usable, as
  the theorems about reads and writes ask, or evicted, and then every read of it fails.\<close>

theorem cache_reachable_wf:
  assumes "(cache_step ev)\<^sup>*\<^sup>* (CacheManager ev rt w) (st, w')"
  shows "cache_wf ev rt st \<and> (\<forall>(p, a, ce) \<in> set (cs_entries st). hash_ok (ce_hash_hex ce)) \<and>
    (entry_ok ev path st \<or>
     (\<forall>buf len off w'. cm_read ev path buf len off st w' = (Inr (- ENOENT), buf, st, w')))"
proof -
  have wf: "cache_wf ev rt st" using cache.reachable_inv [OF cache_start.intros assms] by simp
  then have "\<forall>(p, a, ce) \<in> set (cs_entries st). hash_ok (ce_hash_hex ce)"
    by (auto simp: cache_wf_def ce_wf_def)
  moreover have "entry_ok ev path st \<or> evicted path st"
  proof (cases "map_of (cs_entries st) path")
    case (Some x)
    then have "ce_wf ev path (snd x)" using wf by (cases x) (auto simp: cache_wf_def dest: map_of_SomeD)
    then show ?thesis using Some by (cases x) (auto simp: entry_ok_def evicted_def ce_wf_def)
  qed (simp add: entry_ok_def)
  ultimately show ?thesis using wf cm_read_evicted by blast
qed

theorem cache_reachable_wf_witness:
  "\<exists>r st w'. cm_write demo_env ''/file'' [1] 1 0 demo_cache (demo_world []) = (r, st, w') \<and> cache_wf demo_env ''/c'' st"
proof -
  obtain r st w' where wr: "cm_write demo_env ''/file'' [1] 1 0 demo_cache (demo_world []) = (r, st, w')"
    by (metis prod_cases3)
  obtain w0 where init: "CacheManager demo_env ''/c'' (demo_world []) = (demo_cache, w0)"
    unfolding demo_cache_def by (metis prod.collapse)
  have "lookup root_fs [''c''] = Some Dir" by (simp add: lookup_def root_fs_def)
  then have w0: "w0 = demo_world []"
    using init by (auto simp: CacheManager_def Let_def bs_init_def fs_exists_def BlockStore_def demo_world_def demo_root)
  have "cache_step demo_env (demo_cache, demo_world []) (st, w')" by (rule cache_step.step_write [OF wr])
  then have "(cache_step demo_env)\<^sup>*\<^sup>* (CacheManager demo_env ''/c'' (demo_world [])) (st, w')"
    unfolding init w0 by (rule r_into_rtranclp)
  from cache_reachable_wf [OF this] wr show ?thesis by blast
qed

end
