(* ===== verification/Cache_Failures.thy ===== *)
theory Cache_Failures
  imports Cache_Invariant
begin

text \<open>
  Where things go wrong or start over: reads when the server and the mirrored file both fail, a new
  cache object on the files of an old one, prefetch jobs that run after their object was evicted, and
  the write-back that does not happen.
\<close>

section \<open>Reads that stop early\<close>

text \<open>A turn on a cached block.\<close>

lemma read_turn_cached:
  fixes st st1 :: "'db cstate" and ev :: "('db, 'w) env"
  assumes ok: "store_ok (cs_store st) (w_fs w)" and h: "hash_ok (ce_hash_hex ce)"
    and lim: "unat off + unat len < 9223372036854775808" "dn < len"
      "unat dn + unat (want_of len off dn) \<le> n" "unat off + n \<le> length G"
    and stack: "\<And>b. length (ev_stack ev b) = 65536"
    and cached: "range_cached (store_abs (cs_store st) (w_fs w) (ce_hash_hex ce)) (unat off) n G"
    and same: "cs_store st1 = cs_store st" "cs_root st1 = cs_root st"
  shows "\<exists>ce' st2. read_turn ev path a len off dn ce buf st1 w =
      (Next (ce', splice buf (unat dn) (slice (unat off + unat dn) (unat (want_of len off dn)) G)), st2, w) \<and>
    ce_hash_hex ce' = ce_hash_hex ce \<and> cs_store st2 = cs_store st \<and> cs_root st2 = cs_root st"
proof -
  let ?want = "unat (want_of len off dn)" and ?b = "(unat off + unat dn) div 65536"
  let ?c = "store_abs (cs_store st) (w_fs w) (ce_hash_hex ce)"
  note pos = turn_pos [OF lim(1,2)]
  have "0 < ?want" using lim(2) by (intro want_pos) auto
  then have "?b * 65536 < unat off + n" using pos(3) lim(3) by linarith
  then have block: "length (block_at ?c ?b) = 65536"
    "\<And>i. i < 65536 \<Longrightarrow> unat off \<le> ?b * 65536 + i \<Longrightarrow> ?b * 65536 + i < unat off + n \<Longrightarrow>
       block_at ?c ?b ! i = G ! (?b * 65536 + i)"
    using cached pos(7) unfolding range_cached_def by blast+
  have hit: "load_block ev st1 path (ce_hash_hex ce) (blk_off_of off dn) (ev_stack ev (blk_of off dn)) w =
      (Inr (Some (block_at ?c ?b)), w)"
    using load_block_hit [OF ok h pos(2) block(1) stack, of ev path] load_block_cong [OF same, of ev] by simp
  have bytes: "slice (unat (in_of off dn)) ?want (block_at ?c ?b) = slice (unat off + unat dn) ?want G"
  proof (rule slice_eqI)
    show "unat (in_of off dn) + ?want \<le> length (block_at ?c ?b)" using pos(4) block(1) by simp
    show "unat off + unat dn + ?want \<le> length G" using lim(3,4) by linarith
    fix k assume "k < ?want"
    then show "block_at ?c ?b ! (unat (in_of off dn) + k) = G ! (unat off + unat dn + k)"
      using block(2) [of "unat (in_of off dn) + k"] pos(3,4) lim(3) by (simp add: add.assoc [symmetric])
  qed
  have dnl: "unat dn < unat len" using lim(2) by (simp add: word_less_nat_alt)
  then have "sint dn = int (unat dn)" "sint off = int (unat off)" using lim(1) by (intro sint_small, simp)+
  then have "sint off + sint dn < 9223372036854775808" using dnl lim(1) by (simp del: of_nat_unat)
  from read_turn_next [OF hit this, of a len buf] bytes same show ?thesis by auto
qed

text \<open>The loop passes over the blocks that are cached.\<close>

lemma read_loop_cached_prefix:
  fixes st st1 :: "'db cstate" and ev :: "('db, 'w) env"
  assumes ok: "store_ok (cs_store st) (w_fs w)" and h: "hash_ok h"
    and lim: "unat off + unat len < 9223372036854775808" "n \<le> len" "unat off + unat n \<le> length G" "unat n \<le> length buf"
    and edge: "(unat off + unat n) mod 65536 = 0"
    and stack: "\<And>b. length (ev_stack ev b) = 65536"
    and cached: "range_cached (store_abs (cs_store st) (w_fs w) h) (unat off) (unat n) G"
  shows "dn \<le> n \<Longrightarrow> ce_hash_hex ce = h \<Longrightarrow> cs_store st1 = cs_store st \<Longrightarrow> cs_root st1 = cs_root st \<Longrightarrow>
    length buf1 = length buf \<Longrightarrow>
    \<exists>ce' st'. read_loop ev path a len off dn ce buf1 st1 w =
        read_loop ev path a len off n ce' (splice buf1 (unat dn) (slice (unat off + unat dn) (unat n - unat dn) G)) st' w \<and>
      ce_hash_hex ce' = h \<and> cs_store st' = cs_store st \<and> cs_root st' = cs_root st"
proof (induction "unat n - unat dn" arbitrary: dn ce buf1 st1 rule: less_induct)
  case less
  show ?case
  proof (cases "dn = n")
    case True
    then show ?thesis using less.prems by (intro exI [of _ ce] exI [of _ st1]) simp
  next
    case False
    let ?want = "want_of len off dn" and ?b = "(unat off + unat dn) div 65536" and ?c = "store_abs (cs_store st) (w_fs w) h"
    have dn: "dn < n" "dn < len" using False less.prems(1) lim(2) by auto
    note pos = turn_pos [OF lim(1) dn(2)] and want = unat_want [OF dn(2), of off]
    have un: "unat dn < unat n" "unat n \<le> unat len" using dn(1) lim(2) by (simp_all add: word_less_nat_alt word_le_nat_alt)
    obtain q where q: "unat off + unat n = q * 65536" using edge by (metis mod_0_imp_dvd dvd_def mult.commute)
    have bq: "?b < q" using q un(1) by (simp add: less_mult_imp_div_less)
    have fits: "unat dn + unat ?want \<le> unat n"
    proof -
      have "(?b + 1) * 65536 \<le> q * 65536" using bq by (intro mult_right_mono) simp_all
      then have "?b * 65536 + 65536 \<le> q * 65536" by (simp add: add_mult_distrib)
      then show ?thesis using pos(3,4) q by linarith
    qed
    have "sint dn = int (unat dn)" "sint len = int (unat len)" using lim(1) un by (intro sint_small, simp)+
    then have sl: "sint dn < sint len" using un by (simp del: of_nat_unat)
    let ?buf = "splice buf1 (unat dn) (slice (unat off + unat dn) (unat ?want) G)"
    have "hash_ok (ce_hash_hex ce)" "range_cached (store_abs (cs_store st) (w_fs w) (ce_hash_hex ce)) (unat off) (unat n) G"
      using h cached less.prems(2) by simp_all
    then obtain ce' st2 where turn: "read_turn ev path a len off dn ce buf1 st1 w = (Next (ce', ?buf), st2, w)"
        "ce_hash_hex ce' = ce_hash_hex ce" "cs_store st2 = cs_store st" "cs_root st2 = cs_root st"
      using read_turn_cached [OF ok _ lim(1) dn(2) fits lim(3) stack _ less.prems(3,4)] by blast
    have next_dn: "unat (dn + ?want) = unat dn + unat ?want" "dn + ?want \<le> n"
      using want(1) fits by (simp_all add: word_le_nat_alt)
    have slen: "length (slice (unat off + unat dn) (unat ?want) G) = unat ?want"
      using fits lim(3) by (simp add: length_slice)
    have blen: "length ?buf = length buf" using slen fits lim(4) less.prems(5) by (simp add: length_splice)
    have "0 < unat ?want" using dn(2) by (intro want_pos) auto
    then have dec: "unat n - unat (dn + ?want) < unat n - unat dn" using next_dn(1) un(1) by simp
    obtain ce'' st' where IH: "read_loop ev path a len off (dn + ?want) ce' ?buf st2 w =
        read_loop ev path a len off n ce''
          (splice ?buf (unat (dn + ?want)) (slice (unat off + unat (dn + ?want)) (unat n - unat (dn + ?want)) G)) st' w"
        "ce_hash_hex ce'' = h" "cs_store st' = cs_store st" "cs_root st' = cs_root st"
      using less.hyps [OF dec next_dn(2) _ _ _ blen, of ce' st2] turn(2-4) less.prems(2-4) by auto
    have same: "splice ?buf (unat (dn + ?want)) (slice (unat off + unat (dn + ?want)) (unat n - unat (dn + ?want)) G) =
        splice buf1 (unat dn) (slice (unat off + unat dn) (unat n - unat dn) G)"
      unfolding next_dn(1) using fits lim(3,4) less.prems(5) by (intro splice_slice_step) simp_all
    have step: "read_loop ev path a len off dn ce buf1 st1 w = read_loop ev path a len off (dn + ?want) ce' ?buf st2 w"
      using turn(1) sl by (subst read_loop.simps) simp
    show ?thesis using IH(2-4) unfolding step IH(1) same by blast
  qed
qed

text \<open>Neither the server nor the mirrored file has the block at \<open>boff\<close>.\<close>

definition unavailable :: "('db, 'w) env \<Rightarrow> 'db cstate \<Rightarrow> string \<Rightarrow> u64 \<Rightarrow> 'w world \<Rightarrow> bool" where
  "unavailable ev st path boff w \<longleftrightarrow>
     (\<forall>buf. length buf = 65536 \<longrightarrow>
        fst (backend_read_range (ev_cu ev) (ev_backend ev) path buf kBlockSize boff (w_net w)) \<le> 0) \<and>
     (\<exists>e. fst (sys_open (mirror_path (cs_root st) path) [O_RDONLY] (w_fs w)) = Inl e)"

lemma fetch_block_unavailable:
  assumes "unavailable ev st path boff w" and "length block = 65536"
  shows "\<exists>net. fetch_block ev st path h boff block w = (Inr None, w\<lparr>w_net := net\<rparr>)"
proof -
  obtain got block' net where rr: "backend_read_range (ev_cu ev) (ev_backend ev) path block kBlockSize boff (w_net w) =
      (got, block', net)"
    by (metis prod_cases3)
  then have "got \<le> 0" using assms(1) spec [of _ block] assms(2) unfolding unavailable_def by (metis fst_conv)
  moreover obtain e fs' where "sys_open (mirror_path (cs_root st) path) [O_RDONLY] (w_fs w) = (Inl e, fs')"
    using assms(1) unfolding unavailable_def by (metis prod.collapse)
  ultimately show ?thesis using rr by (intro exI [of _ net]) (simp add: fetch_block_def mirror_read_def)
qed

text \<open>C11: a read whose first \<open>n\<close> bytes, up to a block boundary, are cached and whose next block can
  be had neither from the server nor from the mirrored file stops there: it returns \<open>n\<close> with
  exactly these bytes in the buffer, and \<open>-1\<close> with the buffer untouched when nothing was read;
  no file changes, so that the failed block is not taken for cached later.\<close>

theorem read_stops_at_unavailable_block:
  assumes ok: "store_ok (cs_store st) (w_fs w)" and e: "entry_ok ev path st"
    and lim: "unat off + unat len < 9223372036854775808" "n < len" "unat off + unat n \<le> length G" "unat n \<le> length buf"
    and edge: "(unat off + unat n) mod 65536 = 0" and stack: "\<And>b. length (ev_stack ev b) = 65536"
    and cached: "range_cached (store_abs (cs_store st) (w_fs w) (hash_hex (ev_hash ev) path)) (unat off) (unat n) G"
    and missing: "length (block_at (store_abs (cs_store st) (w_fs w) (hash_hex (ev_hash ev) path)) ((unat off + unat n) div 65536)) \<noteq> 65536"
    and fails: "unavailable ev st path (off + n) w"
  shows "\<exists>st' net. cm_read ev path buf len off st w =
    (Inr (if n = 0 then - 1 else int (unat n)), splice buf 0 (slice (unat off) (unat n) G), st', w\<lparr>w_net := net\<rparr>)"
proof -
  let ?h = "hash_hex (ev_hash ev) path" and ?b = "(unat off + unat n) div 65536"
  obtain a ce st1 where en: "entry ev path st = ((a, ce), st1)" "\<not> ce_evicted ce" "ce_hash_hex ce = ?h"
    "cs_store st1 = cs_store st" "cs_root st1 = cs_root st"
    by (rule entry_cases [OF e])
  have n: "n \<le> len" using lim(2) by simp
  obtain ce' st' where pre: "read_loop ev path a len off 0 ce buf st1 w =
      read_loop ev path a len off n ce' (splice buf 0 (slice (unat off) (unat n) G)) st' w"
      "ce_hash_hex ce' = ?h" "cs_store st' = cs_store st" "cs_root st' = cs_root st"
    using read_loop_cached_prefix [OF ok hash_ok_hash_hex lim(1) n lim(3,4) edge stack cached, of 0 ce st1 buf path a] en(3-5)
    by auto
  note pos = turn_pos [OF lim(1,2)]
  have "unat (blk_off_of off n) = unat (off + n)"
    using pos(2) edge unat_pos [OF lim(1) n] div_mult_mod_eq [of "unat off + unat n" 65536] by simp
  then have boff: "blk_off_of off n = off + n" by (rule word_unat_eq_iff [THEN iffD2])
  have fetch: "length block = 65536 \<Longrightarrow> \<exists>net. fetch_block ev st path ?h (off + n) block w = (Inr None, w\<lparr>w_net := net\<rparr>)"
    for block
    using fetch_block_unavailable [OF fails] by blast
  let ?c = "store_abs (cs_store st) (w_fs w) ?h"
  have "length (splice (ev_stack ev (blk_of off n)) 0 (block_at ?c ?b)) = 65536"
    using stack length_block_at [of ?c ?b] by (simp add: length_splice)
  note fetch = fetch [OF this]
  obtain net where load: "load_block ev st' path (ce_hash_hex ce') (blk_off_of off n) (ev_stack ev (blk_of off n)) w =
      (Inr None, w\<lparr>w_net := net\<rparr>)"
    using load_block_miss [OF ok hash_ok_hash_hex pos(2) missing] fetch load_block_cong [OF pre(3,4), of ev] pre(2) boff
    by metis
  have "sint n = int (unat n)" "sint len = int (unat len)" "sint off = int (unat off)"
    using lim(1) n by (intro sint_small, simp add: word_le_nat_alt)+
  then have s: "sint n < sint len" "sint off + sint n < 9223372036854775808" "sint n = int (unat n)"
    using lim(1,2) n by (simp_all add: word_less_nat_alt word_le_nat_alt del: of_nat_unat)
  have "read_loop ev path a len off 0 ce buf st1 w =
      (Inr (if n = 0 then - 1 else int (unat n)), splice buf 0 (slice (unat off) (unat n) G), st', w\<lparr>w_net := net\<rparr>)"
    unfolding pre(1) using load s by (subst read_loop.simps) (simp add: read_turn_def Let_def)
  then show ?thesis using en(1,2) by (auto simp: cm_read_def)
qed

section \<open>A new object on the old files\<close>

lemma CacheManager_restart:
  assumes "store_ok (BlockStore rt kBlockSize) (w_fs w)"
  shows "\<exists>st. CacheManager ev rt w = (st, w) \<and> cs_store st = BlockStore rt kBlockSize \<and> cs_entries st = [] \<and>
    ms_bitmap (cs_meta st) = []"
proof -
  have "fs_exists (w_fs w) rt"
    using store_okD(2,3) [OF assms] by (simp add: fs_exists_def BlockStore_def store_key_def)
  then have "snd (bs_init (BlockStore rt kBlockSize) (w_fs w)) = w_fs w" by (simp add: bs_init_def BlockStore_def)
  moreover have "ms_bitmap (snd (ms_init (ev_sq ev) (MetadataStore ''cache_meta.db'' rt))) = []"
    by (simp add: ms_init_def MetadataStore_def split: option.splits prod.splits)
  ultimately show ?thesis by (simp add: CacheManager_def Let_def)
qed

text \<open>C9: what was written and flushed survives the object: a new cache on the same root, whatever it
  is asked first, reads the written bytes back from the block store alone.  The dirty bits do not
  survive: the flush has put them on disk, but the constructor loads no bitmap, so that the new object
  takes every block for clean.\<close>

theorem restart_after_write_and_flush:
  assumes "store_ok (cs_store st) (w_fs w)" and "mirror_ok (cs_store st) (cs_root st) path (w_fs w)"
    and "entry_ok ev path st" and "unat off + unat len < 9223372036854775808" and "unat len \<le> length buf"
    and "dmaps_ok (cs_store st) (w_fs w)" and "bitmaps_wf (ms_bitmap (cs_meta st))"
    and "ms_cache_root (cs_meta st) = bs_root (cs_store st)"
    and "\<forall>(p, a, ce) \<in> set (cs_entries st). hash_ok (ce_hash_hex ce)"
    and "cs_store st = BlockStore rt kBlockSize" and "0 < unat len" and "unat len \<le> length buf2"
    and "\<And>b. length (ev_stack ev b) = 65536"
  shows "\<exists>st' w' w'' st2 st3. cm_write ev path buf len off st w = (Inr (int (unat len)), st', w') \<and>
    flush_all st' w' = (Inr (), w'') \<and> CacheManager ev rt w'' = (st2, w'') \<and>
    cm_read ev path buf2 len off st2 w'' = (Inr (int (unat len)), splice buf2 0 (take (unat len) buf), st3, w'') \<and>
    (\<forall>h i b. \<not> dirty_at (cs_meta st2) h i b)"
proof -
  let ?h = "hash_hex (ev_hash ev) path" and ?s = "cs_store st" and ?G = "replicate (unat off) 0 @ take (unat len) buf"
  obtain fd st' w' fs' where wr: "cm_write ev path buf len off st w = (Inr (int (unat len)), st', w')"
      "write_inv ?h buf (unat off) ?s (cs_root st) path w (unat len) fd st' w'"
    and fl: "flush_all st' w' = (Inr (), w'\<lparr>w_fs := fs'\<rparr>)" "store_ok ?s fs'" "store_abs ?s fs' = store_abs ?s (w_fs w')"
    using cm_write_flush [OF assms(1-9)] by blast
  let ?w = "w'\<lparr>w_fs := fs'\<rparr>"
  obtain st2 where st2: "CacheManager ev rt ?w = (st2, ?w)" "cs_store st2 = BlockStore rt kBlockSize" "cs_entries st2 = []"
      "ms_bitmap (cs_meta st2) = []"
    using CacheManager_restart [of rt ?w ev] fl(2) assms(10) by auto
  have ok: "store_ok (cs_store st2) (w_fs ?w)" and e: "entry_ok ev path st2"
    using fl(2) assms(10) st2(2,3) by (simp_all add: entry_ok_def)
  have "range_cached (store_abs (cs_store st2) (w_fs ?w) ?h) (unat off) (unat len) ?G"
    using wr(2) assms(5,10,11) st2(2) fl(3) by (intro written_range_cached) (simp_all add: write_inv_def)
  moreover have "unat off + unat len \<le> length ?G" using assms(5) by simp
  ultimately obtain st3 where "cm_read ev path buf2 len off st2 ?w =
      (Inr (int (unat len)), splice buf2 0 (slice (unat off) (unat len) ?G), st3, ?w)"
    using cm_read_cached [OF ok e assms(4) _ assms(12,13), of ?G] by blast
  moreover have "slice (unat off) (unat len) ?G = take (unat len) buf" by (simp add: slice_def)
  moreover have "\<not> dirty_at (cs_meta st2) h i b" for h i b using st2(4) by (simp add: dirty_at_def bits_of_def)
  ultimately show ?thesis using wr(1) fl(1) st2(1) by auto
qed

section \<open>Jobs of evicted objects\<close>

lemma prefetch_turn_keeps:
  assumes ok: "store_ok (cs_store st) (w_fs w)" and h: "hash_ok (ce_hash_hex ce)"
    and turn: "prefetch_turn ev ce f blk st w = (b, st', w')"
  shows "cs_store st' = cs_store st \<and> store_ok (cs_store st) (w_fs w') \<and>
    keeps_blocks (store_abs (cs_store st) (w_fs w) (ce_hash_hex ce)) (store_abs (cs_store st) (w_fs w') (ce_hash_hex ce))"
proof -
  have "w_fs w' = w_fs w \<or> (\<exists>d off r. bs_write (cs_store st) (ce_hash_hex ce) d off False (w_fs w) = (r, w_fs w'))"
    using turn by (auto simp: prefetch_turn_def Let_def split: sum.splits prod.splits if_splits)
  moreover have "cs_store st' = cs_store st"
    using turn by (auto simp: prefetch_turn_def Let_def touch_block_def split: sum.splits prod.splits if_splits)
  ultimately show ?thesis
    using ok bs.wr_ok [OF ok h] bs_write_keeps_blocks [OF ok h] by auto
qed

lemma prefetch_turns_keeps:
  assumes "hash_ok (ce_hash_hex ce)"
  shows "store_ok (cs_store st) (w_fs w) \<Longrightarrow> prefetch_turns ev ce f is st w = (st', w') \<Longrightarrow>
    cs_store st' = cs_store st \<and> store_ok (cs_store st) (w_fs w') \<and>
    keeps_blocks (store_abs (cs_store st) (w_fs w) (ce_hash_hex ce)) (store_abs (cs_store st) (w_fs w') (ce_hash_hex ce))"
proof (induction "is" arbitrary: st w)
  case (Cons i "is")
  obtain b st1 w1 where t: "prefetch_turn ev ce f (f + of_nat i) st w = (b, st1, w1)" by (metis prod_cases3)
  note k = prefetch_turn_keeps [OF Cons.prems(1) assms t]
  show ?case
  proof (cases b)
    case True
    with t Cons.prems(2) have "prefetch_turns ev ce f is st1 w1 = (st', w')" by simp
    with Cons.IH [of st1 w1] k show ?thesis by (auto intro: keeps_blocks_trans)
  qed (use t k Cons.prems(2) in simp)
qed simp

text \<open>A whole block of the object that the store does not have is fetched, hole or not.\<close>

lemma prefetch_turn_fetches:
  assumes srv: "serves ev content path F (w_net w)" and ok: "store_ok (cs_store st) (w_fs w)"
    and ce: "ce_path ce = path" "hash_ok (ce_hash_hex ce)"
    and b: "unat blk = b" "b * 65536 + 65536 \<le> length F" "b * 65536 + 65536 < 9223372036854775808"
    and stack: "length (ev_stack ev blk) = 65536"
  shows "\<exists>st' w'. prefetch_turn ev ce f blk st w = (True, st', w') \<and>
    length (block_at (store_abs (cs_store st) (w_fs w') (ce_hash_hex ce)) b) = 65536"
proof -
  let ?c = "store_abs (cs_store st) (w_fs w) (ce_hash_hex ce)"
  have boff: "unat (blk * kBlockSize) = b * 65536" using b(1,3) by (simp add: unat_word_ariths)
  show ?thesis
  proof (cases "length (block_at ?c b) = 65536")
    case True
    then show ?thesis using prefetch_turn_hit [OF ok ce(2) boff, of ev f] by simp
  next
    case False
    have dlen: "length (slice (b * 65536) 65536 F) = 65536" and inside: "b * 65536 < length F"
      using b(2) by (simp_all add: length_slice)
    obtain net r fs' where turn: "prefetch_turn ev ce f blk st w =
        (True, touch_block (ev_capture ev (ce, f)) blk (Fin (1 / 4)) st, w\<lparr>w_net := net, w_fs := fs'\<rparr>)"
        and wr: "bs_write (cs_store st) (ce_hash_hex ce) (slice (b * 65536) 65536 F) (blk * kBlockSize) False (w_fs w) = (r, fs')"
      using prefetch_turn_fetch [OF srv [folded ce(1)] ok ce(2) boff False stack inside b(3)] by blast
    then show ?thesis using bs_write_block(1) [OF ok ce(2) boff dlen wr] dlen by simp
  qed
qed

text \<open>C29: eviction does not stop the jobs that are already queued.  A prefetch job of an object whose
  entry has been evicted in the meantime, and of which the store then holds nothing, fetches its first
  block again and leaves it in the store, where no read can use it: reads of the path keep failing
  with \<open>ENOENT\<close>.\<close>

theorem prefetch_refills_evicted:
  assumes ok: "store_ok (cs_store st) (w_fs w)" and rt: "ms_cache_root (cs_meta st) = bs_root (cs_store st)"
    and found: "drop_bit 32 key \<noteq> 0" "entry_at (drop_bit 32 key) (cs_entries st) = Some (path, ce)"
      "\<not> ce_evicted ce" "hash_ok (ce_hash_hex ce)"
    and job: "ce_path cj = path" "ce_hash_hex cj = ce_hash_hex ce"
    and srv: "serves ev content path F (w_net w)" and first: "unat first * 65536 + 65536 \<le> length F"
      "unat first * 65536 + 65536 < 9223372036854775808"
    and stack: "\<And>b. length (ev_stack ev b) = 65536"
  shows "\<exists>st1 fs1 st2 w2. evict_entry key st (w_fs w) = (Inr (), st1, fs1) \<and>
    (\<forall>i. store_abs (cs_store st) fs1 (ce_hash_hex ce) i = None) \<and>
    prefetch_job ev (cj, first) st1 (w\<lparr>w_fs := fs1\<rparr>) = (st2, w2) \<and>
    length (block_at (store_abs (cs_store st) (w_fs w2) (ce_hash_hex ce)) (unat first)) = 65536 \<and>
    (\<forall>buf len off. cm_read ev path buf len off st2 w2 = (Inr (- ENOENT), buf, st2, w2))"
proof -
  let ?h = "ce_hash_hex ce"
  obtain st1 fs1 where ev1: "evict_entry key st (w_fs w) = (Inr (), st1, fs1)" "evicted path st1" "store_ok (cs_store st1) fs1"
      "\<forall>i. store_abs (cs_store st) fs1 ?h i = None"
    using evict_entry_ok [OF ok rt found] by blast
  have same: "cs_store st1 = cs_store st"
    using ev1(1) found by (auto simp: evict_entry_def Let_def put_entry_def split: prod.splits sum.splits)
  let ?w1 = "w\<lparr>w_fs := fs1\<rparr>"
  have hj: "hash_ok (ce_hash_hex cj)" using found(4) job(2) by simp
  have ok1: "store_ok (cs_store st1) (w_fs ?w1)" using ev1(3) by simp
  obtain st2 w2 where t: "prefetch_turn ev cj first first st1 ?w1 = (True, st2, w2)"
      "length (block_at (store_abs (cs_store st1) (w_fs w2) (ce_hash_hex cj)) (unat first)) = 65536"
    using prefetch_turn_fetches [of ev content path F ?w1, OF _ ok1 job(1) hj refl first stack, of first] srv by auto
  note k = prefetch_turn_keeps [OF ok1 hj t(1)]
  obtain st3 w3 where ts: "prefetch_turns ev cj first [1..<PREFETCH_WINDOW] st2 w2 = (st3, w3)" by force
  have ok2: "store_ok (cs_store st2) (w_fs w2)" using k by simp
  note ks = prefetch_turns_keeps [OF hj ok2 ts]
  have "prefetch_job ev (cj, first) st1 ?w1 = (st3, w3)"
    using t(1) ts by (simp add: prefetch_job_def PREFETCH_WINDOW_def upt_conv_Cons)
  moreover have "length (block_at (store_abs (cs_store st) (w_fs w3) ?h) (unat first)) = 65536"
    using t(2) k ks same job(2) by (simp add: keeps_blocks_def)
  moreover have "evicted path st3"
    using ev1(2) prefetch_turn_entries [OF t(1)] prefetch_turns_entries [OF ts] by (simp add: evicted_def)
  ultimately show ?thesis using ev1(1,4) cm_read_evicted by blast
qed

section \<open>No write-back\<close>

lemma write_turn_net: "write_turn path a ce buf len off dn fd st w = (r, st', w') \<Longrightarrow> w_net w' = w_net w"
  by (auto simp: write_turn_def Let_def split: prod.splits sum.splits)

lemma write_loop_net: "write_loop path a ce buf len off dn fd st w = (r, st', w') \<Longrightarrow> w_net w' = w_net w"
  by (drule write_loop_rel [where R = "\<lambda>x y. w_net (snd y) = w_net (snd x)", rotated -1])
    (auto dest: write_turn_net)

lemma cm_write_net: "w_net (snd (snd (cm_write ev path buf len off st w))) = w_net w"
proof -
  obtain r st' w' where wr: "cm_write ev path buf len off st w = (r, st', w')" by (metis prod_cases3)
  then have "w_net w' = w_net w"
    by (auto simp: cm_write_def split: prod.splits if_splits dest: write_loop_net)
  with wr show ?thesis by simp
qed

text \<open>C30: nothing that is written through the cache ever reaches the server: neither a write, nor a
  flush, nor an eviction, of dirty blocks too, nor the cleanup at the end performs a request, for any
  state of the cache and any outcome.\<close>

theorem cache_never_writes_back:
  "w_net (snd (snd (cm_write ev path buf len off st w))) = w_net w \<and>
   w_net (snd (flush_all st w)) = w_net w \<and>
   w_net (snd (snd (evict_until_gb gb st w))) = w_net w \<and>
   w_net (g_world (snd (cache_cleanup g))) = w_net (g_world g)"
  using cm_write_net [of ev path buf len off st w]
  by (auto simp: flush_all_def evict_until_gb_def cache_cleanup_def split: prod.splits option.splits sum.splits)

section \<open>Witnesses\<close>

theorem restart_after_write_and_flush_witness:
  "\<exists>st' w' w'' st2 st3. cm_write demo_env ''/file'' [1, 2, 3] 3 7 demo_cache (demo_world []) = (Inr 3, st', w') \<and>
     flush_all st' w' = (Inr (), w'') \<and> CacheManager demo_env ''/c'' w'' = (st2, w'') \<and>
     cm_read demo_env ''/file'' [0, 0, 0] 3 7 st2 w'' = (Inr 3, [1, 2, 3], st3, w'')"
proof -
  have names: "\<forall>(p, a, ce) \<in> set (cs_entries demo_cache). hash_ok (ce_hash_hex ce)" by (simp add: demo_cache_fields)
  show ?thesis
    using restart_after_write_and_flush [OF demo_store(1) demo_mirror_ok demo_entry_ok _ _ demo_dmaps demo_meta names
        demo_cache_fields(1) _ _ demo_stack, of 7 3 "[1, 2, 3]" "[0, 0, 0]" "[]"]
    by (force simp: splice_def)
qed

theorem prefetch_refills_evicted_witness:
  "\<exists>st1 fs1 st2 w2. evict_entry (lru_key 7 0) live_cache root_fs = (Inr (), st1, fs1) \<and>
     prefetch_job demo_env (snd (snd (hd (cs_entries live_cache))), 0) st1 ((demo_world [(''/a'', replicate 65536 9)])\<lparr>w_fs := fs1\<rparr>) = (st2, w2) \<and>
     length (block_at (store_abs (cs_store live_cache) (w_fs w2) (hash_hex (ev_hash demo_env) ''/a'')) 0) = 65536 \<and>
     cm_read demo_env ''/a'' [0] 1 0 st2 w2 = (Inr (- ENOENT), [0], st2, w2)"
proof -
  let ?w = "demo_world [(''/a'', replicate 65536 9)]"
  have key: "drop_bit 32 (lru_key 7 0) = 7" by (simp add: lru_key_def)
  have st: "store_ok (cs_store live_cache) (w_fs ?w)" "ms_cache_root (cs_meta live_cache) = bs_root (cs_store live_cache)"
    using demo_store(1) [of "[(''/a'', replicate 65536 9)]"] demo_meta(2) by (simp_all add: live_cache_def)
  have srv: "serves demo_env map_of ''/a'' (replicate 65536 9) (w_net ?w)"
    by (rule demo_serves) (simp_all add: no_nul_def demo_world_def)
  have fs: "w_fs ?w = root_fs" by (simp add: demo_world_def)
  show ?thesis
    using prefetch_refills_evicted [OF st, of "lru_key 7 0" "''/a''" "snd (snd (hd (cs_entries live_cache)))"
        "snd (snd (hd (cs_entries live_cache)))" demo_env map_of "replicate 65536 9" 0, OF _ _ _ _ _ _ srv _ _ demo_stack]
    unfolding fs key by (force simp: live_cache_def)
qed

text \<open>The first block of \<open>/a\<close> is cached, no backend was created and there is no mirrored file.\<close>

definition cached_fs :: fsys where
  "cached_fs = snd (bs_write (BlockStore ''/c'' kBlockSize) (hash_hex (ev_hash demo_env) ''/a'') (replicate 65536 9) 0 False root_fs)"

lemma cached_fs_facts:
  "store_ok (BlockStore ''/c'' kBlockSize) cached_fs"
  "store_abs (BlockStore ''/c'' kBlockSize) cached_fs (hash_hex (ev_hash demo_env) ''/a'') 0 = Some (replicate 65536 9)"
  "fst (sys_open ''/c/a'' [O_RDONLY] cached_fs) = Inl ENOENT"
proof -
  let ?s = "BlockStore ''/c'' kBlockSize" and ?h = "hash_hex (ev_hash demo_env) ''/a''"
  obtain r where wr: "bs_write ?s ?h (replicate 65536 9) 0 False root_fs = (r, cached_fs)"
    unfolding cached_fs_def by (metis prod.collapse)
  show "store_ok ?s cached_fs" by (rule bs.wr_ok [OF demo_store_ok hash_ok_hash_hex wr])
  have "file_write [] 0 (replicate 65536 9) = replicate 65536 9" by (simp add: file_write_def)
  then show "store_abs ?s cached_fs ?h 0 = Some (replicate 65536 9)"
    using bs.wr_contents [OF demo_store_ok hash_ok_hash_hex hash_ok_hash_hex wr, where j = 0] by (simp add: demo_store_empty)
  note w = bs_write_ok [OF demo_store_ok hash_ok_hash_hex wr]
  have rk: "store_key ?s root_fs = [''c'']" by (simp add: store_key_def BlockStore_def demo_root)
  have "length (take 2 ?h) = 2" using hash_ok_length [OF hash_ok_hash_hex, of "ev_hash demo_env" "''/a''"] by simp
  then have "take 2 ?h \<noteq> ''a''" by (metis One_nat_def Suc_1 length_Cons list.size(3) n_not_Suc_n)
  then have "lookup cached_fs [''c'', ''a''] = lookup root_fs [''c'', ''a'']"
    unfolding w(4) rk by (simp add: key_defs)
  then have none: "lookup cached_fs [''c'', ''a''] = None" by (simp add: lookup_def root_fs_def)
  have "resolve cached_fs ''/c/a'' = [''c'', ''a'']" by (simp add: resolve_def absolute_def norm_step_def)
  moreover have "deny cached_fs = (\<lambda>_. None)" using w(2) by (simp add: same_env_def root_fs_def)
  ultimately show "fst (sys_open ''/c/a'' [O_RDONLY] cached_fs) = Inl ENOENT" using none by (simp add: sys_open_def Let_def)
qed

theorem read_stops_at_unavailable_block_witness:
  "\<exists>st' net. cm_read (demo_env\<lparr>ev_backend := None\<rparr>) ''/a'' [0, 0, 0] 3 65534 demo_cache \<lparr>w_fs = cached_fs, w_net = []\<rparr> =
     (Inr 2, [9, 9, 0], st', \<lparr>w_fs = cached_fs, w_net = net\<rparr>)"
proof -
  let ?ev = "demo_env\<lparr>ev_backend := None\<rparr>" and ?w = "\<lparr>w_fs = cached_fs, w_net = []\<rparr> :: mem_world world"
  let ?h = "hash_hex (ev_hash ?ev) ''/a''" and ?s = "BlockStore ''/c'' kBlockSize"
  have h: "hash_hex (ev_hash demo_env) ''/a'' = ?h" by simp
  have ok: "store_ok (cs_store demo_cache) (w_fs ?w)" using cached_fs_facts(1) by (simp add: demo_cache_fields)
  have e: "entry_ok ?ev ''/a'' demo_cache" by (simp add: entry_ok_def demo_cache_fields)
  have part: "store_abs (cs_store demo_cache) (w_fs ?w) ?h 0 = Some (replicate 65536 9)"
    using cached_fs_facts(2) by (simp add: demo_cache_fields)
  then have "block_at (store_abs (cs_store demo_cache) (w_fs ?w) ?h) 0 = replicate 65536 9"
    by (simp add: block_at_def slice_0_all)
  then have cached: "range_cached (store_abs (cs_store demo_cache) (w_fs ?w) ?h) (unat (65534 :: u64)) (unat (2 :: u64)) (replicate 65536 9)"
    by (intro range_cached_first) simp_all
  have missing: "length (block_at (store_abs (cs_store demo_cache) (w_fs ?w) ?h) ((unat (65534 :: u64) + unat (2 :: u64)) div 65536)) \<noteq> 65536"
    using part by (simp add: block_at_def slice_def)
  have "mirror_path ''/c'' ''/a'' = ''/c/a''" by (simp add: mirror_path_def path_join_def absolute_def)
  then have fails: "unavailable ?ev demo_cache ''/a'' (65534 + 2) ?w"
    using cached_fs_facts(3) by (simp add: unavailable_def backend_read_range_def demo_cache_fields)
  have stack: "length (ev_stack ?ev b) = 65536" for b using demo_stack by simp
  have "slice 65534 2 (replicate 65536 9) = [9, 9 :: byte]"
    by (simp add: slice_def numeral_2_eq_2 [symmetric]) (simp add: numeral_2_eq_2)
  then show ?thesis
    using read_stops_at_unavailable_block [OF ok e _ _ _ _ _ stack cached missing fails, of 3 "[0, 0, 0]"]
    by (simp add: splice_def)
qed

end
