(* ===== verification/Cache_Files.thy ===== *)
theory Cache_Files
  imports Cache_Invariant
begin

text \<open>
  The files of a specification in the store of a cache: a file is a list of bytes of which the cache
  has seen the blocks up to some point.  The relation \<open>holds\<close> says what the store and the server
  together keep of a file, \<open>world_sim\<close> says it of all files at once.  Loading a block, reading,
  writing, flushing and prefetching keep it, for any file and whatever part of it is in the store.
\<close>

section \<open>Writing one block without a hole\<close>

lemma slice_file_write_before:
  assumes "i + n \<le> off" and "off \<le> length x"
  shows "slice i n (file_write x off d) = slice i n x"
  using assms by (intro file_write_frame) auto

lemma slice_file_write_behind:
  assumes "off + length d \<le> i" and "off \<le> length x"
  shows "slice i n (file_write x off d) = slice i n x"
  using assms by (auto simp: file_write_def slice_def min_def)

lemma slice_file_write_at:
  assumes "off \<le> length x" and "length d \<le> n"
  shows "slice off n (file_write x off d) = d @ drop (length d) (slice off n x)"
  using assms by (auto simp: file_write_def slice_def min_def drop_take add.commute)

lemma block_at_empty: "c (b div 32768) = None \<Longrightarrow> block_at c b = []"
  by (simp add: block_at_def block_split)

lemma block_at_write:
  assumes ok: "store_ok store fs" "hash_ok h" and wr: "bs_write store h d boff m fs = (r, fs')"
    and boff: "unat boff = b * 65536" and nh: "no_hole (store_abs store fs h) b" and d: "length d \<le> 65536"
  shows "block_at (store_abs store fs' h) b = d @ drop (length d) (block_at (store_abs store fs h) b)"
    and "b' \<noteq> b \<Longrightarrow> block_at (store_abs store fs' h) b' = block_at (store_abs store fs h) b'"
proof -
  let ?c = "store_abs store fs h" and ?off = "b mod 32768 * 65536"
  define x where "x = (case ?c (b div 32768) of None \<Rightarrow> [] | Some y \<Rightarrow> y)"
  have len: "?off \<le> length x"
    using nh by (simp add: x_def no_hole_def block_split part_len_def split: option.splits)
  note wc = bs.wr_contents [OF ok ok(2) wr, unfolded boff block_split, folded x_def]
  have at: "block_at ?c b'' = slice (b'' mod 32768 * 65536) 65536 x" if "b'' div 32768 = b div 32768" for b''
    using that by (simp add: block_at_def block_split x_def slice_def split: option.splits)
  have new: "block_at (store_abs store fs' h) b'' = slice (b'' mod 32768 * 65536) 65536 (file_write x ?off d)"
    if "b'' div 32768 = b div 32768" for b''
    using that wc by (simp add: block_at_def block_split x_def)
  show "block_at (store_abs store fs' h) b = d @ drop (length d) (block_at ?c b)"
    using slice_file_write_at [OF len d] by (simp add: at new)
  assume ne: "b' \<noteq> b"
  show "block_at (store_abs store fs' h) b' = block_at ?c b'"
  proof (cases "b' div 32768 = b div 32768")
    case True
    then have "b' mod 32768 \<noteq> b mod 32768" using ne by (metis div_mult_mod_eq)
    then have "b' mod 32768 * 65536 + 65536 \<le> ?off \<or> ?off + length d \<le> b' mod 32768 * 65536" using d by linarith
    then show ?thesis
      using slice_file_write_before [OF _ len] slice_file_write_behind [OF _ len] by (auto simp: at [OF True] new [OF True])
  next
    case False
    then show ?thesis using wc by (simp add: block_at_def block_split)
  qed
qed

section \<open>A file of the specification in the store\<close>

text \<open>\<open>vf_known\<close>: the number of blocks from the front that the cache has seen.  Each byte in the
  store is the file's; a block that is not complete in the store is as on the server, where it has the
  contents \<open>F\<close>; the known blocks are in the store as far as the file goes.\<close>

record vfile =
  vf_bytes :: bytes
  vf_known :: nat

definition holds :: "bytes \<Rightarrow> vfile \<Rightarrow> (nat \<Rightarrow> bytes option) \<Rightarrow> bool" where
  "holds F f c \<longleftrightarrow> length (vf_bytes f) = length F \<and> vf_known f * 65536 < length F + 65536 \<and>
     (\<forall>b i. i < length (block_at c b) \<longrightarrow> b * 65536 + i < length F \<longrightarrow> block_at c b ! i = vf_bytes f ! (b * 65536 + i)) \<and>
     (\<forall>b. length (block_at c b) < 65536 \<longrightarrow> slice (b * 65536) 65536 (vf_bytes f) = slice (b * 65536) 65536 F) \<and>
     (\<forall>b < vf_known f. min 65536 (length F - b * 65536) \<le> length (block_at c b))"

lemma holdsD:
  assumes "holds F f c"
  shows "length (vf_bytes f) = length F" and "vf_known f * 65536 < length F + 65536"
    and "i < length (block_at c b) \<Longrightarrow> b * 65536 + i < length F \<Longrightarrow> block_at c b ! i = vf_bytes f ! (b * 65536 + i)"
    and "length (block_at c b) < 65536 \<Longrightarrow> slice (b * 65536) 65536 (vf_bytes f) = slice (b * 65536) 65536 F"
    and "b < vf_known f \<Longrightarrow> min 65536 (length F - b * 65536) \<le> length (block_at c b)"
  using assms by (simp_all add: holds_def)

lemma holds_fresh: "holds F \<lparr>vf_bytes = F, vf_known = 0\<rparr> (\<lambda>_. None)"
  by (simp add: holds_def block_at_def)

lemma holds_no_hole:
  assumes "holds F f c" and "b \<le> vf_known f" and "b * 65536 < length F"
  shows "no_hole c b"
proof (cases b)
  case (Suc b0)
  then have "65536 \<le> length (block_at c b0)" using holdsD(5) [OF assms(1), of b0] assms(2,3) by simp
  then have "length (block_at c b0) = 65536" using length_block_at [of c b0] by simp
  from no_hole_Suc [OF this] show ?thesis by (simp add: Suc)
qed (simp add: no_hole_def)

lemma holds_known: "holds F f c \<Longrightarrow> k \<le> vf_known f \<Longrightarrow> holds F (f\<lparr>vf_known := k\<rparr>) c"
  by (simp add: holds_def)

text \<open>A block found complete, a block fetched, and a block written.\<close>

lemma holds_hit:
  assumes h: "holds F f c" and b: "b * 65536 < length F"
    and full: "min 65536 (length F - b * 65536) \<le> length (block_at c b)" and "b \<le> vf_known f"
  shows "holds F (f\<lparr>vf_known := max (vf_known f) (b + 1)\<rparr>) c"
  unfolding holds_def
proof (intro conjI allI impI)
  show "vf_known (f\<lparr>vf_known := max (vf_known f) (b + 1)\<rparr>) * 65536 < length F + 65536"
    using holdsD(2) [OF h] b by (simp add: max_def)
  fix b' assume "b' < vf_known (f\<lparr>vf_known := max (vf_known f) (b + 1)\<rparr>)"
  then have "b' < vf_known f \<or> b' = b" using assms(4) by (auto simp: max_def split: if_splits)
  then show "min 65536 (length F - b' * 65536) \<le> length (block_at c b')" using holdsD(5) [OF h] full by blast
qed (use holdsD(1,3,4) [OF h] in simp_all)

lemma holds_fetched:
  assumes h: "holds F f c" and b: "b * 65536 < length F" "b \<le> vf_known f" and short: "length (block_at c b) < 65536"
    and d: "d = slice (b * 65536) 65536 F"
    and new: "block_at c' b = d @ drop (length d) (block_at c b)" "\<And>b'. b' \<noteq> b \<Longrightarrow> block_at c' b' = block_at c b'"
  shows "holds F (f\<lparr>vf_known := max (vf_known f) (b + 1)\<rparr>) c'"
proof -
  have dl: "length d = min 65536 (length F - b * 65536)" by (simp add: d length_slice)
  have "holds F f c'"
    unfolding holds_def
  proof (intro conjI allI impI)
    fix b' i assume i: "i < length (block_at c' b')" "b' * 65536 + i < length F"
    show "block_at c' b' ! i = vf_bytes f ! (b' * 65536 + i)"
    proof (cases "b' = b")
      case True
      have "i < 65536" using i(1) length_block_at [of c' b'] by simp
      then have id: "i < length d" using i(2) dl True by simp
      then have "block_at c' b ! i = slice (b * 65536) 65536 F ! i" by (simp add: new(1) nth_append d)
      also have "\<dots> = slice (b * 65536) 65536 (vf_bytes f) ! i" by (simp add: holdsD(4) [OF h short])
      also have "\<dots> = vf_bytes f ! (b * 65536 + i)"
        using i(2) True \<open>i < 65536\<close> holdsD(1) [OF h] by (intro nth_slice) simp_all
      finally show ?thesis using True by simp
    qed (use i holdsD(3) [OF h] new(2) in simp)
  next
    fix b' assume "length (block_at c' b') < 65536"
    then show "slice (b' * 65536) 65536 (vf_bytes f) = slice (b' * 65536) 65536 F"
      using holdsD(4) [OF h, of b'] short new(2) by (cases "b' = b") simp_all
  next
    fix b' assume b': "b' < vf_known f"
    show "min 65536 (length F - b' * 65536) \<le> length (block_at c' b')"
      using dl new holdsD(5) [OF h b'] by (cases "b' = b") simp_all
  qed (use holdsD(1,2) [OF h] in simp_all)
  then show ?thesis using dl new(1) b by (intro holds_hit) simp_all
qed

lemma slice_splice_apart:
  assumes "j + n \<le> off \<or> off + length d \<le> j" and "off + length d \<le> length xs"
  shows "slice j n (splice xs off d) = slice j n xs"
  using assms by (intro nth_equalityI) (auto simp: length_slice length_splice nth_slice nth_splice)

lemma holds_written:
  assumes h: "holds F f c" and b: "b * 65536 < length F" "b \<le> vf_known f"
    and d: "i + length d \<le> 65536" "b * 65536 + i + length d \<le> length F"
    and cover: "b < vf_known f \<or> i = 0 \<and> (length d = 65536 \<or> b * 65536 + length d = length F)"
    and new: "block_at c' b = splice (splice (replicate 65536 0) 0 (block_at c b)) i d"
      "\<And>b'. b' \<noteq> b \<Longrightarrow> block_at c' b' = block_at c b'"
  shows "holds F \<lparr>vf_bytes = splice (vf_bytes f) (b * 65536 + i) d, vf_known = max (vf_known f) (b + 1)\<rparr> c'"
proof -
  let ?G = "splice (vf_bytes f) (b * 65536 + i) d" and ?z = "splice (replicate 65536 0) 0 (block_at c b)"
  have G: "length ?G = length F" using holdsD(1) [OF h] d(2) by (simp add: length_splice)
  have z: "length ?z = 65536" "\<And>j. j < length (block_at c b) \<Longrightarrow> ?z ! j = block_at c b ! j"
    using length_block_at [of c b] by (simp_all add: length_splice nth_splice)
  have len: "length (block_at c' b) = 65536" using z(1) d(1) by (simp add: new(1) length_splice)
  have "holds F \<lparr>vf_bytes = ?G, vf_known = vf_known f\<rparr> c'"
    unfolding holds_def vfile.simps
  proof (intro conjI allI impI)
    fix b' j assume j: "j < length (block_at c' b')" "b' * 65536 + j < length F"
    have j64: "j < 65536" using j(1) length_block_at [of c' b'] by simp
    show "block_at c' b' ! j = ?G ! (b' * 65536 + j)"
    proof (cases "b' = b")
      case True
      have "block_at c' b ! j = (if i \<le> j \<and> j < i + length d then d ! (j - i) else ?z ! j)"
        using z(1) d(1) j64 by (simp add: new(1) nth_splice)
      moreover have "?z ! j = vf_bytes f ! (b * 65536 + j)" if "\<not> (i \<le> j \<and> j < i + length d)"
      proof -
        have "b < vf_known f" using cover that j(2) j64 True by auto
        then have "j < length (block_at c b)" using holdsD(5) [OF h, of b] j64 j(2) True by simp
        then show ?thesis using z(2) holdsD(3) [OF h] j(2) True by simp
      qed
      moreover have "?G ! (b * 65536 + j) =
          (if i \<le> j \<and> j < i + length d then d ! (j - i) else vf_bytes f ! (b * 65536 + j))"
        using holdsD(1) [OF h] d(2) j(2) True by (simp add: nth_splice)
      ultimately show ?thesis using True by simp
    next
      case False
      then have "\<not> (b * 65536 + i \<le> b' * 65536 + j \<and> b' * 65536 + j < b * 65536 + i + length d)"
        using j64 d(1) by linarith
      then have "?G ! (b' * 65536 + j) = vf_bytes f ! (b' * 65536 + j)"
        using holdsD(1) [OF h] d(2) j(2) by (auto simp: nth_splice)
      then show ?thesis using False j holdsD(3) [OF h] new(2) by simp
    qed
  next
    fix b' assume short: "length (block_at c' b') < 65536"
    then have ne: "b' \<noteq> b" using len by auto
    then have "slice (b' * 65536) 65536 ?G = slice (b' * 65536) 65536 (vf_bytes f)"
      using d(1,2) holdsD(1) [OF h] by (intro slice_splice_apart) linarith+
    then show "slice (b' * 65536) 65536 ?G = slice (b' * 65536) 65536 F"
      using holdsD(4) [OF h, of b'] short ne new(2) by simp
  next
    fix b' assume "b' < vf_known f"
    then show "min 65536 (length F - b' * 65536) \<le> length (block_at c' b')"
      using holdsD(5) [OF h] len new(2) by (cases "b' = b") simp_all
  qed (use G holdsD(2) [OF h] in simp_all)
  from holds_hit [OF this b(1)] show ?thesis using len b(2) by simp
qed

section \<open>The files of the specification in the world\<close>

text \<open>The files have objects of their own, and no mirrored file is a directory another one is in.\<close>

type_synonym vstore = "string \<Rightarrow> vfile option"

definition files_apart :: "('db, 'w) env \<Rightarrow> string \<Rightarrow> string set \<Rightarrow> fsys \<Rightarrow> bool" where
  "files_apart ev rt P fs \<longleftrightarrow> (\<forall>p \<in> P. \<forall>q \<in> P.
     resolve fs (mirror_path rt p) \<noteq> resolve fs (parent_path (mirror_path rt q)) \<and>
     (p \<noteq> q \<longrightarrow> hash_hex (ev_hash ev) p \<noteq> hash_hex (ev_hash ev) q))"

definition world_sim ::
    "('db, 'w) env \<Rightarrow> ('w \<Rightarrow> string \<Rightarrow> bytes option) \<Rightarrow> (string \<Rightarrow> bytes) \<Rightarrow> bstore \<Rightarrow> string \<Rightarrow> vstore \<Rightarrow> 'w world
      \<Rightarrow> bool" where
  "world_sim ev content rem store rt vs w \<longleftrightarrow>
     store_ok store (w_fs w) \<and> dmaps_ok store (w_fs w) \<and> files_apart ev rt (dom vs) (w_fs w) \<and>
     (\<forall>p f. vs p = Some f \<longrightarrow> serves ev content p (rem p) (w_net w) \<and> mirror_ok store rt p (w_fs w) \<and>
        length (rem p) + 655360 < 9223372036854775808 \<and>
        holds (rem p) f (store_abs store (w_fs w) (hash_hex (ev_hash ev) p)))"

lemma world_simD:
  assumes "world_sim ev content rem store rt vs w"
  shows "store_ok store (w_fs w)" and "dmaps_ok store (w_fs w)" and "files_apart ev rt (dom vs) (w_fs w)"
    and "vs p = Some f \<Longrightarrow> serves ev content p (rem p) (w_net w)"
    and "vs p = Some f \<Longrightarrow> mirror_ok store rt p (w_fs w)"
    and "vs p = Some f \<Longrightarrow> length (rem p) + 655360 < 9223372036854775808"
    and "vs p = Some f \<Longrightarrow> holds (rem p) f (store_abs store (w_fs w) (hash_hex (ev_hash ev) p))"
  using assms by (simp_all add: world_sim_def)

lemma serves_cong: "content net' = content net \<Longrightarrow> serves ev content p F net' = serves ev content p F net"
  by (simp add: serves_def)

lemma files_apart_env: "same_env fs fs' \<Longrightarrow> files_apart ev rt P fs' = files_apart ev rt P fs"
  by (simp add: files_apart_def same_env_resolve)

text \<open>A change that concerns the object of one file.\<close>

lemma world_sim_change:
  assumes W: "world_sim ev content rem store rt vs w" and p: "vs p = Some f"
    and net: "content (w_net w') = content (w_net w)"
    and fs: "store_ok store (w_fs w')" "only_shards store (w_fs w) (w_fs w')"
    and mir: "\<And>q. q \<in> dom vs \<Longrightarrow> mirror_ok store rt q (w_fs w')"
    and new: "holds (rem p) f' (store_abs store (w_fs w') (hash_hex (ev_hash ev) p))"
    and other: "\<And>h. hash_ok h \<Longrightarrow> h \<noteq> hash_hex (ev_hash ev) p \<Longrightarrow> store_abs store (w_fs w') h = store_abs store (w_fs w) h"
  shows "world_sim ev content rem store rt (vs(p \<mapsto> f')) w'"
proof -
  note D = world_simD [OF W]
  have dom: "dom (vs(p \<mapsto> f')) = dom vs" using p by auto
  have env: "same_env (w_fs w) (w_fs w')" using fs(2) by (simp add: only_shards_def)
  have keep: "holds (rem q) g (store_abs store (w_fs w') (hash_hex (ev_hash ev) q))" if q: "q \<noteq> p" "vs q = Some g" for q g
  proof -
    have "hash_hex (ev_hash ev) q \<noteq> hash_hex (ev_hash ev) p" using D(3) p q unfolding files_apart_def by blast
    then show ?thesis using D(7) [OF q(2)] other by simp
  qed
  have "serves ev content q (rem q) (w_net w') \<and> mirror_ok store rt q (w_fs w') \<and>
      length (rem q) + 655360 < 9223372036854775808 \<and>
      holds (rem q) g (store_abs store (w_fs w') (hash_hex (ev_hash ev) q))" if g: "(vs(p \<mapsto> f')) q = Some g" for q g
  proof -
    obtain g0 where g0: "vs q = Some g0" using g p by (auto split: if_splits)
    then show ?thesis
      using D(4) [OF g0] D(6) [OF g0] mir [of q] new keep g by (auto simp: serves_cong [where content = content, OF net] split: if_splits)
  qed
  then show ?thesis
    using fs(1) dmaps_only_shards [OF D(2) fs(2)] D(3)
    unfolding world_sim_def dom files_apart_env [OF env] by blast
qed

lemma bs_write_sim:
  assumes W: "world_sim ev content rem store rt vs w" and p: "vs p = Some f"
    and wr: "bs_write store (hash_hex (ev_hash ev) p) d off m (w_fs w) = (r, fs')"
    and net: "content net = content (w_net w)"
    and new: "holds (rem p) f' (store_abs store fs' (hash_hex (ev_hash ev) p))"
  shows "world_sim ev content rem store rt (vs(p \<mapsto> f')) (w\<lparr>w_net := net, w_fs := fs'\<rparr>)"
proof -
  note D = world_simD [OF W]
  have sh: "only_shards store (w_fs w) fs'"
    using bs_write_ok [OF D(1) hash_ok_hash_hex wr] by (auto simp: only_shards_def split: if_splits)
  have mir: "mirror_ok store rt q fs'" if "q \<in> dom vs" for q
    using that bs_write_mirror(1) [OF D(1) hash_ok_hash_hex D(5) wr] by blast
  have other: "store_abs store fs' h = store_abs store (w_fs w) h" if "hash_ok h" "h \<noteq> hash_hex (ev_hash ev) p" for h
    using that bs.wr_contents [OF D(1) hash_ok_hash_hex that(1) wr] by (intro ext) simp
  show ?thesis
    by (rule world_sim_change [OF W p]) (use net bs.wr_ok [OF D(1) hash_ok_hash_hex wr] sh mir new other in simp_all)
qed

lemma same_bytes_slice:
  fixes F G :: "'a list"
  assumes "length G = length F" and "slice (b * 65536) 65536 G = slice (b * 65536) 65536 F"
    and "i + n \<le> 65536" and "b * 65536 + i + n \<le> length F"
  shows "slice (b * 65536 + i) n F = slice (b * 65536 + i) n G"
proof -
  have "slice (b * 65536 + i) n H = slice i n (slice (b * 65536) 65536 H)" for H :: "'a list"
    using assms(3) by (simp add: slice_slice)
  then show ?thesis using assms(2) by metis
qed

text \<open>Loading a block of a file gives the bytes of the file, whatever is in the store.\<close>

lemma load_block_sim:
  assumes W: "world_sim ev content rem (cs_store st) rt vs w" and p: "vs p = Some f"
    and b: "unat boff = b * 65536" "b * 65536 < length (rem p)" "b \<le> vf_known f" and stack: "length stack = 65536"
  shows "\<exists>block w'. load_block ev st p (hash_hex (ev_hash ev) p) boff stack w = (Inr (Some block), w') \<and>
    world_sim ev content rem (cs_store st) rt (vs(p \<mapsto> f\<lparr>vf_known := max (vf_known f) (b + 1)\<rparr>)) w' \<and>
    (\<forall>i n. i + n \<le> 65536 \<and> b * 65536 + i + n \<le> length (rem p) \<longrightarrow>
       slice i n block = slice (b * 65536 + i) n (vf_bytes f))"
proof -
  let ?h = "hash_hex (ev_hash ev) p" and ?F = "rem p" and ?G = "vf_bytes f"
  let ?c = "store_abs (cs_store st) (w_fs w) ?h" and ?f = "f\<lparr>vf_known := max (vf_known f) (b + 1)\<rparr>"
  note D = world_simD [OF W] and H = world_simD(7) [OF W p]
  show ?thesis
  proof (cases "length (block_at ?c b) = 65536")
    case True
    have "world_sim ev content rem (cs_store st) rt (vs(p \<mapsto> ?f)) w"
      using True holds_hit [OF H b(2) _ b(3)] D(1,5) only_shards_refl
      by (intro world_sim_change [OF W p]) auto
    moreover have "slice i n (block_at ?c b) = slice (b * 65536 + i) n ?G"
      if "i + n \<le> 65536" "b * 65536 + i + n \<le> length ?F" for i n
      using that True holdsD(1,3) [OF H] by (intro slice_eqI) (simp_all add: add.assoc)
    ultimately show ?thesis using load_block_hit [OF D(1) hash_ok_hash_hex b(1) True stack] by blast
  next
    case False
    then have short: "length (block_at ?c b) < 65536" using length_block_at [of ?c b] by simp
    let ?s = "splice stack 0 (block_at ?c b)" and ?d = "slice (b * 65536) 65536 ?F"
    have s: "length ?s = 65536" using stack short by (simp add: length_splice)
    have lim: "b * 65536 + 65536 < 9223372036854775808" using b(2) D(6) [OF p] by linarith
    obtain net r fs' where f: "fetch_block ev st p ?h boff ?s w =
        (Inr (Some (splice ?s 0 ?d)), w\<lparr>w_net := net, w_fs := fs'\<rparr>)" "content net = content (w_net w)"
      and wr: "bs_write (cs_store st) ?h ?d boff False (w_fs w) = (r, fs')"
      using fetch_block_raw [OF D(4) [OF p] D(1) hash_ok_hash_hex b(1,2) lim s] by blast
    have dl: "length ?d \<le> 65536" by (simp add: length_slice)
    note at = block_at_write [OF D(1) hash_ok_hash_hex wr b(1) holds_no_hole [OF H b(3,2)] dl]
    have "holds ?F ?f (store_abs (cs_store st) fs' ?h)" by (rule holds_fetched [OF H b(2,3) short refl at])
    from bs_write_sim [OF W p wr f(2) this]
    have "world_sim ev content rem (cs_store st) rt (vs(p \<mapsto> ?f)) (w\<lparr>w_net := net, w_fs := fs'\<rparr>)" .
    moreover have "slice i n (splice ?s 0 ?d) = slice (b * 65536 + i) n ?G"
      if "i + n \<le> 65536" "b * 65536 + i + n \<le> length ?F" for i n
    proof -
      have "slice i n (splice ?s 0 ?d) = slice i n ?d"
        using that s by (intro slice_splice_prefix) (simp_all add: length_slice)
      also have "\<dots> = slice (b * 65536 + i) n ?F" using that(1) by (simp add: slice_slice)
      also have "\<dots> = slice (b * 65536 + i) n ?G" by (rule same_bytes_slice [OF holdsD(1) [OF H] holdsD(4) [OF H short] that])
      finally show ?thesis .
    qed
    ultimately show ?thesis using f(1) load_block_miss [OF D(1) hash_ok_hash_hex b(1) False, of ev p stack] by auto
  qed
qed

section \<open>Reading\<close>

text \<open>What is known after the first \<open>n\<close> bytes from \<open>off\<close> on were read or written.\<close>

definition seen :: "vfile \<Rightarrow> nat \<Rightarrow> nat \<Rightarrow> nat" where
  "seen f off n = (if n = 0 then vf_known f else max (vf_known f) ((off + n + 65535) div 65536))"

lemma seen_block: "off div 65536 \<le> vf_known f \<Longrightarrow> (off + n) div 65536 \<le> seen f off n"
  by (auto simp: seen_def max_def intro: div_le_mono)

lemma seen_step:
  assumes "0 < want" and "(off + n) mod 65536 + want \<le> 65536"
  shows "max (seen f off n) ((off + n) div 65536 + 1) = seen f off (n + want)"
proof -
  define q r where "q = (off + n) div 65536" and "r = (off + n) mod 65536"
  then have eq: "off + n = q * 65536 + r" and r: "r + want \<le> 65536" using assms(2) by simp_all
  have up: "(off + (n + want) + 65535) div 65536 = q + 1"
    by (rule div_nat_eqI) (use eq r assms(1) in \<open>simp_all add: algebra_simps\<close>)
  have "off + n + 65535 < (q + 2) * 65536" using eq r assms(1) by simp
  then have "(off + n + 65535) div 65536 < q + 2" by (rule less_mult_imp_div_less)
  then show ?thesis using up assms(1) by (simp add: seen_def max_def q_def [symmetric])
qed

lemma cm_read_sim:
  fixes st :: "'db cstate" and ev :: "('db, 'w) env"
  assumes W: "world_sim ev content rem (cs_store st) rt vs w" and p: "vs p = Some f" and e: "entry_ok ev p st"
    and guard: "unat off div 65536 \<le> vf_known f" "unat off + unat len \<le> length (vf_bytes f)" "unat len \<le> length buf"
    and stack: "\<And>b. length (ev_stack ev b) = 65536"
  shows "\<exists>st' w'. cm_read ev p buf len off st w =
      (Inr (int (unat len)), splice buf 0 (slice (unat off) (unat len) (vf_bytes f)), st', w') \<and>
    world_sim ev content rem (cs_store st) rt (vs(p \<mapsto> f\<lparr>vf_known := seen f (unat off) (unat len)\<rparr>)) w' \<and>
    entry_ok ev p st'"
proof -
  note H = world_simD(7) [OF W p] and big = world_simD(6) [OF W p]
  define I where "I = (\<lambda>(dn :: u64) w. world_sim ev content rem (cs_store st) rt
    (vs(p \<mapsto> f\<lparr>vf_known := seen f (unat off) (unat dn)\<rparr>)) w)"
  have lim: "unat off + unat len < 9223372036854775808" using guard(2) big holdsD(1) [OF H] by simp
  have turn: "\<exists>block w'. load_block ev st p (hash_hex (ev_hash ev) p) (blk_off_of off dn) (ev_stack ev (blk_of off dn)) w =
      (Inr (Some block), w') \<and>
      slice (unat (in_of off dn)) (unat (want_of len off dn)) block =
        slice (unat off + unat dn) (unat (want_of len off dn)) (vf_bytes f) \<and> I (dn + want_of len off dn) w'"
    if I: "I dn w" and dn: "dn < len" for dn w
  proof -
    let ?b = "(unat off + unat dn) div 65536" and ?want = "want_of len off dn"
    let ?f = "f\<lparr>vf_known := seen f (unat off) (unat dn)\<rparr>"
    note pos = turn_pos [OF lim dn]
    have inb: "unat (in_of off dn) = (unat off + unat dn) mod 65536"
      using pos(3) div_mult_mod_eq [of "unat off + unat dn" 65536] by linarith
    have bF: "?b * 65536 < length (rem p)" using pos(6) guard(2) holdsD(1) [OF H] by linarith
    have known: "?b \<le> vf_known ?f" using seen_block [OF guard(1)] by simp
    have pf: "(vs(p \<mapsto> ?f)) p = Some ?f" by simp
    obtain block w' where l: "load_block ev st p (hash_hex (ev_hash ev) p) (blk_off_of off dn) (ev_stack ev (blk_of off dn)) w =
        (Inr (Some block), w')"
      "world_sim ev content rem (cs_store st) rt (vs(p \<mapsto> ?f, p \<mapsto> ?f\<lparr>vf_known := max (vf_known ?f) (?b + 1)\<rparr>)) w'"
      "\<And>i n. i + n \<le> 65536 \<Longrightarrow> ?b * 65536 + i + n \<le> length (rem p) \<Longrightarrow>
         slice i n block = slice (?b * 65536 + i) n (vf_bytes ?f)"
      using load_block_sim [OF I [unfolded I_def] pf pos(2) bF known stack, of "blk_of off dn"] by blast
    have "slice (unat (in_of off dn)) (unat ?want) block = slice (unat off + unat dn) (unat ?want) (vf_bytes f)"
      using l(3) [OF pos(4)] pos(3,5) guard(2) holdsD(1) [OF H] by simp
    moreover have "0 < unat ?want" using dn by (intro want_pos) auto
    then have "max (seen f (unat off) (unat dn)) (?b + 1) = seen f (unat off) (unat (dn + ?want))"
      unfolding unat_want(1) [OF dn] using pos(4) inb by (intro seen_step) simp_all
    then have "I (dn + ?want) w'" using l(2) by (simp add: I_def)
    ultimately show ?thesis using l(1) by blast
  qed
  have "I 0 w" using W p by (simp add: I_def seen_def fun_upd_idem)
  from cm_read_rule [of ev p st off len "vf_bytes f" buf I, OF e lim guard(2,3) turn this] show ?thesis
    unfolding I_def by blast
qed

text \<open>The jobs a read queues are for its own file and start behind a block it has read.\<close>

definition job_within :: "('db, 'w) env \<Rightarrow> string \<Rightarrow> nat \<Rightarrow> job \<Rightarrow> bool" where
  "job_within ev p n j \<longleftrightarrow> ce_path (fst j) = p \<and> ce_hash_hex (fst j) = hash_hex (ev_hash ev) p \<and> unat (snd j) \<le> n"

lemma unat_signed: "0 \<le> sint w \<Longrightarrow> int (unat w) = sint w" for w :: u64
  using unat_diff_signed [of 0 w] signed_eq_0_iff [of w] by (cases "sint w = 0") auto

lemma read_turn_jobs:
  assumes lim: "unat off + unat len < 9223372036854775808" and dn: "0 \<le> sint dn" "sint dn < sint len"
    and ce: "ce_wf ev p ce" and rt: "read_turn ev p a len off dn ce buf st w = (t, st', w')"
    and j: "j \<in> set (wp_tasks (cs_pool st'))"
  shows "j \<in> set (wp_tasks (cs_pool st)) \<or>
    0 < unat len \<and> job_within ev p ((unat off + unat len + 65535) div 65536) j"
proof -
  have "sint len = int (unat len)" using lim by (intro sint_small) simp
  then have lt: "unat dn < unat len" using dn unat_signed [OF dn(1)] by linarith
  then have pos: "unat (off + dn) = unat off + unat dn"
    using lim by (intro unat_pos [of off len]) (simp_all add: word_le_nat_alt)
  have "(unat off + unat dn + 65536) div 65536 \<le> (unat off + unat len + 65535) div 65536"
    using lt by (intro div_le_mono) simp
  then have "unat (blk_of off dn) + 1 \<le> (unat off + unat len + 65535) div 65536"
    using pos by (simp add: unat_blk_of)
  moreover have "unat (blk_of off dn + 1) \<le> unat (blk_of off dn) + 1" by (simp add: unat_word_ariths)
  ultimately have next_le: "unat (blk_of off dn + 1) \<le> (unat off + unat len + 65535) div 65536" by linarith
  show ?thesis
    using rt j ce next_le lt
    by (auto simp: read_turn_def Let_def touch_block_def put_entry_def schedule_prefetch_def pool_enqueue_def
        job_within_def ce_wf_def split: if_splits prod.splits sum.splits option.splits)
qed

lemma read_turn_ce:
  "read_turn ev path a len off dn ce buf st w = (Next (ce', buf'), st', w') \<Longrightarrow> ce_wf ev path ce \<Longrightarrow> ce_wf ev path ce'"
  by (auto simp: read_turn_def Let_def split: if_splits prod.splits sum.splits option.splits)

lemma read_loop_jobs:
  assumes lim: "unat off + unat len < 9223372036854775808"
    and l: "read_loop ev p a len off 0 ce buf st w = (r, buf', st', w')" and ce: "ce_wf ev p ce"
    and j: "j \<in> set (wp_tasks (cs_pool st'))"
  shows "j \<in> set (wp_tasks (cs_pool st)) \<or>
    0 < unat len \<and> job_within ev p ((unat off + unat len + 65535) div 65536) j"
proof -
  let ?Q = "\<lambda>s. \<forall>j \<in> set (wp_tasks (cs_pool s)). j \<in> set (wp_tasks (cs_pool st)) \<or>
    0 < unat len \<and> job_within ev p ((unat off + unat len + 65535) div 65536) j"
  have "?Q st'"
  proof (rule read_loop_keeps [where P = "ce_wf ev p" and Q = ?Q, OF _ l ce])
    fix dn ce buf s w t s' w'
    assume turn: "sint (0 :: u64) \<le> sint dn" "sint dn < sint len" "read_turn ev p a len off dn ce buf s w = (t, s', w')"
      "ce_wf ev p ce" "?Q s"
    have "0 \<le> sint dn" using turn(1) by simp
    then have "?Q s'" using read_turn_jobs [OF lim _ turn(2,4,3)] turn(5) by blast
    then show "?Q s' \<and> (\<forall>ce' b. t = Next (ce', b) \<longrightarrow> ce_wf ev p ce')" using turn(3,4) read_turn_ce by blast
  qed simp
  then show ?thesis using j by blast
qed

lemma entry_pool: "entry ev path st = (x, st') \<Longrightarrow> cs_pool st' = cs_pool st"
  by (auto simp: entry_def Let_def put_entry_def split: option.splits)

lemma cm_read_jobs:
  assumes "unat off + unat len < 9223372036854775808" and "cache_wf ev rt st"
    and "cm_read ev p buf len off st w = (r, buf', st', w')" and "j \<in> set (wp_tasks (cs_pool st'))"
  shows "j \<in> set (wp_tasks (cs_pool st)) \<or>
    0 < unat len \<and> job_within ev p ((unat off + unat len + 65535) div 65536) j"
proof -
  obtain a ce st1 where e: "entry ev p st = ((a, ce), st1)" by (metis prod.collapse)
  show ?thesis
  proof (cases "ce_evicted ce")
    case True
    with assms(3,4) e entry_pool [OF e] show ?thesis by (simp add: cm_read_def)
  next
    case False
    with assms(3) e have "read_loop ev p a len off 0 ce buf st1 w = (r, buf', st', w')" by (simp add: cm_read_def)
    from read_loop_jobs [OF assms(1) this _ assms(4)] entry_wf [OF assms(2) e] entry_pool [OF e] show ?thesis by simp
  qed
qed

lemma cm_read_other:
  assumes "cm_read ev path buf len off st w = (r, buf', st', w')" and "q \<noteq> path"
  shows "map_of (cs_entries st') q = map_of (cs_entries st) q"
proof -
  obtain a ce st1 where e: "entry ev path st = ((a, ce), st1)" by (metis prod.collapse)
  with assms(1) have "map_of (cs_entries st') q = map_of (cs_entries st1) q"
    using read_loop_other [OF _ assms(2)] by (auto simp: cm_read_def split: if_splits)
  with entry_other [OF e assms(2)] show ?thesis by simp
qed

section \<open>Writing\<close>

lemma write_block_sim:
  assumes W: "world_sim ev content rem store rt vs w" and p: "vs p = Some f"
    and b: "unat boff = b * 65536" "b * 65536 < length (rem p)" "b \<le> vf_known f"
    and d: "unat in_blk + length d \<le> 65536" "b * 65536 + unat in_blk + length d \<le> length (rem p)"
    and cover: "b < vf_known f \<or> unat in_blk = 0 \<and> (length d = 65536 \<or> b * 65536 + length d = length (rem p))"
  shows "\<exists>fs'. write_block store (hash_hex (ev_hash ev) p) d in_blk boff (w_fs w) = (Inr (), fs') \<and> same_env (w_fs w) fs' \<and>
    world_sim ev content rem store rt
      (vs(p \<mapsto> \<lparr>vf_bytes = splice (vf_bytes f) (b * 65536 + unat in_blk) d, vf_known = max (vf_known f) (b + 1)\<rparr>))
      (w\<lparr>w_fs := fs'\<rparr>)"
proof -
  let ?h = "hash_hex (ev_hash ev) p" and ?c = "store_abs store (w_fs w) (hash_hex (ev_hash ev) p)"
  let ?z = "splice (splice (replicate 65536 0) 0 (block_at ?c b)) (unat in_blk) d"
  note D = world_simD [OF W] and H = world_simD(7) [OF W p]
  obtain r fs' where wr: "bs_write store ?h ?z boff True (w_fs w) = (r, fs')" by force
  have z: "length ?z = 65536" using length_block_at [of ?c b] d(1) by (simp add: length_splice)
  have "write_block store ?h d in_blk boff (w_fs w) = (Inr (), fs')"
    using read_block [OF D(1) hash_ok_hash_hex b(1), where buf = "replicate 65536 0"] wr bs.wr_result [OF D(1) hash_ok_hash_hex wr]
    by (simp add: write_block_def)
  moreover have "block_at (store_abs store fs' ?h) b = ?z"
    and "\<And>b'. b' \<noteq> b \<Longrightarrow> block_at (store_abs store fs' ?h) b' = block_at ?c b'"
    using block_at_write [OF D(1) hash_ok_hash_hex wr b(1) holds_no_hole [OF H b(3,2)]] z length_block_at [of ?c b] by simp_all
  note bs_write_sim [OF W p wr refl holds_written [OF H b(2,3) d cover this]]
  moreover have "same_env (w_fs w) fs'" by (rule bs_write_ok(2) [OF D(1) hash_ok_hash_hex wr])
  ultimately show ?thesis by simp
qed

text \<open>The mirrored file is none of the specification's business.\<close>

lemma world_sim_mirror:
  assumes W: "world_sim ev content rem store rt vs w" and p: "vs p = Some f"
    and at: "only_at (resolve (w_fs w) (mirror_path rt p)) (w_fs w) fs'"
  shows "world_sim ev content rem store rt vs (w\<lparr>w_fs := fs'\<rparr>)"
proof -
  note D = world_simD [OF W]
  note om = only_at_mirror [OF D(1) D(5) [OF p] at]
  have mir: "mirror_ok store rt q fs'" if "q \<in> dom vs" for q
  proof -
    have m: "mirror_ok store rt q (w_fs w)" using D(5) that by blast
    have "resolve (w_fs w) (parent_path (mirror_path rt q)) \<noteq> resolve (w_fs w) (mirror_path rt p)"
      using D(3) p that unfolding files_apart_def by (metis domI)
    then have "lookup fs' (resolve (w_fs w) (parent_path (mirror_path rt q))) = Some Dir"
      using at mirror_okD(2) [OF m] by (simp add: only_at_def)
    with at show ?thesis by (intro mirror_ok_keep [OF m]) (simp_all add: only_at_def)
  qed
  have same: "store_abs store fs' h = store_abs store (w_fs w) h" if "hash_ok h" for h
    using only_at_mirror [OF D(1) D(5) [OF p] at, of h] that by simp
  have "world_sim ev content rem store rt (vs(p \<mapsto> f)) (w\<lparr>w_fs := fs'\<rparr>)"
    by (rule world_sim_change [OF W p]) (use om only_at_shards [OF at] mir same world_simD(7) [OF W p] in simp_all)
  then show ?thesis using p by (simp add: fun_upd_idem)
qed

text \<open>The file after the first \<open>n\<close> bytes of the buffer were written.\<close>

definition wrote :: "vfile \<Rightarrow> nat \<Rightarrow> bytes \<Rightarrow> nat \<Rightarrow> vfile" where
  "wrote f off buf n = \<lparr>vf_bytes = splice (vf_bytes f) off (take n buf), vf_known = seen f off n\<rparr>"

lemma wrote_step:
  assumes "0 < want" and "(off + n) mod 65536 + want \<le> 65536" and "n + want \<le> length buf"
    and "off + (n + want) \<le> length (vf_bytes f)"
  shows "wrote f off buf (n + want) =
    \<lparr>vf_bytes = splice (vf_bytes (wrote f off buf n)) (off + n) (slice n want buf),
     vf_known = max (vf_known (wrote f off buf n)) ((off + n) div 65536 + 1)\<rparr>"
proof -
  have "splice (splice (vf_bytes f) off (take n buf)) (off + n) (slice n want buf) =
      splice (vf_bytes f) off (take n buf @ slice n want buf)"
    using splice_splice_adjacent [of off "take n buf" "slice n want buf" "vf_bytes f"] assms(3,4)
    by (simp add: length_slice)
  also have "take n buf @ slice n want buf = take (n + want) buf" by (simp add: slice_def take_add)
  finally show ?thesis using seen_step [OF assms(1,2), of f] by (simp add: wrote_def)
qed

text \<open>A turn that starts or ends inside a block finds the block known.\<close>

lemma turn_covered:
  assumes guard: "off \<le> vf_known f * 65536"
      "off + len \<le> vf_known f * 65536 \<or> 65536 dvd off + len \<or> off + len = length F"
    and n: "n < len" and want: "want = min (65536 - (off + n) mod 65536) (len - n)"
  shows "(off + n) div 65536 < seen f off n \<or>
    (off + n) mod 65536 = 0 \<and> (want = 65536 \<or> (off + n) div 65536 * 65536 + want = length F)"
proof -
  define q r where "q = (off + n) div 65536" and "r = (off + n) mod 65536"
  then have eq: "off + n = q * 65536 + r" and r: "r < 65536" by simp_all
  have known: "vf_known f \<le> seen f off n" by (simp add: seen_def)
  have "q < seen f off n" if "\<not> q < vf_known f" "r \<noteq> 0"
  proof -
    have "n \<noteq> 0"
    proof
      assume "n = 0"
      then have "q * 65536 + r \<le> vf_known f * 65536" using eq guard(1) by simp
      moreover have "vf_known f * 65536 \<le> q * 65536" using that(1) by simp
      ultimately show False using that(2) by linarith
    qed
    moreover have "(off + n + 65535) div 65536 = q + 1"
      by (rule div_nat_eqI) (use eq r that(2) in \<open>simp_all add: algebra_simps\<close>)
    ultimately show ?thesis by (simp add: seen_def)
  qed
  moreover have "want = 65536 \<or> q * 65536 + want = length F" if q: "\<not> q < vf_known f" and r0: "r = 0"
  proof (cases "want = 65536")
    case False
    then have w: "want = len - n" "want < 65536" "0 < want" using want n r0 by (simp_all add: r_def)
    then have e: "off + len = q * 65536 + want" using eq r0 n by simp
    have "\<not> off + len \<le> vf_known f * 65536" using q e w(3) by simp
    moreover have "\<not> 65536 dvd off + len"
    proof
      assume "65536 dvd off + len"
      then have "65536 dvd want" by (simp add: e dvd_add_right_iff)
      then show False using w(2,3) by (auto dest: dvd_imp_le)
    qed
    ultimately show ?thesis using guard(2) e by simp
  qed simp
  ultimately show ?thesis unfolding q_def [symmetric] r_def [symmetric] using known by linarith
qed

text \<open>What \<open>write\<close> asks of a file.\<close>

definition writable :: "vfile \<Rightarrow> nat \<Rightarrow> nat \<Rightarrow> bool" where
  "writable f off len \<longleftrightarrow> off \<le> vf_known f * 65536 \<and> off + len \<le> length (vf_bytes f) \<and>
     (off + len \<le> vf_known f * 65536 \<or> 65536 dvd off + len \<or> off + len = length (vf_bytes f))"

lemma write_turn_sim:
  fixes st :: "'db cstate" and ev :: "('db, 'w) env"
  assumes W: "world_sim ev content rem (cs_store st) (cs_root st) (vs(p \<mapsto> wrote f (unat off) buf (unat dn))) w"
    and wr: "writable f (unat off) (unat len)" "length (vf_bytes f) = length (rem p)" "unat len \<le> length buf" and dn: "dn < len"
    and ce: "ce_hash_hex ce = hash_hex (ev_hash ev) p"
    and fd: "fd = None \<or> fd = Some (resolve (w_fs w) (mirror_path (cs_root st) p))"
  shows "\<exists>fd' st' w'. write_turn p a ce buf len off dn fd st w = (Inr fd', st', w') \<and>
    cs_store st' = cs_store st \<and> cs_root st' = cs_root st \<and> cs_pool st' = cs_pool st \<and>
    (fd' = None \<or> fd' = Some (resolve (w_fs w') (mirror_path (cs_root st) p))) \<and>
    world_sim ev content rem (cs_store st) (cs_root st)
      (vs(p \<mapsto> wrote f (unat off) buf (unat dn + unat (want_of len off dn)))) w'"
proof -
  let ?b = "(unat off + unat dn) div 65536" and ?want = "unat (want_of len off dn)"
  let ?d = "slice (unat dn) ?want buf" and ?g = "wrote f (unat off) buf (unat dn)" and ?rt = "cs_root st"
  have pg: "(vs(p \<mapsto> ?g)) p = Some ?g" by simp
  have lim: "unat off + unat len < 9223372036854775808"
    using wr(1,2) world_simD(6) [OF W pg] by (simp add: writable_def)
  note pos = turn_pos [OF lim dn]
  have inb: "unat (in_of off dn) = (unat off + unat dn) mod 65536"
    using pos(3) div_mult_mod_eq [of "unat off + unat dn" 65536] by linarith
  have lenF: "unat off + unat len \<le> length (rem p)" using wr(1,2) by (simp add: writable_def)
  have bF: "?b * 65536 < length (rem p)" using pos(6) lenF by linarith
  have "unat off div 65536 \<le> vf_known f" using div_le_mono [of "unat off" "vf_known f * 65536" 65536] wr(1)
    by (simp add: writable_def)
  then have known: "?b \<le> vf_known ?g" using seen_block by (simp add: wrote_def)
  have dl: "length ?d = ?want" using pos(5) wr(3) by (simp add: length_slice)
  have fit: "unat (in_of off dn) + length ?d \<le> 65536" using pos(4) dl by simp
  have inF: "?b * 65536 + unat (in_of off dn) + length ?d \<le> length (rem p)" using pos(3,5) dl lenF by simp
  have dn': "unat dn < unat len" using dn by (simp add: word_less_nat_alt)
  have want: "?want = min (65536 - (unat off + unat dn) mod 65536) (unat len - unat dn)"
    using unat_want_of [of len off dn] unat_pos [OF lim, of dn] dn by (simp add: unat_sub)
  have cover: "?b < vf_known ?g \<or> unat (in_of off dn) = 0 \<and> (length ?d = 65536 \<or> ?b * 65536 + length ?d = length (rem p))"
    using turn_covered [OF _ _ dn' want, of f "rem p"] wr(1,2) unfolding inb dl by (simp add: writable_def wrote_def)
  obtain fs1 where wb: "write_block (cs_store st) (hash_hex (ev_hash ev) p) ?d (in_of off dn) (blk_off_of off dn) (w_fs w) =
      (Inr (), fs1)" "same_env (w_fs w) fs1"
    and W1: "world_sim ev content rem (cs_store st) ?rt
      (vs(p \<mapsto> ?g, p \<mapsto> \<lparr>vf_bytes = splice (vf_bytes ?g) (?b * 65536 + unat (in_of off dn)) ?d,
        vf_known = max (vf_known ?g) (?b + 1)\<rparr>)) (w\<lparr>w_fs := fs1\<rparr>)"
    using write_block_sim [OF W pg pos(2) bF known fit inF cover] by blast
  have "0 < ?want" using dn by (intro want_pos) auto
  then have "wrote f (unat off) buf (unat dn + ?want) =
      \<lparr>vf_bytes = splice (vf_bytes ?g) (?b * 65536 + unat (in_of off dn)) ?d, vf_known = max (vf_known ?g) (?b + 1)\<rparr>"
    unfolding pos(3) using pos(4,5) inb wr lenF by (intro wrote_step) simp_all
  then have W2: "world_sim ev content rem (cs_store st) ?rt (vs(p \<mapsto> wrote f (unat off) buf (unat dn + ?want))) (w\<lparr>w_fs := fs1\<rparr>)"
    using W1 by simp
  have p2: "(vs(p \<mapsto> wrote f (unat off) buf (unat dn + ?want))) p = Some (wrote f (unat off) buf (unat dn + ?want))" by simp
  have "?b < 9223372036854775808" using pos(3) lim dn' by simp
  then have "blk_of off dn \<noteq> SIZE_MAX" using pos(1) by (auto simp: SIZE_MAX_unat)
  then obtain m where m: "markDirtyBlock (hash_hex (ev_hash ev) p) (blk_off_of off dn div kMaxPartSize) (blk_of off dn) (cs_meta st) = Inr m"
    using markDirtyBlock_bits by blast
  let ?st = "touch_block a (blk_of off dn) (Fin 1) (st\<lparr>cs_meta := m\<rparr>)"
  have st: "cs_store ?st = cs_store st" "cs_root ?st = ?rt" "cs_pool ?st = cs_pool st" by (simp_all add: touch_block_def)
  have env1: "resolve fs1 x = resolve (w_fs w) x" for x by (rule same_env_resolve [OF wb(2)])
  obtain fd' fs2 where ms: "ensure_dst ?st p fd fs1 = (Inr fd', fs2)"
      "fd' = None \<or> fd' = Some (resolve fs1 (mirror_path ?rt p))"
      "only_at (resolve fs1 (mirror_path ?rt p)) fs1 (mirror_write fd' ?d (off + dn) fs2)"
    using mirror_step [of ?st fs1 p fd ?d "off + dn"] world_simD(1) [OF W2] world_simD(5) [OF W2 p2] fd st(1,2)
    by (auto simp: env1)
  have "world_sim ev content rem (cs_store st) ?rt (vs(p \<mapsto> wrote f (unat off) buf (unat dn + ?want)))
      (w\<lparr>w_fs := mirror_write fd' ?d (off + dn) fs2\<rparr>)"
    using world_sim_mirror [OF W2 p2, of "mirror_write fd' ?d (off + dn) fs2"] ms(3) by (simp del: fun_upd_apply)
  moreover have "resolve (mirror_write fd' ?d (off + dn) fs2) x = resolve fs1 x" for x
    using ms(3) by (intro same_env_resolve) (simp add: only_at_def)
  moreover have "write_turn p a ce buf len off dn fd st w = (Inr fd', ?st, w\<lparr>w_fs := mirror_write fd' ?d (off + dn) fs2\<rparr>)"
    using wb(1) m ms(1) by (simp add: write_turn_def Let_def ce)
  ultimately show ?thesis using ms(2) st by auto
qed

lemma write_loop_sim:
  fixes st :: "'db cstate" and ev :: "('db, 'w) env"
  assumes wr: "writable f (unat off) (unat len)" "length (vf_bytes f) = length (rem p)" "unat len \<le> length buf"
    and ce: "ce_hash_hex ce = hash_hex (ev_hash ev) p"
  shows "dn \<le> len \<Longrightarrow> world_sim ev content rem (cs_store st) (cs_root st) (vs(p \<mapsto> wrote f (unat off) buf (unat dn))) w \<Longrightarrow>
    fd = None \<or> fd = Some (resolve (w_fs w) (mirror_path (cs_root st) p)) \<Longrightarrow>
    \<exists>st' w'. write_loop p a ce buf len off dn fd st w = (Inr (int (unat len)), st', w') \<and> cs_pool st' = cs_pool st \<and>
      world_sim ev content rem (cs_store st) (cs_root st) (vs(p \<mapsto> wrote f (unat off) buf (unat len))) w'"
proof (induction "unat len - unat dn" arbitrary: dn fd st w rule: less_induct)
  case less
  show ?case
  proof (cases "dn < len")
    case False
    then have dn: "dn = len" using less.prems(1) by simp
    have pf: "(vs(p \<mapsto> wrote f (unat off) buf (unat dn))) p = Some (wrote f (unat off) buf (unat dn))" by simp
    have "sint len = int (unat len)"
      using wr(1,2) world_simD(6) [OF less.prems(2) pf] by (intro sint_small) (simp add: writable_def)
    with dn less.prems(2) show ?thesis by (subst write_loop.simps) (simp del: fun_upd_apply)
  next
    case True
    note want = unat_want [OF True, of off] want_less_unsigned [OF True, of off]
    obtain fd1 st1 w1 where t: "write_turn p a ce buf len off dn fd st w = (Inr fd1, st1, w1)"
      "cs_store st1 = cs_store st" "cs_root st1 = cs_root st" "cs_pool st1 = cs_pool st"
      "fd1 = None \<or> fd1 = Some (resolve (w_fs w1) (mirror_path (cs_root st1) p))"
      "world_sim ev content rem (cs_store st1) (cs_root st1) (vs(p \<mapsto> wrote f (unat off) buf (unat (dn + want_of len off dn)))) w1"
      using write_turn_sim [OF less.prems(2) wr True ce less.prems(3), of a] want(1) by auto
    have "dn + want_of len off dn \<le> len" using want(1,2) by (simp add: word_le_nat_alt)
    from less.hyps [OF want(3) this t(6,5)] t(1-4) True show ?thesis
      by (subst write_loop.simps) (simp del: fun_upd_apply)
  qed
qed

lemma cm_write_sim:
  fixes st :: "'db cstate" and ev :: "('db, 'w) env"
  assumes W: "world_sim ev content rem (cs_store st) (cs_root st) vs w" and p: "vs p = Some f" and e: "entry_ok ev p st"
    and wr: "writable f (unat off) (unat len)" "unat len \<le> length buf"
  shows "\<exists>st' w'. cm_write ev p buf len off st w = (Inr (int (unat len)), st', w') \<and> cs_pool st' = cs_pool st \<and>
    world_sim ev content rem (cs_store st) (cs_root st) (vs(p \<mapsto> wrote f (unat off) buf (unat len))) w' \<and> entry_ok ev p st'"
proof -
  obtain a ce st1 where en: "entry ev p st = ((a, ce), st1)" "\<not> ce_evicted ce" "ce_hash_hex ce = hash_hex (ev_hash ev) p"
    "cs_store st1 = cs_store st" "cs_root st1 = cs_root st" "map_of (cs_entries st1) p = Some (a, ce)"
    "cs_meta st1 = cs_meta st"
    by (rule entry_cases [OF e])
  have "wrote f (unat off) buf (unat 0) = f" by (simp add: wrote_def seen_def)
  then have "world_sim ev content rem (cs_store st1) (cs_root st1) (vs(p \<mapsto> wrote f (unat off) buf (unat 0))) w"
    using W p by (simp add: en(4,5) fun_upd_idem)
  from write_loop_sim [OF wr(1) holdsD(1) [OF world_simD(7) [OF W p]] wr(2) en(3) _ this, of None a]
  obtain st' w' where l: "write_loop p a ce buf len off 0 None st1 w = (Inr (int (unat len)), st', w')"
      "cs_pool st' = cs_pool st1"
      "world_sim ev content rem (cs_store st) (cs_root st) (vs(p \<mapsto> wrote f (unat off) buf (unat len))) w'"
    by (auto simp: en(4,5) simp del: fun_upd_apply)
  have "entry_ok ev p st'" using write_loop_entries [OF l(1)] en(2,3,6) by (simp add: entry_ok_def)
  then show ?thesis using l en(1,2) entry_pool [OF en(1)] by (simp add: cm_write_def del: fun_upd_apply)
qed

lemma cm_write_other:
  assumes "cm_write ev path buf len off st w = (r, st', w')" and "q \<noteq> path"
  shows "map_of (cs_entries st') q = map_of (cs_entries st) q"
proof -
  obtain a ce st1 where e: "entry ev path st = ((a, ce), st1)" by (metis prod.collapse)
  with assms(1) have "cs_entries st' = cs_entries st1"
    by (auto simp: cm_write_def split: if_splits dest: write_loop_entries)
  with entry_other [OF e assms(2)] show ?thesis by simp
qed

section \<open>Flushing and prefetching\<close>

lemma flush_all_sim:
  fixes st :: "'db cstate" and ev :: "('db, 'w) env"
  assumes W: "world_sim ev content rem (cs_store st) rt vs w" and wf: "cache_wf ev rt st"
  shows "\<exists>w'. flush_all st w = (Inr (), w') \<and> world_sim ev content rem (cs_store st) rt vs w'"
proof -
  note D = world_simD [OF W]
  have m: "ms_cache_root (cs_meta st) = bs_root (cs_store st)" "bitmaps_wf (ms_bitmap (cs_meta st))"
    and names: "\<forall>(p, a, ce) \<in> set (cs_entries st). hash_ok (ce_hash_hex ce)"
    using wf by (auto simp: cache_wf_def BlockStore_def ce_wf_def)
  obtain fs' where fl: "flush_entries (cs_meta st) (cs_entries st) (w_fs w) = (Inr (), fs')" "same_env (w_fs w) fs'"
      "store_ok (cs_store st) fs'" "store_abs (cs_store st) fs' = store_abs (cs_store st) (w_fs w)"
      "dmaps_ok (cs_store st) fs'" "\<And>k. lookup (w_fs w) k = Some Dir \<Longrightarrow> lookup fs' k = Some Dir"
    using flush_entries_ok [OF m D(1,2) names] by blast
  have "mirror_ok (cs_store st) rt p fs'" if "vs p = Some f" for p f
    using mirror_ok_keep [OF D(5) [OF that] fl(2)] mirror_okD(2) [OF D(5) [OF that]] fl(6) by blast
  then have "world_sim ev content rem (cs_store st) rt vs (w\<lparr>w_fs := fs'\<rparr>)"
    using W fl(3-5) by (auto simp: world_sim_def files_apart_env [OF fl(2)])
  then show ?thesis using fl(1) by (simp add: flush_all_def)
qed

lemma world_sim_net:
  assumes W: "world_sim ev content rem store rt vs w" and net: "content net = content (w_net w)"
  shows "world_sim ev content rem store rt vs (w\<lparr>w_net := net\<rparr>)"
  using W by (simp add: world_sim_def serves_cong [where content = content, OF net])

lemma world_sim_known:
  assumes W: "world_sim ev content rem store rt (vs(p \<mapsto> f\<lparr>vf_known := k\<rparr>)) w" and p: "vs p = Some f" and k: "vf_known f \<le> k"
  shows "world_sim ev content rem store rt vs w"
proof -
  have q: "(vs(p \<mapsto> f\<lparr>vf_known := k\<rparr>)) p = Some (f\<lparr>vf_known := k\<rparr>)" by simp
  note D = world_simD [OF W]
  have new: "holds (rem p) f (store_abs store (w_fs w) (hash_hex (ev_hash ev) p))"
    using holds_known [OF D(7) [OF q], of "vf_known f"] k by simp
  have "world_sim ev content rem store rt (vs(p \<mapsto> f\<lparr>vf_known := k\<rparr>, p \<mapsto> f)) w"
  proof (rule world_sim_change [OF W q refl D(1) only_shards_refl _ new refl])
    show "mirror_ok store rt r (w_fs w)" if "r \<in> dom (vs(p \<mapsto> f\<lparr>vf_known := k\<rparr>))" for r using D(5) that by blast
  qed
  then show ?thesis using p by (simp add: fun_upd_idem)
qed

text \<open>A turn of a prefetch job only adds to what is known.\<close>

lemma prefetch_turn_sim:
  fixes st :: "'db cstate" and ev :: "('db, 'w) env"
  assumes W: "world_sim ev content rem (cs_store st) rt vs w" and p: "vs p = Some f"
    and ce: "ce_path ce = p" "ce_hash_hex ce = hash_hex (ev_hash ev) p"
    and blk: "unat blk = b" "b * 65536 + 65536 < 9223372036854775808"
    and reach: "b \<le> vf_known f \<or> length (rem p) \<le> b * 65536" and stack: "length (ev_stack ev blk) = 65536"
  shows "\<exists>st' w' k. prefetch_turn ev ce first blk st w = (True, st', w') \<and> cs_pool st' = cs_pool st \<and>
    cs_store st' = cs_store st \<and> vf_known f \<le> k \<and> (b + 1 \<le> k \<or> length (rem p) \<le> b * 65536) \<and>
    world_sim ev content rem (cs_store st) rt (vs(p \<mapsto> f\<lparr>vf_known := k\<rparr>)) w'"
proof -
  let ?h = "ce_hash_hex ce" and ?F = "rem p" and ?f = "f\<lparr>vf_known := max (vf_known f) (b + 1)\<rparr>"
  let ?c = "store_abs (cs_store st) (w_fs w) ?h"
  note D = world_simD [OF W] and H = world_simD(7) [OF W p, folded ce(2)]
  have h: "hash_ok ?h" and boff: "unat (blk * kBlockSize) = b * 65536"
    using blk by (simp_all add: ce(2) unat_word_ariths)
  have srv: "serves ev content (ce_path ce) ?F (w_net w)" using D(4) [OF p] by (simp add: ce(1))
  have idem: "vs(p \<mapsto> f\<lparr>vf_known := vf_known f\<rparr>) = vs" using p by (simp add: fun_upd_idem)
  consider (hit) "length (block_at ?c b) = 65536" | (past) "length (block_at ?c b) \<noteq> 65536" "length ?F \<le> b * 65536"
    | (fetch) "length (block_at ?c b) \<noteq> 65536" "b * 65536 < length ?F" by linarith
  then show ?thesis
  proof cases
    case hit
    note same = prefetch_turn_hit [OF D(1) h boff hit, of ev first]
    show ?thesis
    proof (cases "b * 65536 < length ?F")
      case True
      have "world_sim ev content rem (cs_store st) rt (vs(p \<mapsto> ?f)) w"
        using hit reach True holds_hit [OF H True] D(1,5) only_shards_refl
        by (intro world_sim_change [OF W p]) (auto simp: ce(2))
      then show ?thesis using same by (intro exI [of _ st] exI [of _ w] exI [of _ "max (vf_known f) (b + 1)"]) simp
    next
      case False
      then show ?thesis using same W idem by (intro exI [of _ st] exI [of _ w] exI [of _ "vf_known f"]) simp
    qed
  next
    case past
    obtain net where t: "prefetch_turn ev ce first blk st w = (True, st, w\<lparr>w_net := net\<rparr>)" "content net = content (w_net w)"
      using prefetch_turn_past [OF srv D(1) h boff past(1) stack past(2) blk(2), of first] by blast
    then show ?thesis using world_sim_net [OF W t(2)] idem past(2)
      by (intro exI [of _ st] exI [of _ "w\<lparr>w_net := net\<rparr>"] exI [of _ "vf_known f"]) simp
  next
    case fetch
    let ?d = "slice (b * 65536) 65536 ?F"
    have short: "length (block_at ?c b) < 65536" using fetch(1) length_block_at [of ?c b] by simp
    have bk: "b \<le> vf_known f" using reach fetch(2) by simp
    obtain net r fs' where t: "prefetch_turn ev ce first blk st w =
        (True, touch_block (ev_capture ev (ce, first)) blk (Fin (1 / 4)) st, w\<lparr>w_net := net, w_fs := fs'\<rparr>)"
        "content net = content (w_net w)"
      and wr: "bs_write (cs_store st) ?h ?d (blk * kBlockSize) False (w_fs w) = (r, fs')"
      using prefetch_turn_fetch [OF srv D(1) h boff fetch(1) stack fetch(2) blk(2), of first] by blast
    have "length ?d \<le> 65536" by (simp add: length_slice)
    note at = block_at_write [OF D(1) h wr boff holds_no_hole [OF H bk fetch(2)] this]
    have "holds ?F ?f (store_abs (cs_store st) fs' ?h)" by (rule holds_fetched [OF H fetch(2) bk short refl at])
    then have "world_sim ev content rem (cs_store st) rt (vs(p \<mapsto> ?f)) (w\<lparr>w_net := net, w_fs := fs'\<rparr>)"
      using bs_write_sim [OF W p wr [unfolded ce(2)] t(2)] by (simp add: ce(2) del: fun_upd_apply)
    then show ?thesis using t(1)
      by (intro exI [of _ "touch_block (ev_capture ev (ce, first)) blk (Fin (1 / 4)) st"]
          exI [of _ "w\<lparr>w_net := net, w_fs := fs'\<rparr>"] exI [of _ "max (vf_known f) (b + 1)"])
        (simp add: touch_block_def del: fun_upd_apply)
  qed
qed

lemma prefetch_turns_sim:
  fixes st :: "'db cstate" and ev :: "('db, 'w) env"
  assumes p: "vs p = Some f" and ce: "ce_path ce = p" "ce_hash_hex ce = hash_hex (ev_hash ev) p"
    and first: "unat first = b" "(b + n) * 65536 < 9223372036854775808" and stack: "\<And>b. length (ev_stack ev b) = 65536"
  shows "world_sim ev content rem (cs_store st) rt (vs(p \<mapsto> f\<lparr>vf_known := k0\<rparr>)) w \<Longrightarrow>
    b + i \<le> k0 \<or> length (rem p) \<le> (b + i) * 65536 \<Longrightarrow>
    \<exists>st' w' k. prefetch_turns ev ce first [i..<n] st w = (st', w') \<and> cs_pool st' = cs_pool st \<and> k0 \<le> k \<and>
      world_sim ev content rem (cs_store st) rt (vs(p \<mapsto> f\<lparr>vf_known := k\<rparr>)) w'"
proof (induction "n - i" arbitrary: i k0 st w)
  case 0
  then show ?case by (auto simp del: fun_upd_apply)
next
  case (Suc m)
  have i: "i < n" using Suc.hyps(2) by simp
  have blk: "unat (first + of_nat i) = b + i"
  proof -
    have "b + i < 2 ^ 64" using first(2) i by simp
    then show ?thesis using first(1) by (simp add: unat_word_ariths unat_of_nat)
  qed
  have lim: "(b + i) * 65536 + 65536 < 9223372036854775808" using first(2) i by simp
  let ?f = "f\<lparr>vf_known := k0\<rparr>"
  have pf: "(vs(p \<mapsto> ?f)) p = Some ?f" by simp
  have reach: "b + i \<le> vf_known ?f \<or> length (rem p) \<le> (b + i) * 65536" using Suc.prems(2) by simp
  obtain st1 w1 k1 where t: "prefetch_turn ev ce first (first + of_nat i) st w = (True, st1, w1)" "cs_pool st1 = cs_pool st"
      "cs_store st1 = cs_store st" "k0 \<le> k1" "b + i + 1 \<le> k1 \<or> length (rem p) \<le> (b + i) * 65536"
      "world_sim ev content rem (cs_store st1) rt (vs(p \<mapsto> f\<lparr>vf_known := k1\<rparr>)) w1"
    using prefetch_turn_sim [OF Suc.prems(1) pf ce blk lim reach stack, of first] by (auto simp del: fun_upd_apply)
  have "b + Suc i \<le> k1 \<or> length (rem p) \<le> (b + Suc i) * 65536" using t(5) by auto
  moreover have "m = n - Suc i" using Suc.hyps(2) by simp
  ultimately obtain st' w' k where "prefetch_turns ev ce first [Suc i..<n] st1 w1 = (st', w')" "cs_pool st' = cs_pool st1"
      "k1 \<le> k" "world_sim ev content rem (cs_store st1) rt (vs(p \<mapsto> f\<lparr>vf_known := k\<rparr>)) w'"
    using Suc.hyps(1) [OF _ t(6)] by blast
  then show ?case using t i
    by (intro exI [of _ st'] exI [of _ w'] exI [of _ k]) (simp add: upt_conv_Cons del: fun_upd_apply)
qed

lemma prefetch_job_sim:
  fixes st :: "'db cstate" and ev :: "('db, 'w) env"
  assumes W: "world_sim ev content rem (cs_store st) rt vs w" and p: "vs (ce_path ce) = Some f"
    and ce: "ce_hash_hex ce = hash_hex (ev_hash ev) (ce_path ce)" and first: "unat first \<le> vf_known f"
    and stack: "\<And>b. length (ev_stack ev b) = 65536"
  shows "\<exists>st' w'. prefetch_job ev (ce, first) st w = (st', w') \<and> cs_pool st' = cs_pool st \<and>
    world_sim ev content rem (cs_store st) rt vs w'"
proof -
  have "vf_known f * 65536 < length (rem (ce_path ce)) + 65536" by (rule holdsD(2) [OF world_simD(7) [OF W p]])
  then have lim: "(unat first + PREFETCH_WINDOW) * 65536 < 9223372036854775808"
    using first world_simD(6) [OF W p] by (simp add: PREFETCH_WINDOW_def)
  have "world_sim ev content rem (cs_store st) rt (vs(ce_path ce \<mapsto> f\<lparr>vf_known := vf_known f\<rparr>)) w"
    using W p by (simp add: fun_upd_idem)
  from prefetch_turns_sim [OF p refl ce refl lim stack this, of 0] first
  obtain st' w' k where j: "prefetch_turns ev ce first [0..<PREFETCH_WINDOW] st w = (st', w')" "cs_pool st' = cs_pool st"
      "vf_known f \<le> k" "world_sim ev content rem (cs_store st) rt (vs(ce_path ce \<mapsto> f\<lparr>vf_known := k\<rparr>)) w'"
    by (auto simp del: fun_upd_apply)
  show ?thesis using j(1,2) world_sim_known [OF j(4) p j(3)] by (simp add: prefetch_job_def)
qed

end
