(* ===== verification/Cache_Refinement.thy ===== *)
theory Cache_Refinement
  imports Cache_Files
begin

text \<open>
  The cache against its specification: a set of files, each a list of bytes.  Reads return the bytes
  of the file and writes overwrite them; which blocks are in the store, which come from the server and
  what a flush or a worker of the pool does cannot be told from the answers.  The specification refuses
  the calls for which this does not hold: those outside a file, those that jump over blocks the cache
  has not seen, and writes of parts of such blocks.
\<close>

section \<open>The specification\<close>

text \<open>A call: a read into a buffer, a write from one, a flush, a turn of a worker of the pool, or the
  wake-up of a blocked one.\<close>

datatype cache_op =
    CRead string bytes u64 u64
  | CWrite string bytes u64 u64
  | CFlush
  | CWork nat
  | CWake nat

datatype answer = ABytes int bytes | ACount int | ADone

definition readable :: "vfile \<Rightarrow> nat \<Rightarrow> nat \<Rightarrow> bool" where
  "readable f off len \<longleftrightarrow> off div 65536 \<le> vf_known f \<and> off + len \<le> length (vf_bytes f)"

fun file_step :: "cache_op \<Rightarrow> vstore \<Rightarrow> (answer \<times> vstore) option" where
  "file_step (CRead p buf len off) vs =
     (case vs p of
        None \<Rightarrow> None
      | Some f \<Rightarrow>
          if readable f (unat off) (unat len) \<and> unat len \<le> length buf
          then Some (ABytes (int (unat len)) (splice buf 0 (slice (unat off) (unat len) (vf_bytes f))),
                     vs(p \<mapsto> f\<lparr>vf_known := seen f (unat off) (unat len)\<rparr>))
          else None)"
| "file_step (CWrite p buf len off) vs =
     (case vs p of
        None \<Rightarrow> None
      | Some f \<Rightarrow>
          if writable f (unat off) (unat len) \<and> unat len \<le> length buf
          then Some (ACount (int (unat len)), vs(p \<mapsto> wrote f (unat off) buf (unat len)))
          else None)"
| "file_step CFlush vs = Some (ADone, vs)"
| "file_step (CWork i) vs = Some (ADone, vs)"
| "file_step (CWake i) vs = Some (ADone, vs)"

section \<open>The calls of the cache\<close>

text \<open>Worker \<open>i\<close> comes back to the head of its loop: it may take the oldest job, and then runs it.\<close>

definition worker_turn :: "('db, 'w) env \<Rightarrow> nat \<Rightarrow> 'db cstate \<Rightarrow> 'w world \<Rightarrow> 'db cstate \<times> 'w world" where
  "worker_turn ev i st w =
     (if i < length (wp_workers (cs_pool st)) then
        (let st1 = st\<lparr>cs_pool := worker_loop i (cs_pool st)\<rparr> in
         case wp_workers (cs_pool st1) ! i of
           Running j \<Rightarrow>
             (case prefetch_job ev j st1 w of
                (st2, w2) \<Rightarrow> (st2\<lparr>cs_pool := worker_loop i (cs_pool st2)\<rparr>, w2))
         | _ \<Rightarrow> (st1, w))
      else (st, w))"

text \<open>A notification of \<open>enqueue\<close> that is still pending reaches worker \<open>i\<close>, if it is blocked.\<close>

definition wake_turn :: "nat \<Rightarrow> 'db cstate \<Rightarrow> 'db cstate" where
  "wake_turn i st =
     (let s = cs_pool st in
      if 0 < wp_pending s \<and> i < length (wp_workers s) \<and> wp_workers s ! i = Blocked
      then st\<lparr>cs_pool := set_worker i Checking (s\<lparr>wp_pending := wp_pending s - 1\<rparr>)\<rparr>
      else st)"

fun cache_call ::
    "('db, 'w) env \<Rightarrow> cache_op \<Rightarrow> 'db cstate \<times> 'w world \<Rightarrow> (exn + answer) \<times> 'db cstate \<times> 'w world" where
  "cache_call ev (CRead p buf len off) (st, w) =
     (case cm_read ev p buf len off st w of (r, buf', x) \<Rightarrow> (map_sum id (\<lambda>n. ABytes n buf') r, x))"
| "cache_call ev (CWrite p buf len off) (st, w) =
     (case cm_write ev p buf len off st w of (r, x) \<Rightarrow> (map_sum id ACount r, x))"
| "cache_call ev CFlush (st, w) = (case flush_all st w of (r, w') \<Rightarrow> (map_sum id (\<lambda>_. ADone) r, st, w'))"
| "cache_call ev (CWork i) (st, w) = (Inr ADone, worker_turn ev i st w)"
| "cache_call ev (CWake i) (st, w) = (Inr ADone, wake_turn i st, w)"

section \<open>The simulation\<close>

definition job_known :: "('db, 'w) env \<Rightarrow> vstore \<Rightarrow> job \<Rightarrow> bool" where
  "job_known ev vs j \<longleftrightarrow> (\<exists>f. vs (ce_path (fst j)) = Some f \<and>
     ce_hash_hex (fst j) = hash_hex (ev_hash ev) (ce_path (fst j)) \<and> unat (snd j) \<le> vf_known f)"

definition cache_sim ::
    "('db, 'w) env \<Rightarrow> ('w \<Rightarrow> string \<Rightarrow> bytes option) \<Rightarrow> (string \<Rightarrow> bytes) \<Rightarrow> string \<Rightarrow> vstore
      \<Rightarrow> 'db cstate \<times> 'w world \<Rightarrow> bool" where
  "cache_sim ev content rem rt vs x \<longleftrightarrow>
     cache_wf ev rt (fst x) \<and> (\<forall>p \<in> dom vs. entry_ok ev p (fst x)) \<and>
     (\<forall>j \<in> set (wp_tasks (cs_pool (fst x))). job_known ev vs j) \<and> (\<forall>b. length (ev_stack ev b) = 65536) \<and>
     world_sim ev content rem (BlockStore rt kBlockSize) rt vs (snd x)"

lemma cache_wf_roots: "cache_wf ev rt st \<Longrightarrow> cs_store st = BlockStore rt kBlockSize \<and> cs_root st = rt"
  by (simp add: cache_wf_def)

lemma entry_ok_cong: "map_of (cs_entries st') q = map_of (cs_entries st) q \<Longrightarrow> entry_ok ev q st' = entry_ok ev q st"
  by (simp add: entry_ok_def)

lemma job_known_mono: "job_known ev vs j \<Longrightarrow> vs p = Some f \<Longrightarrow> vf_known f \<le> vf_known f' \<Longrightarrow> job_known ev (vs(p \<mapsto> f')) j"
  by (auto simp: job_known_def)

lemma read_sim:
  fixes st :: "'db cstate" and ev :: "('db, 'w) env"
  assumes sim: "cache_sim ev content rem rt vs (st, w)" and p: "vs p = Some f"
    and guard: "readable f (unat off) (unat len)" "unat len \<le> length buf"
  shows "\<exists>x. cache_call ev (CRead p buf len off) (st, w) =
      (Inr (ABytes (int (unat len)) (splice buf 0 (slice (unat off) (unat len) (vf_bytes f)))), x) \<and>
    cache_sim ev content rem rt (vs(p \<mapsto> f\<lparr>vf_known := seen f (unat off) (unat len)\<rparr>)) x"
proof -
  let ?f = "f\<lparr>vf_known := seen f (unat off) (unat len)\<rparr>"
  have wf: "cache_wf ev rt st" and es: "\<And>q. q \<in> dom vs \<Longrightarrow> entry_ok ev q st"
    and jobs: "\<forall>j \<in> set (wp_tasks (cs_pool st)). job_known ev vs j" and stack: "\<And>b. length (ev_stack ev b) = 65536"
    and W: "world_sim ev content rem (cs_store st) rt vs w"
    using sim cache_wf_roots [of ev rt st] by (auto simp: cache_sim_def)
  have G: "unat off div 65536 \<le> vf_known f" "unat off + unat len \<le> length (vf_bytes f)"
    using guard(1) by (simp_all add: readable_def)
  obtain st' w' where rd: "cm_read ev p buf len off st w =
      (Inr (int (unat len)), splice buf 0 (slice (unat off) (unat len) (vf_bytes f)), st', w')"
    "world_sim ev content rem (cs_store st) rt (vs(p \<mapsto> ?f)) w'" "entry_ok ev p st'"
    using cm_read_sim [OF W p _ G guard(2) stack] es p by blast
  have wf': "cache_wf ev rt st'" by (rule cm_read_wf [OF rd(1) wf])
  have es': "entry_ok ev q st'" if "q \<in> dom (vs(p \<mapsto> ?f))" for q
    using that es rd(3) p entry_ok_cong [OF cm_read_other [OF rd(1)], of q ev] by (cases "q = p") auto
  have lim: "unat off + unat len < 9223372036854775808"
    using G(2) world_simD(6) [OF W p] holdsD(1) [OF world_simD(7) [OF W p]] by simp
  have jobs': "job_known ev (vs(p \<mapsto> ?f)) j" if j: "j \<in> set (wp_tasks (cs_pool st'))" for j
    using cm_read_jobs [OF lim wf rd(1) j]
  proof
    assume "j \<in> set (wp_tasks (cs_pool st))"
    then show ?thesis using jobs p by (intro job_known_mono [of ev vs j p f]) (auto simp: seen_def)
  next
    assume "0 < unat len \<and> job_within ev p ((unat off + unat len + 65535) div 65536) j"
    then show ?thesis by (auto simp: job_known_def job_within_def seen_def)
  qed
  show ?thesis using rd(1,2) wf' es' jobs' stack cache_wf_roots [OF wf] by (auto simp: cache_sim_def simp del: fun_upd_apply)
qed

lemma write_sim:
  fixes st :: "'db cstate" and ev :: "('db, 'w) env"
  assumes sim: "cache_sim ev content rem rt vs (st, w)" and p: "vs p = Some f"
    and guard: "writable f (unat off) (unat len)" "unat len \<le> length buf"
  shows "\<exists>x. cache_call ev (CWrite p buf len off) (st, w) = (Inr (ACount (int (unat len))), x) \<and>
    cache_sim ev content rem rt (vs(p \<mapsto> wrote f (unat off) buf (unat len))) x"
proof -
  let ?f = "wrote f (unat off) buf (unat len)"
  have wf: "cache_wf ev rt st" and es: "\<And>q. q \<in> dom vs \<Longrightarrow> entry_ok ev q st"
    and jobs: "\<forall>j \<in> set (wp_tasks (cs_pool st)). job_known ev vs j" and stack: "\<And>b. length (ev_stack ev b) = 65536"
    and W: "world_sim ev content rem (cs_store st) (cs_root st) vs w"
    using sim cache_wf_roots [of ev rt st] by (auto simp: cache_sim_def)
  obtain st' w' where wr: "cm_write ev p buf len off st w = (Inr (int (unat len)), st', w')" "cs_pool st' = cs_pool st"
    "world_sim ev content rem (cs_store st) (cs_root st) (vs(p \<mapsto> ?f)) w'" "entry_ok ev p st'"
    using cm_write_sim [OF W p _ guard] es p by blast
  have wf': "cache_wf ev rt st'" by (rule cm_write_wf [OF wr(1) wf])
  have es': "entry_ok ev q st'" if "q \<in> dom (vs(p \<mapsto> ?f))" for q
    using that es wr(4) p entry_ok_cong [OF cm_write_other [OF wr(1)], of q ev] by (cases "q = p") auto
  have "job_known ev (vs(p \<mapsto> ?f)) j" if "j \<in> set (wp_tasks (cs_pool st'))" for j
    using that jobs p wr(2) by (intro job_known_mono [of ev vs j p f]) (auto simp: wrote_def seen_def)
  then show ?thesis
    using wr(1,3) wf' es' stack cache_wf_roots [OF wf] by (auto simp: cache_sim_def simp del: fun_upd_apply)
qed

text \<open>A turn of a worker takes a job from the head of the queue, or none.\<close>

lemma worker_loop_tasks:
  assumes "i < length (wp_workers pool)"
  shows "set (wp_tasks (worker_loop i pool)) \<subseteq> set (wp_tasks pool)"
    and "wp_workers (worker_loop i pool) ! i = Running j \<Longrightarrow> j \<in> set (wp_tasks pool)"
  using assms
  by (auto simp: worker_loop_def set_worker_def split: wstate.splits if_splits dest: list.set_sel(2))

lemma cache_wf_pool:
  assumes "cache_wf ev rt st" and "set (wp_tasks pool) \<subseteq> set (wp_tasks (cs_pool st))"
  shows "cache_wf ev rt (st\<lparr>cs_pool := pool\<rparr>)"
  using assms by (fastforce simp: cache_wf_def)

lemma cache_sim_pool:
  assumes "cache_sim ev content rem rt vs (st, w)" and "set (wp_tasks pool) \<subseteq> set (wp_tasks (cs_pool st))"
  shows "cache_sim ev content rem rt vs (st\<lparr>cs_pool := pool\<rparr>, w)"
  using assms cache_wf_pool [of ev rt st pool] by (auto simp: cache_sim_def entry_ok_def)

lemma work_sim:
  fixes st :: "'db cstate" and ev :: "('db, 'w) env"
  assumes sim: "cache_sim ev content rem rt vs (st, w)"
  shows "cache_sim ev content rem rt vs (worker_turn ev i st w)"
proof (cases "i < length (wp_workers (cs_pool st))")
  case i: True
  let ?st1 = "st\<lparr>cs_pool := worker_loop i (cs_pool st)\<rparr>"
  have sim1: "cache_sim ev content rem rt vs (?st1, w)" by (rule cache_sim_pool [OF sim worker_loop_tasks(1) [OF i]])
  show ?thesis
  proof (cases "wp_workers (cs_pool ?st1) ! i")
    case (Running j)
    obtain ce first where j: "j = (ce, first)" by force
    have "j \<in> set (wp_tasks (cs_pool st))" using worker_loop_tasks(2) [OF i] Running by simp
    then obtain f where f: "vs (ce_path ce) = Some f" "ce_hash_hex ce = hash_hex (ev_hash ev) (ce_path ce)"
      "unat first \<le> vf_known f"
      using sim by (auto simp: cache_sim_def job_known_def j)
    have wf: "cache_wf ev rt ?st1" and stack: "\<And>b. length (ev_stack ev b) = 65536"
      and W: "world_sim ev content rem (cs_store ?st1) rt vs w"
      using sim1 cache_wf_roots [of ev rt ?st1] by (auto simp: cache_sim_def)
    obtain st2 w2 where job: "prefetch_job ev (ce, first) ?st1 w = (st2, w2)" "cs_pool st2 = cs_pool ?st1"
        "world_sim ev content rem (cs_store ?st1) rt vs w2"
      using prefetch_job_sim [OF W f stack] by blast
    have "cs_entries st2 = cs_entries ?st1"
      using job(1) prefetch_turns_entries [of ev ce first "[0..<PREFETCH_WINDOW]" ?st1 w st2 w2]
      by (simp add: prefetch_job_def)
    then have sim2: "cache_sim ev content rem rt vs (st2, w2)"
      using sim1 job(2,3) prefetch_job_wf [OF job(1) wf] cache_wf_roots [OF wf] by (auto simp: cache_sim_def entry_ok_def)
    have "length (wp_workers (worker_loop i (cs_pool st))) = length (wp_workers (cs_pool st))"
      by (auto simp: worker_loop_def set_worker_def split: wstate.splits)
    then have "i < length (wp_workers (cs_pool st2))" using i job(2) by simp
    from cache_sim_pool [OF sim2 worker_loop_tasks(1) [OF this]] show ?thesis
      using i Running job(1) j by (simp add: worker_turn_def Let_def)
  qed (use i sim1 in \<open>simp_all add: worker_turn_def Let_def\<close>)
qed (use sim in \<open>simp add: worker_turn_def\<close>)

lemma wake_sim:
  assumes "cache_sim ev content rem rt vs (st, w)"
  shows "cache_sim ev content rem rt vs (wake_turn i st, w)"
  using assms cache_sim_pool [OF assms] by (simp add: wake_turn_def Let_def set_worker_def)

lemma flush_sim:
  fixes st :: "'db cstate" and ev :: "('db, 'w) env"
  assumes sim: "cache_sim ev content rem rt vs (st, w)"
  shows "\<exists>x. cache_call ev CFlush (st, w) = (Inr ADone, x) \<and> cache_sim ev content rem rt vs x"
proof -
  have wf: "cache_wf ev rt st" using sim by (simp add: cache_sim_def)
  have "world_sim ev content rem (cs_store st) rt vs w" using sim cache_wf_roots [OF wf] by (simp add: cache_sim_def)
  from flush_all_sim [OF this wf] obtain w' where "flush_all st w = (Inr (), w')"
      "world_sim ev content rem (cs_store st) rt vs w'" by blast
  then show ?thesis using sim cache_wf_roots [OF wf] by (auto simp: cache_sim_def)
qed

text \<open>Every call the specification accepts.\<close>

interpretation files: forward_simulation "cache_sim ev content rem rt" file_step "cache_call ev" for ev content rem rt
proof unfold_locales
  fix vs x op r vs'
  assume sim: "cache_sim ev content rem rt vs x" and step: "file_step op vs = Some (r, vs')"
  obtain st w where x: "x = (st, w)" by force
  show "\<exists>x'. cache_call ev op x = (Inr r, x') \<and> cache_sim ev content rem rt vs' x'"
  proof (cases op)
    case (CRead p buf len off)
    then show ?thesis using read_sim [OF sim [unfolded x]] step x by (auto split: option.splits if_splits simp del: fun_upd_apply)
  next
    case (CWrite p buf len off)
    then show ?thesis using write_sim [OF sim [unfolded x]] step x by (auto split: option.splits if_splits simp del: fun_upd_apply)
  next
    case CFlush
    then show ?thesis using flush_sim [OF sim [unfolded x]] step x by auto
  next
    case (CWork i)
    then show ?thesis using work_sim [OF sim [unfolded x]] step x by auto
  next
    case (CWake i)
    then show ?thesis using wake_sim [OF sim [unfolded x]] step x by auto
  qed
qed

section \<open>From the constructor on\<close>

definition fresh_files :: "string set \<Rightarrow> (string \<Rightarrow> bytes) \<Rightarrow> vstore" where
  "fresh_files P rem = (\<lambda>p. if p \<in> P then Some \<lparr>vf_bytes = rem p, vf_known = 0\<rparr> else None)"

lemma cache_sim_start:
  fixes st :: "'db cstate" and ev :: "('db, 'w) env"
  assumes start: "CacheManager ev rt w0 = (st, w)" and "store_ok (cs_store st) (w_fs w)"
    and "dmaps_ok (cs_store st) (w_fs w)" and "files_apart ev rt P (w_fs w)" and "\<And>b. length (ev_stack ev b) = 65536"
    and "\<And>p. p \<in> P \<Longrightarrow> serves ev content p (rem p) (w_net w)" and "\<And>p. p \<in> P \<Longrightarrow> mirror_ok (cs_store st) rt p (w_fs w)"
    and "\<And>p. p \<in> P \<Longrightarrow> length (rem p) + 655360 < 9223372036854775808"
    and "\<And>p. p \<in> P \<Longrightarrow> store_abs (cs_store st) (w_fs w) (hash_hex (ev_hash ev) p) = (\<lambda>_. None)"
  shows "cache_sim ev content rem rt (fresh_files P rem) (st, w)"
proof -
  have wf: "cache_wf ev rt st" using CacheManager_wf [of ev rt w0] start by simp
  have empty: "cs_entries st = []" "wp_tasks (cs_pool st) = []"
    using start by (auto simp: CacheManager_def Let_def ThreadPool_def)
  have dom: "dom (fresh_files P rem) = P" by (auto simp: fresh_files_def split: if_splits)
  have "world_sim ev content rem (cs_store st) rt (fresh_files P rem) w"
    using assms(2-4,6-9) holds_fresh unfolding world_sim_def dom by (auto simp: fresh_files_def split: if_splits)
  then show ?thesis
    using wf empty assms(5) cache_wf_roots [OF wf] by (simp add: cache_sim_def entry_ok_def)
qed



end
