(* ===== verification/Time_Policy.thy ===== *)
theory Time_Policy
  imports Eviction_Policy
begin

text \<open>
  \<^verbatim>\<open>cache/policy/time_policy.h\<close> and \<^verbatim>\<open>cache/policy/time_policy.cc\<close>: blocks
  with the time of their last touch, evicted once they are older than the time to live.  The
  table is an association list whose order is the iteration order of the
  \<open>unordered_map\<close>; that order is unspecified, and every lemma is about an arbitrary list.
  A \<open>steady_clock\<close> time point is an integer number of nanoseconds, \<open>now\<close> is what
  \<open>Clock::now()\<close> returns in the call.
\<close>

section \<open>The class\<close>

record tpolicy =
  tp_ttlSeconds :: int
  tp_timestamps :: "(u64 \<times> int) list"

definition TimePolicy :: "int \<Rightarrow> tpolicy" where
  "TimePolicy ttlSeconds = \<lparr>tp_ttlSeconds = ttlSeconds, tp_timestamps = []\<rparr>"

definition tp_touch :: "int \<Rightarrow> u64 \<Rightarrow> tpolicy \<Rightarrow> tpolicy" where
  "tp_touch now blockId p = p\<lparr>tp_timestamps := AList.update blockId now (tp_timestamps p)\<rparr>"

definition tp_remove :: "u64 \<Rightarrow> tpolicy \<Rightarrow> tpolicy" where
  "tp_remove blockId p = p\<lparr>tp_timestamps := AList.delete blockId (tp_timestamps p)\<rparr>"

text \<open>\<open>duration_cast<seconds>\<close> truncates towards zero.\<close>

definition age_seconds :: "int \<Rightarrow> int \<Rightarrow> int" where
  "age_seconds now ts = sgn (now - ts) * (\<bar>now - ts\<bar> div 1000000000)"

fun tp_scan :: "int \<Rightarrow> int \<Rightarrow> (u64 \<times> int) list \<Rightarrow> u64" where
  "tp_scan now ttl [] = SIZE_MAX"
| "tp_scan now ttl ((blockId, ts) # rest) =
     (if ttl \<le> age_seconds now ts then blockId else tp_scan now ttl rest)"

definition tp_evict :: "int \<Rightarrow> tpolicy \<Rightarrow> u64 \<times> tpolicy" where
  "tp_evict now p =
     (let victim = tp_scan now (tp_ttlSeconds p) (tp_timestamps p)
      in (victim,
          if victim \<noteq> SIZE_MAX
          then p\<lparr>tp_timestamps := AList.delete victim (tp_timestamps p)\<rparr> else p))"

section \<open>Tracked blocks and expiry\<close>

definition tp_inv :: "tpolicy \<Rightarrow> bool" where
  "tp_inv p \<longleftrightarrow> distinct (map fst (tp_timestamps p))"

definition tp_tracked :: "tpolicy \<Rightarrow> u64 set" where
  "tp_tracked p = fst ` set (tp_timestamps p)"

definition expired :: "int \<Rightarrow> tpolicy \<Rightarrow> u64 \<Rightarrow> bool" where
  "expired now p b \<longleftrightarrow>
     (\<exists>ts. map_of (tp_timestamps p) b = Some ts \<and> tp_ttlSeconds p \<le> age_seconds now ts)"

lemma tp_scan_stale:
  assumes "tp_scan now ttl xs \<noteq> SIZE_MAX"
  shows "\<exists>ts. (tp_scan now ttl xs, ts) \<in> set xs \<and> ttl \<le> age_seconds now ts"
  using assms by (induction now ttl xs rule: tp_scan.induct) (auto split: if_splits)

lemma tp_scan_fresh:
  "(\<And>b ts. (b, ts) \<in> set xs \<Longrightarrow> \<not> ttl \<le> age_seconds now ts) \<Longrightarrow> tp_scan now ttl xs = SIZE_MAX"
  by (induction now ttl xs rule: tp_scan.induct) force+

lemma tp_scan_finds:
  "(b, ts) \<in> set xs \<Longrightarrow> ttl \<le> age_seconds now ts \<Longrightarrow> SIZE_MAX \<notin> fst ` set xs \<Longrightarrow>
   tp_scan now ttl xs \<noteq> SIZE_MAX"
  by (induction now ttl xs rule: tp_scan.induct) auto

interpretation tp: eviction_policy tp_inv tp_tracked "tp_evict now" tp_remove "tp_touch now" for now
proof unfold_locales
  fix s b
  assume inv: "tp_inv s"
  show "finite (tp_tracked s)" by (simp add: tp_tracked_def)
  show "tp_inv (snd (tp_evict now s))"
    using inv by (simp add: tp_evict_def tp_inv_def Let_def distinct_delete)
  show "tp_inv (tp_remove b s)" using inv by (simp add: tp_remove_def tp_inv_def distinct_delete)
  show "tp_inv (tp_touch now b s)" using inv by (simp add: tp_touch_def tp_inv_def distinct_update)
  have del: "fst ` set (AList.delete v xs) = fst ` set xs - {v}" for v and xs :: "(u64 \<times> int) list"
    using arg_cong [OF delete_keys [of v xs], of set] by (simp add: set_removeAll)
  then show "tp_tracked (tp_remove b s) = tp_tracked s - {b}" by (simp add: tp_remove_def tp_tracked_def)
  show "b \<in> tp_tracked (tp_touch now b s) \<and> tp_tracked (tp_touch now b s) \<subseteq> insert b (tp_tracked s)"
    by (auto simp: tp_touch_def tp_tracked_def dom_update)
  show "v \<in> tp_tracked s \<and> tp_tracked s' = tp_tracked s - {v} \<or> v = SIZE_MAX \<and> tp_tracked s' = tp_tracked s"
    if "tp_evict now s = (v, s')" for v s'
  proof (cases "v = SIZE_MAX")
    case False
    then have v: "v = tp_scan now (tp_ttlSeconds s) (tp_timestamps s)"
      "s' = s\<lparr>tp_timestamps := AList.delete v (tp_timestamps s)\<rparr>"
      using that by (auto simp: tp_evict_def Let_def)
    with tp_scan_stale False have "v \<in> tp_tracked s" by (force simp: tp_tracked_def)
    then show ?thesis using v(2) del by (simp add: tp_tracked_def)
  qed (use that in \<open>auto simp: tp_evict_def Let_def\<close>)
qed

section \<open>Properties\<close>

text \<open>C33: Time based eviction evicts only expired blocks and misses none: an id other than
  \<open>SIZE_MAX\<close> is returned exactly for a tracked block at least \<open>ttlSeconds\<close> old, that
  block and no other is forgotten, and when no block is expired nothing changes; a block whose
  id is not \<open>SIZE_MAX\<close> that has expired makes the call return some expired block.\<close>

theorem tp_evict_expired:
  assumes "tp_inv p" and "SIZE_MAX \<notin> tp_tracked p"
  shows "(if \<exists>b. expired now p b
      then fst (tp_evict now p) \<noteq> SIZE_MAX \<and> expired now p (fst (tp_evict now p)) \<and>
        tp_tracked (snd (tp_evict now p)) = tp_tracked p - {fst (tp_evict now p)}
      else tp_evict now p = (SIZE_MAX, p))"
proof (cases "\<exists>b. expired now p b")
  case True
  let ?v = "tp_scan now (tp_ttlSeconds p) (tp_timestamps p)"
  from True obtain b ts where "(b, ts) \<in> set (tp_timestamps p)" "tp_ttlSeconds p \<le> age_seconds now ts"
    by (auto simp: expired_def dest: map_of_SomeD)
  then have v: "?v \<noteq> SIZE_MAX" using tp_scan_finds assms(2) by (metis tp_tracked_def)
  then obtain ts' where ts': "(?v, ts') \<in> set (tp_timestamps p)" "tp_ttlSeconds p \<le> age_seconds now ts'"
    using tp_scan_stale by blast
  then have "expired now p ?v" using assms(1) by (auto simp: expired_def tp_inv_def)
  moreover have ev: "fst (tp_evict now p) = ?v" by (simp add: tp_evict_def Let_def)
  moreover have "tp_tracked (snd (tp_evict now p)) = tp_tracked p - {?v}"
    using tp.evict_tracked [OF assms(1) prod.collapse [symmetric], of now] ev v by auto
  ultimately show ?thesis using True v by simp
next
  case False
  then have "\<not> tp_ttlSeconds p \<le> age_seconds now ts" if "(b, ts) \<in> set (tp_timestamps p)" for b ts
    using that assms(1) by (auto simp: expired_def tp_inv_def)
  then have "tp_scan now (tp_ttlSeconds p) (tp_timestamps p) = SIZE_MAX" by (rule tp_scan_fresh)
  then show ?thesis using False by (simp add: tp_evict_def Let_def)
qed

theorem tp_evict_expired_witness:
  "fst (tp_evict 5000000000 (tp_touch 4000000000 8 (tp_touch 0 7 (TimePolicy 3)))) = 7"
proof -
  let ?p = "tp_touch 4000000000 8 (tp_touch 0 7 (TimePolicy 3))"
  have p: "tp_timestamps ?p = [(7, 0), (8, 4000000000)]" "tp_ttlSeconds ?p = 3"
    by (simp_all add: tp_touch_def TimePolicy_def)
  have "expired 5000000000 ?p 7" by (simp add: expired_def p age_seconds_def)
  moreover have "\<not> expired 5000000000 ?p b" if "b \<noteq> 7" for b
    using that by (auto simp: expired_def p age_seconds_def)
  moreover have "tp_inv ?p" "SIZE_MAX \<notin> tp_tracked ?p" by (simp_all add: tp_inv_def tp_tracked_def p)
  ultimately show ?thesis using tp_evict_expired [of ?p 5000000000] by metis
qed

text \<open>A block that was just touched is safe for its time to live: evicting less than
  \<open>ttlSeconds\<close> seconds after the touch does not return it, whatever else is tracked.\<close>

lemma tp_touch_protects:
  assumes "tp_inv p" and "b \<noteq> SIZE_MAX" and "t \<le> now" and "now - t < tp_ttlSeconds p * 1000000000"
  shows "fst (tp_evict now (tp_touch t b p)) \<noteq> b"
proof
  let ?q = "tp_touch t b p"
  assume eq: "fst (tp_evict now ?q) = b"
  then have v: "tp_scan now (tp_ttlSeconds ?q) (tp_timestamps ?q) = b" by (simp add: tp_evict_def Let_def)
  then obtain ts where ts: "(b, ts) \<in> set (tp_timestamps ?q)" "tp_ttlSeconds ?q \<le> age_seconds now ts"
    using tp_scan_stale assms(2) by metis
  have "distinct (map fst (tp_timestamps ?q))"
    using tp.touch_inv [OF assms(1), of t b] by (simp add: tp_inv_def)
  then have "map_of (tp_timestamps ?q) b = Some ts" using ts(1) by simp
  then have "ts = t" by (simp add: tp_touch_def update_conv)
  with ts(2) have "tp_ttlSeconds p \<le> sgn (now - t) * ((now - t) div 1000000000)"
    using assms(3) by (simp add: age_seconds_def tp_touch_def)
  moreover have "(now - t) div 1000000000 < tp_ttlSeconds p"
    using assms(4) by (simp add: div_less_iff_less_mult)
  moreover have "sgn (now - t) * ((now - t) div 1000000000) \<le> (now - t) div 1000000000"
    using assms(3) by (auto simp: sgn_if div_int_pos_iff pos_imp_zdiv_nonneg_iff)
  ultimately show False by linarith
qed

lemma tp_touch_protects_witness:
  "fst (tp_evict 2999999999 (tp_touch 0 7 (TimePolicy 3))) \<noteq> 7"
  by (rule tp_touch_protects) (simp_all add: tp_inv_def TimePolicy_def)

end
