(* ===== verification/Fuse_Common.thy ===== *)
theory Fuse_Common
  imports Cache_Prelude
begin

unbundle bit_operations_syntax

text \<open>
  The data types, flags and inline functions of the libfuse headers in \<^verbatim>\<open>fuse/\<close> that the
  file system program is compiled with: \<^verbatim>\<open>fuse_common.h\<close> (open files, connection
  capabilities and their helper functions, buffers), \<^verbatim>\<open>fuse_opt.h\<close> (arguments and options),
  \<^verbatim>\<open>fuse_log.h\<close> (log levels) and \<^verbatim>\<open>libfuse_config.h\<close> (version).  The library itself is
  not in the repository; where the program calls it, it is a parameter.
\<close>

type_synonym u32 = "32 word"

section \<open>Version\<close>

definition FUSE_HOTFIX_VERSION :: nat where "FUSE_HOTFIX_VERSION = 2"

definition FUSE_MAJOR_VERSION :: nat where "FUSE_MAJOR_VERSION = 3"

definition FUSE_MINOR_VERSION :: nat where "FUSE_MINOR_VERSION = 16"

definition FUSE_MAKE_VERSION :: "nat \<Rightarrow> nat \<Rightarrow> nat" where
  "FUSE_MAKE_VERSION maj mn = maj * 100 + mn"

definition FUSE_VERSION :: nat where
  "FUSE_VERSION = FUSE_MAKE_VERSION FUSE_MAJOR_VERSION FUSE_MINOR_VERSION"

record libfuse_version =
  lv_major :: u32
  lv_minor :: u32
  lv_hotfix :: u32
  lv_padding :: u32

section \<open>Open files and the event loop\<close>

text \<open>The nine one-bit fields are booleans.\<close>

record fuse_file_info =
  fi_flags :: u32
  fi_writepage :: bool
  fi_direct_io :: bool
  fi_keep_cache :: bool
  fi_flush :: bool
  fi_nonseekable :: bool
  fi_flock_release :: bool
  fi_cache_readdir :: bool
  fi_noflush :: bool
  fi_parallel_direct_writes :: bool
  fi_fh :: u64
  fi_lock_owner :: u64
  fi_poll_events :: u32
  fi_backing_id :: u32
  fi_compat_flags :: u64

record fuse_loop_config =
  lc_clone_fd :: int
  lc_max_idle_threads :: u32

section \<open>Capabilities of a connection\<close>

text \<open>The macros \<open>FUSE_CAP_*\<close>, each a single bit.\<close>

datatype fuse_cap =
    FUSE_CAP_ASYNC_READ
  | FUSE_CAP_POSIX_LOCKS
  | FUSE_CAP_ATOMIC_O_TRUNC
  | FUSE_CAP_EXPORT_SUPPORT
  | FUSE_CAP_DONT_MASK
  | FUSE_CAP_SPLICE_WRITE
  | FUSE_CAP_SPLICE_MOVE
  | FUSE_CAP_SPLICE_READ
  | FUSE_CAP_FLOCK_LOCKS
  | FUSE_CAP_IOCTL_DIR
  | FUSE_CAP_AUTO_INVAL_DATA
  | FUSE_CAP_READDIRPLUS
  | FUSE_CAP_READDIRPLUS_AUTO
  | FUSE_CAP_ASYNC_DIO
  | FUSE_CAP_WRITEBACK_CACHE
  | FUSE_CAP_NO_OPEN_SUPPORT
  | FUSE_CAP_PARALLEL_DIROPS
  | FUSE_CAP_POSIX_ACL
  | FUSE_CAP_HANDLE_KILLPRIV
  | FUSE_CAP_HANDLE_KILLPRIV_V2
  | FUSE_CAP_CACHE_SYMLINKS
  | FUSE_CAP_NO_OPENDIR_SUPPORT
  | FUSE_CAP_EXPLICIT_INVAL_DATA
  | FUSE_CAP_EXPIRE_ONLY
  | FUSE_CAP_SETXATTR_EXT
  | FUSE_CAP_DIRECT_IO_ALLOW_MMAP
  | FUSE_CAP_PASSTHROUGH
  | FUSE_CAP_NO_EXPORT_SUPPORT

fun cap_shift :: "fuse_cap \<Rightarrow> nat" where
    "cap_shift FUSE_CAP_ASYNC_READ = 0"
  | "cap_shift FUSE_CAP_POSIX_LOCKS = 1"
  | "cap_shift FUSE_CAP_ATOMIC_O_TRUNC = 3"
  | "cap_shift FUSE_CAP_EXPORT_SUPPORT = 4"
  | "cap_shift FUSE_CAP_DONT_MASK = 6"
  | "cap_shift FUSE_CAP_SPLICE_WRITE = 7"
  | "cap_shift FUSE_CAP_SPLICE_MOVE = 8"
  | "cap_shift FUSE_CAP_SPLICE_READ = 9"
  | "cap_shift FUSE_CAP_FLOCK_LOCKS = 10"
  | "cap_shift FUSE_CAP_IOCTL_DIR = 11"
  | "cap_shift FUSE_CAP_AUTO_INVAL_DATA = 12"
  | "cap_shift FUSE_CAP_READDIRPLUS = 13"
  | "cap_shift FUSE_CAP_READDIRPLUS_AUTO = 14"
  | "cap_shift FUSE_CAP_ASYNC_DIO = 15"
  | "cap_shift FUSE_CAP_WRITEBACK_CACHE = 16"
  | "cap_shift FUSE_CAP_NO_OPEN_SUPPORT = 17"
  | "cap_shift FUSE_CAP_PARALLEL_DIROPS = 18"
  | "cap_shift FUSE_CAP_POSIX_ACL = 19"
  | "cap_shift FUSE_CAP_HANDLE_KILLPRIV = 20"
  | "cap_shift FUSE_CAP_HANDLE_KILLPRIV_V2 = 21"
  | "cap_shift FUSE_CAP_CACHE_SYMLINKS = 23"
  | "cap_shift FUSE_CAP_NO_OPENDIR_SUPPORT = 24"
  | "cap_shift FUSE_CAP_EXPLICIT_INVAL_DATA = 25"
  | "cap_shift FUSE_CAP_EXPIRE_ONLY = 26"
  | "cap_shift FUSE_CAP_SETXATTR_EXT = 27"
  | "cap_shift FUSE_CAP_DIRECT_IO_ALLOW_MMAP = 28"
  | "cap_shift FUSE_CAP_PASSTHROUGH = 29"
  | "cap_shift FUSE_CAP_NO_EXPORT_SUPPORT = 30"

definition cap_bit :: "fuse_cap \<Rightarrow> u64" where
  "cap_bit c = push_bit (cap_shift c) 1"

datatype fuse_ioctl_flag =
    FUSE_IOCTL_COMPAT
  | FUSE_IOCTL_UNRESTRICTED
  | FUSE_IOCTL_RETRY
  | FUSE_IOCTL_DIR

fun ioctl_bit :: "fuse_ioctl_flag \<Rightarrow> u32" where
    "ioctl_bit FUSE_IOCTL_COMPAT = push_bit 0 1"
  | "ioctl_bit FUSE_IOCTL_UNRESTRICTED = push_bit 1 1"
  | "ioctl_bit FUSE_IOCTL_RETRY = push_bit 2 1"
  | "ioctl_bit FUSE_IOCTL_DIR = push_bit 4 1"

definition FUSE_IOCTL_MAX_IOV :: nat where "FUSE_IOCTL_MAX_IOV = 256"

text \<open>The reserved words at the end are left out.\<close>

record fuse_conn_info =
  ci_proto_major :: u32
  ci_proto_minor :: u32
  ci_max_write :: u32
  ci_max_read :: u32
  ci_max_readahead :: u32
  ci_capable :: u32
  ci_want :: u32
  ci_max_background :: u32
  ci_congestion_threshold :: u32
  ci_time_gran :: u32
  ci_max_backing_stack_depth :: u32
  ci_no_interrupt :: bool
  ci_capable_ext :: u64
  ci_want_ext :: u64

definition fuse_set_feature_flag :: "u64 \<Rightarrow> fuse_conn_info \<Rightarrow> bool \<times> fuse_conn_info" where
  "fuse_set_feature_flag flag conn =
     (if ci_capable_ext conn AND flag \<noteq> 0
      then (True, conn\<lparr>ci_want_ext := ci_want_ext conn OR flag\<rparr>)
      else (False, conn))"

definition fuse_unset_feature_flag :: "u64 \<Rightarrow> fuse_conn_info \<Rightarrow> fuse_conn_info" where
  "fuse_unset_feature_flag flag conn = conn\<lparr>ci_want_ext := ci_want_ext conn AND NOT flag\<rparr>"

definition fuse_get_feature_flag :: "u64 \<Rightarrow> fuse_conn_info \<Rightarrow> bool" where
  "fuse_get_feature_flag flag conn = (if ci_capable_ext conn AND flag \<noteq> 0 then True else False)"

section \<open>Buffers\<close>

datatype fuse_buf_flag = FUSE_BUF_IS_FD | FUSE_BUF_FD_SEEK | FUSE_BUF_FD_RETRY

fun buf_bit :: "fuse_buf_flag \<Rightarrow> u32" where
    "buf_bit FUSE_BUF_IS_FD = push_bit 1 1"
  | "buf_bit FUSE_BUF_FD_SEEK = push_bit 2 1"
  | "buf_bit FUSE_BUF_FD_RETRY = push_bit 3 1"

datatype fuse_buf_copy_flag =
    FUSE_BUF_NO_SPLICE
  | FUSE_BUF_FORCE_SPLICE
  | FUSE_BUF_SPLICE_MOVE
  | FUSE_BUF_SPLICE_NONBLOCK

fun copy_bit :: "fuse_buf_copy_flag \<Rightarrow> u32" where
    "copy_bit FUSE_BUF_NO_SPLICE = push_bit 1 1"
  | "copy_bit FUSE_BUF_FORCE_SPLICE = push_bit 2 1"
  | "copy_bit FUSE_BUF_SPLICE_MOVE = push_bit 3 1"
  | "copy_bit FUSE_BUF_SPLICE_NONBLOCK = push_bit 4 1"

text \<open>Addresses are words; 0 is the null pointer.\<close>

record fuse_buf =
  fb_size :: u64
  fb_flags :: u32
  fb_mem :: u64
  fb_fd :: int
  fb_pos :: u64
  fb_mem_size :: u64

record fuse_bufvec =
  bv_count :: u64
  bv_idx :: u64
  bv_off :: u64
  bv_buf :: "fuse_buf list"

definition FUSE_BUFVEC_INIT :: "u64 \<Rightarrow> fuse_bufvec" where
  "FUSE_BUFVEC_INIT sz =
     \<lparr>bv_count = 1, bv_idx = 0, bv_off = 0,
      bv_buf = [\<lparr>fb_size = sz, fb_flags = 0, fb_mem = 0, fb_fd = - 1, fb_pos = 0, fb_mem_size = 0\<rparr>]\<rparr>"

section \<open>Arguments, options and log levels\<close>

record fuse_opt =
  fo_templ :: "string option"
  fo_offset :: u64
  fo_value :: int

text \<open>\<open>-1U\<close> is a 32 bit value, widened without sign.\<close>

definition FUSE_OPT_KEY :: "string \<Rightarrow> int \<Rightarrow> fuse_opt" where
  "FUSE_OPT_KEY templ key = \<lparr>fo_templ = Some templ, fo_offset = 4294967295, fo_value = key\<rparr>"

definition FUSE_OPT_END :: fuse_opt where
  "FUSE_OPT_END = \<lparr>fo_templ = None, fo_offset = 0, fo_value = 0\<rparr>"

record fuse_args =
  fa_argc :: int
  fa_argv :: "string list"
  fa_allocated :: bool

definition FUSE_ARGS_INIT :: "int \<Rightarrow> string list \<Rightarrow> fuse_args" where
  "FUSE_ARGS_INIT argc argv = \<lparr>fa_argc = argc, fa_argv = argv, fa_allocated = False\<rparr>"

datatype fuse_opt_key = FUSE_OPT_KEY_OPT | FUSE_OPT_KEY_NONOPT | FUSE_OPT_KEY_KEEP | FUSE_OPT_KEY_DISCARD

fun opt_key_value :: "fuse_opt_key \<Rightarrow> int" where
    "opt_key_value FUSE_OPT_KEY_OPT = - 1"
  | "opt_key_value FUSE_OPT_KEY_NONOPT = - 2"
  | "opt_key_value FUSE_OPT_KEY_KEEP = - 3"
  | "opt_key_value FUSE_OPT_KEY_DISCARD = - 4"

datatype fuse_log_level =
    FUSE_LOG_EMERG
  | FUSE_LOG_ALERT
  | FUSE_LOG_CRIT
  | FUSE_LOG_ERR
  | FUSE_LOG_WARNING
  | FUSE_LOG_NOTICE
  | FUSE_LOG_INFO
  | FUSE_LOG_DEBUG

section \<open>Capability bits and the feature flags\<close>

lemma cap_shift_bound: "cap_shift c < 31"
  by (cases c) simp_all

definition all_caps :: "fuse_cap list" where
  "all_caps =
     [FUSE_CAP_ASYNC_READ, FUSE_CAP_POSIX_LOCKS, FUSE_CAP_ATOMIC_O_TRUNC,
      FUSE_CAP_EXPORT_SUPPORT, FUSE_CAP_DONT_MASK, FUSE_CAP_SPLICE_WRITE,
      FUSE_CAP_SPLICE_MOVE, FUSE_CAP_SPLICE_READ, FUSE_CAP_FLOCK_LOCKS,
      FUSE_CAP_IOCTL_DIR, FUSE_CAP_AUTO_INVAL_DATA, FUSE_CAP_READDIRPLUS,
      FUSE_CAP_READDIRPLUS_AUTO, FUSE_CAP_ASYNC_DIO, FUSE_CAP_WRITEBACK_CACHE,
      FUSE_CAP_NO_OPEN_SUPPORT, FUSE_CAP_PARALLEL_DIROPS, FUSE_CAP_POSIX_ACL,
      FUSE_CAP_HANDLE_KILLPRIV, FUSE_CAP_HANDLE_KILLPRIV_V2, FUSE_CAP_CACHE_SYMLINKS,
      FUSE_CAP_NO_OPENDIR_SUPPORT, FUSE_CAP_EXPLICIT_INVAL_DATA, FUSE_CAP_EXPIRE_ONLY,
      FUSE_CAP_SETXATTR_EXT, FUSE_CAP_DIRECT_IO_ALLOW_MMAP, FUSE_CAP_PASSTHROUGH,
      FUSE_CAP_NO_EXPORT_SUPPORT]"

lemma cap_shift_inject: "cap_shift a = cap_shift b \<longleftrightarrow> a = b"
proof -
  have "c \<in> set all_caps" for c by (cases c) (simp_all add: all_caps_def)
  moreover have "distinct (map cap_shift all_caps)" by (simp add: all_caps_def)
  ultimately show ?thesis by (metis distinct_map inj_on_contraD)
qed

lemma bit_u64_less: "bit (w :: u64) n \<Longrightarrow> n < 64"
  using bit_imp_le_length [of w n] by simp

lemma bit_cap_bit: "bit (cap_bit c) n \<longleftrightarrow> n = cap_shift c"
  using cap_shift_bound [of c] by (auto simp: cap_bit_def bit_exp_iff)

lemma and_cap_bit: "w AND cap_bit c \<noteq> 0 \<longleftrightarrow> bit w (cap_shift c)"
proof -
  have "w AND cap_bit c \<noteq> 0 \<longleftrightarrow> (\<exists>n. bit (w AND cap_bit c) n)"
    by (metis bit_0_eq bot_apply bot_bool_def bit_eqI)
  then show ?thesis by (auto simp: bit_and_iff bit_cap_bit)
qed

text \<open>The capability macros are pairwise different single bits below bit 31: masking one with
  another gives zero unless they are the same capability.\<close>

lemma cap_bits_independent:
  "cap_bit a AND cap_bit b = (if a = b then cap_bit a else 0) \<and> cap_bit a \<noteq> 0 \<and> cap_bit a < 2 ^ 31"
proof (intro conjI)
  show "cap_bit a AND cap_bit b = (if a = b then cap_bit a else 0)"
    by (rule bit_eqI) (auto simp: bit_and_iff bit_cap_bit cap_shift_inject)
  show "cap_bit a \<noteq> 0" using bit_cap_bit [of a "cap_shift a"] by auto
  have "cap_bit a \<in> cap_bit ` set all_caps" by (cases a) (simp_all add: all_caps_def)
  moreover have "\<forall>w \<in> cap_bit ` set all_caps. w < 2 ^ 31" by (simp add: all_caps_def cap_bit_def)
  ultimately show "cap_bit a < 2 ^ 31" by blast
qed

text \<open>The wanted features stay among those the kernel offers.\<close>

definition want_subset :: "fuse_conn_info \<Rightarrow> bool" where
  "want_subset conn \<longleftrightarrow> ci_want_ext conn AND NOT (ci_capable_ext conn) = 0"

lemma want_subset_bits: "want_subset conn \<longleftrightarrow> (\<forall>n. bit (ci_want_ext conn) n \<longrightarrow> bit (ci_capable_ext conn) n)"
proof -
  have "want_subset conn \<longleftrightarrow> (\<forall>n. \<not> bit (ci_want_ext conn AND NOT (ci_capable_ext conn)) n)"
    unfolding want_subset_def by (metis bit_0_eq bot_apply bot_bool_def bit_eqI)
  then show ?thesis
    by (auto simp: bit_and_iff bit_not_iff dest: bit_u64_less)
qed

text \<open>Asking for a capability succeeds exactly when the kernel offers it, then it is wanted and
  no other wanted bit changes; a refused request changes nothing; withdrawing it clears its bit
  and no other.  Both keep the wanted features among the offered ones.
  \<open>fuse_get_feature_flag\<close> looks at what is offered, so it does not depend on what was set or
  unset.\<close>

lemma feature_flags_single:
  assumes "want_subset conn" and "fuse_set_feature_flag (cap_bit c) conn = (ok, conn')"
  shows "ok = bit (ci_capable_ext conn) (cap_shift c) \<and> ok = fuse_get_feature_flag (cap_bit c) conn \<and>
    want_subset conn' \<and> want_subset (fuse_unset_feature_flag (cap_bit c) conn) \<and>
    (\<forall>n. bit (ci_want_ext conn') n = (bit (ci_want_ext conn) n \<or> ok \<and> n = cap_shift c)) \<and>
    (\<forall>n. bit (ci_want_ext (fuse_unset_feature_flag (cap_bit c) conn)) n =
         (bit (ci_want_ext conn) n \<and> n \<noteq> cap_shift c)) \<and>
    fuse_get_feature_flag f conn' = fuse_get_feature_flag f conn \<and>
    fuse_get_feature_flag f (fuse_unset_feature_flag g conn) = fuse_get_feature_flag f conn"
  using assms
  by (auto simp: fuse_set_feature_flag_def fuse_unset_feature_flag_def fuse_get_feature_flag_def
      want_subset_bits and_cap_bit bit_or_iff bit_and_iff bit_not_iff bit_cap_bit
      dest: bit_u64_less split: if_splits)

definition demo_conn :: fuse_conn_info where
  "demo_conn = \<lparr>ci_proto_major = 7, ci_proto_minor = 40, ci_max_write = 0, ci_max_read = 0,
     ci_max_readahead = 0, ci_capable = 0, ci_want = 0, ci_max_background = 0,
     ci_congestion_threshold = 0, ci_time_gran = 1, ci_max_backing_stack_depth = 0,
     ci_no_interrupt = False, ci_capable_ext = 3, ci_want_ext = 0\<rparr>"

lemma feature_flags_single_witness:
  "want_subset demo_conn \<and>
   (\<exists>conn'. fuse_set_feature_flag (cap_bit FUSE_CAP_POSIX_LOCKS) demo_conn = (True, conn') \<and>
     bit (ci_want_ext conn') 1 \<and> want_subset conn')"
proof -
  have w: "want_subset demo_conn" by (simp add: want_subset_def demo_conn_def)
  obtain ok conn' where s: "fuse_set_feature_flag (cap_bit FUSE_CAP_POSIX_LOCKS) demo_conn = (ok, conn')" by force
  have "bit (ci_capable_ext demo_conn) (cap_shift FUSE_CAP_POSIX_LOCKS)"
    by (simp add: demo_conn_def bit_numeral_rec)
  then show ?thesis using feature_flags_single [OF w s] s w by auto
qed

end
