(* ===== verification/Fuse_Ops.thy ===== *)
theory Fuse_Ops
  imports Fuse_Common Lru_Policy
begin

text \<open>
  \<^verbatim>\<open>fuse/fuse_ops.cc\<close>, with the operation table of \<^verbatim>\<open>fuse/fuse.h\<close> and
  \<^verbatim>\<open>fuse/fuse_ops.h\<close>: the wrappers \<open>fuse_fs_*\<close> that set the calling context, log in debug
  mode, and forward to the file system's own operation or answer for a missing one.  An operation
  maps the file system's state \<open>'s\<close>; its result is the return value, or an exception that passes
  through, with what it stores through its pointer arguments.  \<open>fuse_log\<close>, \<open>free\<close> and the
  context are the state \<open>lib\<close>; \<open>file_info_string\<close> and \<open>fuse_buf_copy\<close>, which the
  repository does not contain, are the parameter \<open>lp\<close>.
\<close>

section \<open>The operation table\<close>

record statbuf =
  st_mode :: u32
  st_nlink :: u64
  st_size :: u64

record statvfsbuf =
  f_bsize :: u64
  f_blocks :: u64
  f_bfree :: u64

type_synonym ('o, 's) call = "'s \<Rightarrow> ((exn + int) \<times> 'o) \<times> 's"

datatype fuse_readdir_flags = FUSE_READDIR_DEFAULTS | FUSE_READDIR_PLUS

fun readdir_bit :: "fuse_readdir_flags \<Rightarrow> u32" where
    "readdir_bit FUSE_READDIR_DEFAULTS = 0"
  | "readdir_bit FUSE_READDIR_PLUS = push_bit 0 1"

datatype fuse_fill_dir_flags = FUSE_FILL_DIR_DEFAULTS | FUSE_FILL_DIR_PLUS

fun fill_dir_bit :: "fuse_fill_dir_flags \<Rightarrow> u32" where
    "fill_dir_bit FUSE_FILL_DIR_DEFAULTS = 0"
  | "fill_dir_bit FUSE_FILL_DIR_PLUS = push_bit 1 1"

text \<open>The configuration the library hands to \<open>init\<close>: the members on attributes and their
  caching, then the rest.  An address is a word.\<close>

record attr_config =
  cfg_set_gid :: int
  cfg_gid :: u32
  cfg_set_uid :: int
  cfg_uid :: u32
  cfg_set_mode :: int
  cfg_umask :: u32
  cfg_entry_timeout :: double
  cfg_negative_timeout :: double
  cfg_attr_timeout :: double
  cfg_intr :: int
  cfg_intr_signal :: int
  cfg_remember :: int
  cfg_hard_remove :: int
  cfg_use_ino :: int
  cfg_readdir_ino :: int
  cfg_direct_io :: int

record fuse_config = attr_config +
  cfg_kernel_cache :: int
  cfg_auto_cache :: int
  cfg_ac_attr_timeout_set :: int
  cfg_ac_attr_timeout :: double
  cfg_nullpath_ok :: int
  cfg_show_help :: int
  cfg_modules :: u64
  cfg_debug :: int
  cfg_fmask :: u32
  cfg_dmask :: u32
  cfg_no_rofd_flush :: int
  cfg_parallel_direct_writes :: int
  cfg_flags :: u32
  cfg_reserved :: "u64 list"

text \<open>One entry per member of \<open>struct fuse_operations\<close>, in order; \<open>None\<close> is a null
  pointer.  A pointer argument an operation fills is a result, one it reads an argument.  The members
  are grouped as the header has them: names and attributes, open files, directories and the connection,
  and the later additions.\<close>

record 's name_operations =
  op_getattr :: "(string \<Rightarrow> fuse_file_info option \<Rightarrow> (statbuf, 's) call) option"
  op_readlink :: "(string \<Rightarrow> u64 \<Rightarrow> (bytes, 's) call) option"
  op_mknod :: "(string \<Rightarrow> u32 \<Rightarrow> u64 \<Rightarrow> (unit, 's) call) option"
  op_mkdir :: "(string \<Rightarrow> u32 \<Rightarrow> (unit, 's) call) option"
  op_unlink :: "(string \<Rightarrow> (unit, 's) call) option"
  op_rmdir :: "(string \<Rightarrow> (unit, 's) call) option"
  op_symlink :: "(string \<Rightarrow> string \<Rightarrow> (unit, 's) call) option"
  op_rename :: "(string \<Rightarrow> string \<Rightarrow> u32 \<Rightarrow> (unit, 's) call) option"
  op_link :: "(string \<Rightarrow> string \<Rightarrow> (unit, 's) call) option"
  op_chmod :: "(string \<Rightarrow> u32 \<Rightarrow> fuse_file_info option \<Rightarrow> (unit, 's) call) option"
  op_chown :: "(string \<Rightarrow> u32 \<Rightarrow> u32 \<Rightarrow> fuse_file_info option \<Rightarrow> (unit, 's) call) option"
  op_truncate :: "(string \<Rightarrow> u64 \<Rightarrow> fuse_file_info option \<Rightarrow> (unit, 's) call) option"

record 's file_operations = "'s name_operations" +
  op_open :: "(string \<Rightarrow> fuse_file_info \<Rightarrow> (fuse_file_info, 's) call) option"
  op_read :: "(string \<Rightarrow> bytes \<Rightarrow> u64 \<Rightarrow> u64 \<Rightarrow> fuse_file_info \<Rightarrow> (bytes, 's) call) option"
  op_write :: "(string \<Rightarrow> bytes \<Rightarrow> u64 \<Rightarrow> u64 \<Rightarrow> fuse_file_info \<Rightarrow> (unit, 's) call) option"
  op_statfs :: "(string \<Rightarrow> (statvfsbuf, 's) call) option"
  op_flush :: "(string \<Rightarrow> fuse_file_info \<Rightarrow> (unit, 's) call) option"
  op_release :: "(string \<Rightarrow> fuse_file_info \<Rightarrow> (unit, 's) call) option"
  op_fsync :: "(string \<Rightarrow> int \<Rightarrow> fuse_file_info \<Rightarrow> (unit, 's) call) option"
  op_setxattr :: "(string \<Rightarrow> string \<Rightarrow> bytes \<Rightarrow> u64 \<Rightarrow> int \<Rightarrow> (unit, 's) call) option"
  op_getxattr :: "(string \<Rightarrow> string \<Rightarrow> u64 \<Rightarrow> (bytes, 's) call) option"
  op_listxattr :: "(string \<Rightarrow> u64 \<Rightarrow> (bytes, 's) call) option"
  op_removexattr :: "(string \<Rightarrow> string \<Rightarrow> (unit, 's) call) option"

record 's directory_operations = "'s file_operations" +
  op_opendir :: "(string \<Rightarrow> fuse_file_info \<Rightarrow> (fuse_file_info, 's) call) option"
  op_readdir :: "(string \<Rightarrow> u64 \<Rightarrow> fuse_file_info \<Rightarrow> u32 \<Rightarrow> (string list, 's) call) option"
  op_releasedir :: "(string \<Rightarrow> fuse_file_info \<Rightarrow> (unit, 's) call) option"
  op_fsyncdir :: "(string \<Rightarrow> int \<Rightarrow> fuse_file_info \<Rightarrow> (unit, 's) call) option"
  op_init :: "(fuse_conn_info \<Rightarrow> fuse_config \<Rightarrow> 's \<Rightarrow> (u64 \<times> fuse_conn_info \<times> fuse_config) \<times> 's) option"
  op_destroy :: "(u64 \<Rightarrow> (unit, 's) call) option"
  op_access :: "(string \<Rightarrow> int \<Rightarrow> (unit, 's) call) option"
  op_create :: "(string \<Rightarrow> u32 \<Rightarrow> fuse_file_info \<Rightarrow> (fuse_file_info, 's) call) option"
  op_lock :: "(string \<Rightarrow> fuse_file_info \<Rightarrow> int \<Rightarrow> u64 \<Rightarrow> (unit, 's) call) option"

record 's fuse_operations = "'s directory_operations" +
  op_utimens :: "(string \<Rightarrow> int \<times> int \<Rightarrow> int \<times> int \<Rightarrow> fuse_file_info option \<Rightarrow> (unit, 's) call) option"
  op_bmap :: "(string \<Rightarrow> u64 \<Rightarrow> (u64, 's) call) option"
  op_ioctl :: "(string \<Rightarrow> int \<Rightarrow> u64 \<Rightarrow> fuse_file_info \<Rightarrow> u32 \<Rightarrow> bytes \<Rightarrow> (bytes, 's) call) option"
  op_poll :: "(string \<Rightarrow> fuse_file_info \<Rightarrow> u64 \<Rightarrow> (u32, 's) call) option"
  op_write_buf :: "(string \<Rightarrow> fuse_bufvec \<Rightarrow> u64 \<Rightarrow> fuse_file_info \<Rightarrow> (unit, 's) call) option"
  op_read_buf :: "(string \<Rightarrow> u64 \<Rightarrow> u64 \<Rightarrow> fuse_file_info \<Rightarrow> ((u64 \<times> fuse_bufvec) option, 's) call) option"
  op_flock :: "(string \<Rightarrow> fuse_file_info \<Rightarrow> int \<Rightarrow> (unit, 's) call) option"
  op_fallocate :: "(string \<Rightarrow> int \<Rightarrow> u64 \<Rightarrow> u64 \<Rightarrow> fuse_file_info \<Rightarrow> (unit, 's) call) option"
  op_copy_file_range :: "(string \<Rightarrow> fuse_file_info \<Rightarrow> u64 \<Rightarrow> string \<Rightarrow> fuse_file_info \<Rightarrow> u64 \<Rightarrow> u64 \<Rightarrow> int \<Rightarrow> (unit, 's) call) option"
  op_lseek :: "(string \<Rightarrow> u64 \<Rightarrow> int \<Rightarrow> fuse_file_info \<Rightarrow> (unit, 's) call) option"

text \<open>The static initialiser \<open>{}\<close> and \<open>memset(&ops, 0, sizeof(ops))\<close>.\<close>

definition null_operations :: "'s fuse_operations" where
  "null_operations =
     \<lparr>op_getattr = None, op_readlink = None, op_mknod = None, op_mkdir = None, op_unlink = None,
      op_rmdir = None, op_symlink = None, op_rename = None, op_link = None, op_chmod = None,
      op_chown = None, op_truncate = None, op_open = None, op_read = None, op_write = None,
      op_statfs = None, op_flush = None, op_release = None, op_fsync = None, op_setxattr = None,
      op_getxattr = None, op_listxattr = None, op_removexattr = None, op_opendir = None,
      op_readdir = None, op_releasedir = None, op_fsyncdir = None, op_init = None, op_destroy = None,
      op_access = None, op_create = None, op_lock = None, op_utimens = None, op_bmap = None,
      op_ioctl = None, op_poll = None, op_write_buf = None, op_read_buf = None, op_flock = None,
      op_fallocate = None, op_copy_file_range = None, op_lseek = None\<rparr>"

record fuse_context =
  fc_fuse :: u64
  fc_uid :: u32
  fc_gid :: u32
  fc_pid :: int
  fc_private_data :: u64
  fc_umask :: u32

record 's fuse_fs =
  ff_op :: "'s fuse_operations"
  ff_user_data :: u64
  ff_debug :: bool

section \<open>What the wrappers use of the library\<close>

datatype log_arg = LNum int | LStr string

record 's lib =
  lib_ctx :: fuse_context
  lib_log :: "(fuse_log_level \<times> string \<times> log_arg list) list"
  lib_freed :: "u64 list"
  lib_user :: 's

record libparam =
  lp_file_info_string :: "fuse_file_info option \<Rightarrow> string"
  lp_buf_copy :: "fuse_bufvec \<Rightarrow> fuse_bufvec option \<Rightarrow> u32 \<Rightarrow> bytes \<Rightarrow> int \<times> bytes"

text \<open>Conversion to a 32 bit \<open>int\<close>.  Format strings of the log are written without their final
  newline.\<close>

definition to_int32 :: "int \<Rightarrow> int" where
  "to_int32 i = signed_take_bit 31 i"

definition fuse_log :: "fuse_log_level \<Rightarrow> string \<Rightarrow> log_arg list \<Rightarrow> 's lib \<Rightarrow> 's lib" where
  "fuse_log level fmt args l = l\<lparr>lib_log := lib_log l @ [(level, fmt, args)]\<rparr>"

definition debug_log :: "'s fuse_fs \<Rightarrow> string \<Rightarrow> log_arg list \<Rightarrow> 's lib \<Rightarrow> 's lib" where
  "debug_log fs fmt args l = (if ff_debug fs then fuse_log FUSE_LOG_DEBUG fmt args l else l)"

text \<open>\<open>fuse_get_context()->private_data = fs->user_data\<close>.\<close>

definition set_context :: "'s fuse_fs \<Rightarrow> 's lib \<Rightarrow> 's lib" where
  "set_context fs l = l\<lparr>lib_ctx := (lib_ctx l)\<lparr>fc_private_data := ff_user_data fs\<rparr>\<rparr>"

text \<open>Running an operation on the file system's own state.\<close>

definition run_op :: "('o, 's) call \<Rightarrow> 's lib \<Rightarrow> ((exn + int) \<times> 'o) \<times> 's lib" where
  "run_op f l = (case f (lib_user l) of (r, s) \<Rightarrow> (r, l\<lparr>lib_user := s\<rparr>))"

definition no_out :: "((exn + int) \<times> unit) \<times> 's lib \<Rightarrow> (exn + int) \<times> 's lib" where
  "no_out r = (fst (fst r), snd r)"

section \<open>The wrappers\<close>

definition fuse_fs_getattr ::
    "libparam \<Rightarrow> 's fuse_fs \<Rightarrow> string \<Rightarrow> statbuf \<Rightarrow> fuse_file_info option \<Rightarrow> 's lib
      \<Rightarrow> ((exn + int) \<times> statbuf) \<times> 's lib" where
  "fuse_fs_getattr lp fs path buf fi l =
     (let l1 = set_context fs l in
      case op_getattr (ff_op fs) of
        Some f \<Rightarrow>
          run_op (f path fi)
            (debug_log fs ''getattr[%s] %s'' [LStr (lp_file_info_string lp fi), LStr path] l1)
      | None \<Rightarrow> ((Inr (- ENOSYS), buf), l1))"

definition fuse_fs_open ::
    "'s fuse_fs \<Rightarrow> string \<Rightarrow> fuse_file_info \<Rightarrow> 's lib \<Rightarrow> ((exn + int) \<times> fuse_file_info) \<times> 's lib" where
  "fuse_fs_open fs path fi l =
     (let l1 = set_context fs l in
      case op_open (ff_op fs) of
        Some f \<Rightarrow>
          (case run_op (f path fi)
                  (debug_log fs ''open flags: 0x%x %s'' [LNum (uint (fi_flags fi)), LStr path] l1) of
             ((err, fi'), l2) \<Rightarrow>
               ((err, fi'),
                if err = Inr 0
                then debug_log fs ''   open[%llu] flags: 0x%x %s''
                       [LNum (uint (fi_fh fi')), LNum (uint (fi_flags fi')), LStr path] l2
                else l2))
      | None \<Rightarrow> ((Inr 0, fi), l1))"

text \<open>The addresses \<open>fuse_free_buf\<close> frees: the memory of each of the first \<open>count\<close>
  buffers that is not a file descriptor, then the vector.\<close>

definition freed_by :: "u64 \<times> fuse_bufvec \<Rightarrow> u64 list" where
  "freed_by b =
     map fb_mem (filter (\<lambda>x. fb_flags x AND buf_bit FUSE_BUF_IS_FD = 0)
       (take (unat (bv_count (snd b))) (bv_buf (snd b)))) @ [fst b]"

definition fuse_free_buf :: "(u64 \<times> fuse_bufvec) option \<Rightarrow> 's lib \<Rightarrow> 's lib" where
  "fuse_free_buf buf l =
     (case buf of None \<Rightarrow> l | Some b \<Rightarrow> l\<lparr>lib_freed := lib_freed l @ freed_by b\<rparr>)"

text \<open>\<open>memp\<close> is the address of the caller's buffer, \<open>mem\<close> its contents.\<close>

definition read_via_buf ::
    "libparam \<Rightarrow> (string \<Rightarrow> u64 \<Rightarrow> u64 \<Rightarrow> fuse_file_info \<Rightarrow> ((u64 \<times> fuse_bufvec) option, 's) call)
      \<Rightarrow> string \<Rightarrow> u64 \<Rightarrow> bytes \<Rightarrow> u64 \<Rightarrow> u64 \<Rightarrow> fuse_file_info \<Rightarrow> 's lib
      \<Rightarrow> ((exn + int) \<times> bytes) \<times> 's lib" where
  "read_via_buf lp f path memp mem sz off fi l =
     (case run_op (f path sz off fi) l of
        ((Inl e, _), l1) \<Rightarrow> ((Inl e, mem), l1)
      | ((Inr res, buf), l1) \<Rightarrow>
          (if res = 0 then
             (let dst0 = FUSE_BUFVEC_INIT sz;
                  dst = dst0\<lparr>bv_buf := [(hd (bv_buf dst0))\<lparr>fb_mem := memp\<rparr>]\<rparr>
              in case lp_buf_copy lp dst (map_option snd buf) 0 mem of
                   (n, mem') \<Rightarrow> ((Inr (to_int32 n), mem'), fuse_free_buf buf l1))
           else ((Inr res, mem), fuse_free_buf buf l1)))"

definition fuse_fs_read ::
    "libparam \<Rightarrow> 's fuse_fs \<Rightarrow> string \<Rightarrow> u64 \<Rightarrow> bytes \<Rightarrow> u64 \<Rightarrow> u64 \<Rightarrow> fuse_file_info \<Rightarrow> 's lib
      \<Rightarrow> ((exn + int) \<times> bytes) \<times> 's lib" where
  "fuse_fs_read lp fs path memp mem sz off fi l =
     (let l1 = set_context fs l;
          l2 = debug_log fs ''read[%llu] %zu bytes from %llu flags: 0x%x''
                 [LNum (uint (fi_fh fi)), LNum (uint sz), LNum (uint off), LNum (uint (fi_flags fi))] l1;
          finish = (\<lambda>((r, mem'), l3).
            ((r, mem'),
             case r of
               Inl e \<Rightarrow> l3
             | Inr res \<Rightarrow>
                 (let l4 = (if res \<ge> 0
                            then debug_log fs ''   read[%llu] %u bytes from %llu''
                                   [LNum (uint (fi_fh fi)), LNum res, LNum (uint off)] l3
                            else l3)
                  in if res \<ge> 0 \<and> res > to_int32 (uint sz)
                     then fuse_log FUSE_LOG_ERR ''fuse: read too many bytes'' [] l4
                     else l4)))
      in case op_read_buf (ff_op fs) of
           Some f \<Rightarrow> finish (read_via_buf lp f path memp mem sz off fi l2)
         | None \<Rightarrow>
             (case op_read (ff_op fs) of
                Some f \<Rightarrow> finish (run_op (f path mem sz off fi) l2)
              | None \<Rightarrow> ((Inr (- ENOSYS), mem), l1)))"

definition fuse_fs_release ::
    "'s fuse_fs \<Rightarrow> string \<Rightarrow> fuse_file_info \<Rightarrow> 's lib \<Rightarrow> (exn + int) \<times> 's lib" where
  "fuse_fs_release fs path fi l =
     (let l1 = set_context fs l in
      case op_release (ff_op fs) of
        Some f \<Rightarrow>
          no_out (run_op (f path fi)
            (debug_log fs ''release%s[%llu] flags: 0x%x''
               [LStr (if fi_flush fi then ''+flush'' else []), LNum (uint (fi_fh fi)), LNum (uint (fi_flags fi))] l1))
      | None \<Rightarrow> (Inr 0, l1))"

definition fuse_fs_mkdir :: "'s fuse_fs \<Rightarrow> string \<Rightarrow> u32 \<Rightarrow> 's lib \<Rightarrow> (exn + int) \<times> 's lib" where
  "fuse_fs_mkdir fs path mode l =
     (let l1 = set_context fs l in
      case op_mkdir (ff_op fs) of
        Some f \<Rightarrow>
          no_out (run_op (f path mode)
            (debug_log fs ''mkdir %s 0%o umask=0%03o''
               [LStr path, LNum (uint mode), LNum (uint (fc_umask (lib_ctx l1)))] l1))
      | None \<Rightarrow> (Inr (- ENOSYS), l1))"

definition fuse_fs_rmdir :: "'s fuse_fs \<Rightarrow> string \<Rightarrow> 's lib \<Rightarrow> (exn + int) \<times> 's lib" where
  "fuse_fs_rmdir fs path l =
     (let l1 = set_context fs l in
      case op_rmdir (ff_op fs) of
        Some f \<Rightarrow> no_out (run_op (f path) (debug_log fs ''rmdir %s'' [LStr path] l1))
      | None \<Rightarrow> (Inr (- ENOSYS), l1))"

definition fuse_fs_link :: "'s fuse_fs \<Rightarrow> string \<Rightarrow> string \<Rightarrow> 's lib \<Rightarrow> (exn + int) \<times> 's lib" where
  "fuse_fs_link fs oldpath newpath l =
     (let l1 = set_context fs l in
      case op_link (ff_op fs) of
        Some f \<Rightarrow> no_out (run_op (f oldpath newpath) (debug_log fs ''link %s %s'' [LStr oldpath, LStr newpath] l1))
      | None \<Rightarrow> (Inr (- ENOSYS), l1))"

definition fuse_fs_unlink :: "'s fuse_fs \<Rightarrow> string \<Rightarrow> 's lib \<Rightarrow> (exn + int) \<times> 's lib" where
  "fuse_fs_unlink fs path l =
     (let l1 = set_context fs l in
      case op_unlink (ff_op fs) of
        Some f \<Rightarrow> no_out (run_op (f path) (debug_log fs ''unlink %s'' [LStr path] l1))
      | None \<Rightarrow> (Inr (- ENOSYS), l1))"

definition fuse_fs_rename ::
    "'s fuse_fs \<Rightarrow> string \<Rightarrow> string \<Rightarrow> u32 \<Rightarrow> 's lib \<Rightarrow> (exn + int) \<times> 's lib" where
  "fuse_fs_rename fs oldpath newpath flags l =
     (let l1 = set_context fs l in
      case op_rename (ff_op fs) of
        Some f \<Rightarrow>
          no_out (run_op (f oldpath newpath flags)
            (debug_log fs ''rename %s %s 0x%x'' [LStr oldpath, LStr newpath, LNum (uint flags)] l1))
      | None \<Rightarrow> (Inr (- ENOSYS), l1))"

section \<open>Properties of the wrappers\<close>

lemma set_context_fields [simp]:
  "lib_log (set_context fs l) = lib_log l" "lib_freed (set_context fs l) = lib_freed l"
  "lib_user (set_context fs l) = lib_user l"
  "fc_private_data (lib_ctx (set_context fs l)) = ff_user_data fs"
  by (simp_all add: set_context_def)

lemma debug_log_off [simp]: "\<not> ff_debug fs \<Longrightarrow> debug_log fs fmt args l = l"
  by (simp add: debug_log_def)

text \<open>A wrapper whose operation is missing answers \<open>-ENOSYS\<close>, except \<open>open\<close> and
  \<open>release\<close>, which answer 0; it stores nothing through the caller's pointers, and its only
  effect is to set the private data of the context.\<close>

lemma wrappers_without_operation:
  assumes "ff_op fs = null_operations"
  shows "fuse_fs_getattr lp fs path buf fi_opt l = ((Inr (- ENOSYS), buf), set_context fs l) \<and>
    fuse_fs_open fs path fi l = ((Inr 0, fi), set_context fs l) \<and>
    fuse_fs_read lp fs path memp mem sz off fi l = ((Inr (- ENOSYS), mem), set_context fs l) \<and>
    fuse_fs_release fs path fi l = (Inr 0, set_context fs l) \<and>
    fuse_fs_mkdir fs path mode l = (Inr (- ENOSYS), set_context fs l) \<and>
    fuse_fs_rmdir fs path l = (Inr (- ENOSYS), set_context fs l) \<and>
    fuse_fs_link fs path path' l = (Inr (- ENOSYS), set_context fs l) \<and>
    fuse_fs_unlink fs path l = (Inr (- ENOSYS), set_context fs l) \<and>
    fuse_fs_rename fs path path' flags l = (Inr (- ENOSYS), set_context fs l)"
  using assms
  by (simp add: fuse_fs_getattr_def fuse_fs_open_def fuse_fs_read_def fuse_fs_release_def
      fuse_fs_mkdir_def fuse_fs_rmdir_def fuse_fs_link_def fuse_fs_unlink_def fuse_fs_rename_def
      null_operations_def Let_def)

lemma wrappers_without_operation_witness:
  "fuse_fs_mkdir \<lparr>ff_op = null_operations, ff_user_data = 5, ff_debug = False\<rparr> ''/d'' 493
     \<lparr>lib_ctx = \<lparr>fc_fuse = 0, fc_uid = 0, fc_gid = 0, fc_pid = 0, fc_private_data = 0, fc_umask = 0\<rparr>,
      lib_log = [], lib_freed = [], lib_user = ()\<rparr> =
   (Inr (- ENOSYS), set_context \<lparr>ff_op = null_operations, ff_user_data = 5, ff_debug = False\<rparr>
     \<lparr>lib_ctx = \<lparr>fc_fuse = 0, fc_uid = 0, fc_gid = 0, fc_pid = 0, fc_private_data = 0, fc_umask = 0\<rparr>,
      lib_log = [], lib_freed = [], lib_user = ()\<rparr>)"
  using wrappers_without_operation [of "\<lparr>ff_op = null_operations, ff_user_data = 5, ff_debug = False\<rparr> :: unit fuse_fs"] by simp

text \<open>Outside debug mode a wrapper is transparent: the operation runs once on the file
  system's state with the caller's arguments, its result and its stores reach the caller
  unchanged, and nothing is logged; a read additionally reports an error when it returned more
  bytes than fit.\<close>

lemma wrappers_forward:
  assumes "\<not> ff_debug fs" and "l' = set_context fs l"
  shows "(op_getattr (ff_op fs) = Some f1 \<longrightarrow>
      fuse_fs_getattr lp fs path buf fi_opt l = run_op (f1 path fi_opt) l') \<and>
    (op_open (ff_op fs) = Some f2 \<longrightarrow> fuse_fs_open fs path fi l = run_op (f2 path fi) l') \<and>
    (op_read (ff_op fs) = Some f3 \<and> op_read_buf (ff_op fs) = None \<and>
       (\<forall>r m s. f3 path mem sz off fi (lib_user l) = ((Inr r, m), s) \<longrightarrow> r \<le> to_int32 (uint sz)) \<longrightarrow>
      fuse_fs_read lp fs path memp mem sz off fi l = run_op (f3 path mem sz off fi) l') \<and>
    (op_release (ff_op fs) = Some f4 \<longrightarrow> fuse_fs_release fs path fi l = no_out (run_op (f4 path fi) l')) \<and>
    (op_mkdir (ff_op fs) = Some f5 \<longrightarrow> fuse_fs_mkdir fs path mode l = no_out (run_op (f5 path mode) l')) \<and>
    (op_rmdir (ff_op fs) = Some f6 \<longrightarrow> fuse_fs_rmdir fs path l = no_out (run_op (f6 path) l')) \<and>
    (op_unlink (ff_op fs) = Some f7 \<longrightarrow> fuse_fs_unlink fs path l = no_out (run_op (f7 path) l')) \<and>
    (op_link (ff_op fs) = Some f8 \<longrightarrow> fuse_fs_link fs path path' l = no_out (run_op (f8 path path') l')) \<and>
    (op_rename (ff_op fs) = Some f9 \<longrightarrow>
      fuse_fs_rename fs path path' flags l = no_out (run_op (f9 path path' flags) l'))"
proof (intro conjI impI)
  assume rd: "op_read (ff_op fs) = Some f3 \<and> op_read_buf (ff_op fs) = None \<and>
      (\<forall>r m s. f3 path mem sz off fi (lib_user l) = ((Inr r, m), s) \<longrightarrow> r \<le> to_int32 (uint sz))"
  obtain r m s where f: "f3 path mem sz off fi (lib_user l) = ((r, m), s)" by (metis prod.collapse)
  then have "\<not> to_int32 (uint sz) < res" if "r = Inr res" for res using rd that by fastforce
  with f rd assms show "fuse_fs_read lp fs path memp mem sz off fi l = run_op (f3 path mem sz off fi) l'"
    by (cases r) (auto simp: fuse_fs_read_def run_op_def Let_def)
qed (use assms in \<open>auto simp: fuse_fs_getattr_def fuse_fs_open_def fuse_fs_release_def fuse_fs_mkdir_def
      fuse_fs_rmdir_def fuse_fs_link_def fuse_fs_unlink_def fuse_fs_rename_def Let_def split: prod.splits\<close>)

text \<open>C40: After \<open>read_buf\<close> returned a buffer vector, \<open>fuse_fs_read\<close> releases each of its
  memory buffers once and then the vector, never the memory field of a buffer that is a file
  descriptor; the bytes come from \<open>fuse_buf_copy\<close> into a vector over the caller's memory of
  the size asked for, and only when \<open>read_buf\<close> succeeded.\<close>

theorem fuse_fs_read_buf_frees:
  assumes "op_read_buf (ff_op fs) = Some f" and "f path sz off fi (lib_user l) = ((Inr res, Some b), s)"
    and "fuse_fs_read lp fs path memp mem sz off fi l = ((r, mem'), l')"
  shows "lib_freed l' = lib_freed l @
      map fb_mem [x \<leftarrow> take (unat (bv_count (snd b))) (bv_buf (snd b)). fb_flags x AND 2 = 0] @ [fst b] \<and>
    lib_user l' = s \<and>
    (if res = 0
     then r = Inr (to_int32 (fst (lp_buf_copy lp
              \<lparr>bv_count = 1, bv_idx = 0, bv_off = 0, bv_buf = [\<lparr>fb_size = sz, fb_flags = 0, fb_mem = memp,
                 fb_fd = - 1, fb_pos = 0, fb_mem_size = 0\<rparr>]\<rparr> (Some (snd b)) 0 mem)))
     else r = Inr res \<and> mem' = mem)"
proof -
  have free: "lib_freed (fuse_log lv fm ar k) = lib_freed k" "lib_user (fuse_log lv fm ar k) = lib_user k"
    "lib_freed (debug_log fs fm ar k) = lib_freed k" "lib_user (debug_log fs fm ar k) = lib_user k"
    for lv fm ar and k :: "'a lib"
    by (simp_all add: fuse_log_def debug_log_def)
  show ?thesis
    using assms
    by (auto simp: fuse_fs_read_def read_via_buf_def run_op_def Let_def fuse_free_buf_def freed_by_def
        FUSE_BUFVEC_INIT_def free split: if_splits prod.splits)
qed

lemma wrappers_forward_witness:
  "fuse_fs_rmdir \<lparr>ff_op = null_operations\<lparr>op_rmdir := Some (\<lambda>p s. ((Inr 7, ()), Suc s))\<rparr>,
      ff_user_data = 5, ff_debug = False\<rparr> ''/d''
     \<lparr>lib_ctx = \<lparr>fc_fuse = 0, fc_uid = 0, fc_gid = 0, fc_pid = 0, fc_private_data = 0, fc_umask = 0\<rparr>,
      lib_log = [], lib_freed = [], lib_user = (0 :: nat)\<rparr> =
   (Inr 7, \<lparr>lib_ctx = \<lparr>fc_fuse = 0, fc_uid = 0, fc_gid = 0, fc_pid = 0, fc_private_data = 5, fc_umask = 0\<rparr>,
      lib_log = [], lib_freed = [], lib_user = 1\<rparr>)"
  using wrappers_forward [of "\<lparr>ff_op = null_operations\<lparr>op_rmdir := Some (\<lambda>p s. ((Inr 7, ()), Suc s))\<rparr>,
      ff_user_data = 5, ff_debug = False\<rparr>" _ "\<lparr>lib_ctx = \<lparr>fc_fuse = 0, fc_uid = 0, fc_gid = 0, fc_pid = 0,
        fc_private_data = 0, fc_umask = 0\<rparr>, lib_log = [], lib_freed = [], lib_user = (0 :: nat)\<rparr>"]
  by (simp add: set_context_def run_op_def no_out_def)

theorem fuse_fs_read_buf_frees_witness:
  "\<exists>r mem' l'. fuse_fs_read \<lparr>lp_file_info_string = (\<lambda>_. []), lp_buf_copy = (\<lambda>_ _ _ m. (1, m))\<rparr>
      \<lparr>ff_op = null_operations\<lparr>op_read_buf := Some (\<lambda>p sz off fi s.
          ((Inr 0, Some (99, (FUSE_BUFVEC_INIT 4)\<lparr>bv_buf := [(hd (bv_buf (FUSE_BUFVEC_INIT 4)))\<lparr>fb_mem := 77\<rparr>]\<rparr>)), s))\<rparr>,
       ff_user_data = 0, ff_debug = False\<rparr> ''/f'' 1000 [0] 1 0
      \<lparr>fi_flags = 0, fi_writepage = False, fi_direct_io = False, fi_keep_cache = False, fi_flush = False,
       fi_nonseekable = False, fi_flock_release = False, fi_cache_readdir = False, fi_noflush = False,
       fi_parallel_direct_writes = False, fi_fh = 0, fi_lock_owner = 0, fi_poll_events = 0,
       fi_backing_id = 0, fi_compat_flags = 0\<rparr>
      \<lparr>lib_ctx = \<lparr>fc_fuse = 0, fc_uid = 0, fc_gid = 0, fc_pid = 0, fc_private_data = 0, fc_umask = 0\<rparr>,
       lib_log = [], lib_freed = [], lib_user = ()\<rparr> = ((r, mem'), l') \<and> lib_freed l' = [77, 99]"
proof -
  let ?bv = "(FUSE_BUFVEC_INIT 4)\<lparr>bv_buf := [(hd (bv_buf (FUSE_BUFVEC_INIT 4)))\<lparr>fb_mem := 77\<rparr>]\<rparr>"
  let ?f = "\<lambda>p sz off fi s. ((Inr 0, Some (99 :: u64, ?bv)), s)"
  let ?lp = "\<lparr>lp_file_info_string = (\<lambda>_. []), lp_buf_copy = (\<lambda>_ _ _ m. (1, m))\<rparr>"
  let ?fs = "\<lparr>ff_op = null_operations\<lparr>op_read_buf := Some ?f\<rparr>, ff_user_data = 0, ff_debug = False\<rparr>"
  let ?fi = "\<lparr>fi_flags = 0, fi_writepage = False, fi_direct_io = False, fi_keep_cache = False, fi_flush = False,
       fi_nonseekable = False, fi_flock_release = False, fi_cache_readdir = False, fi_noflush = False,
       fi_parallel_direct_writes = False, fi_fh = 0, fi_lock_owner = 0, fi_poll_events = 0,
       fi_backing_id = 0, fi_compat_flags = 0\<rparr>"
  let ?l = "\<lparr>lib_ctx = \<lparr>fc_fuse = 0, fc_uid = 0, fc_gid = 0, fc_pid = 0, fc_private_data = 0, fc_umask = 0\<rparr>,
       lib_log = [], lib_freed = [], lib_user = ()\<rparr>"
  obtain r mem' l' where rd: "fuse_fs_read ?lp ?fs ''/f'' 1000 [0] 1 0 ?fi ?l = ((r, mem'), l')"
    by (metis prod.collapse)
  have "lib_freed l' = [77, 99]"
    using fuse_fs_read_buf_frees [of ?fs ?f "''/f''" 1 0 ?fi ?l 0 "(99, ?bv)" "()" ?lp 1000 "[0]" r mem' l'] rd
    by (simp add: FUSE_BUFVEC_INIT_def)
  with rd show ?thesis by blast
qed

end
