(* ===== verification/Fuse_Main.thy ===== *)
theory Fuse_Main
  imports Cache_Manager Fuse_Ops "HOL-Library.List_Lexorder" "HOL-Library.Char_ord"
begin

text \<open>
  \<^verbatim>\<open>fuse/fuse.cc\<close>: the file system program.  Its five static variables, the process-wide
  backend and the cache with the outside world form the record \<open>prog\<close>; every handler of the
  operation table maps it.  A path argument is a pointer: \<open>Literal_slash\<close> is the address of a
  string literal of the program, \<open>Chars s\<close> any other buffer, so that \<open>path == "/"\<close> compares
  what the code compares.  libfuse passes buffers of its own.  What the code takes from the system
  (permissions, link counts, free space, the bytes of an object read under another type) is the
  parameter \<open>fe\<close>; \<open>fuse_main\<close>, which runs the session, is a parameter of \<open>fs_main\<close>.
\<close>

section \<open>State\<close>

datatype cptr = Literal_slash | Chars string

fun chars_of :: "cptr \<Rightarrow> string" where
  "chars_of Literal_slash = ''/''"
| "chars_of (Chars s) = s"

record ('db, 'w) prog =
  pg_dataBackend :: "HttpBackend option"
  pg_apiBackend :: "HttpBackend option"
  pg_cacheDirectory :: string
  pg_fileRemoteDirectory :: string
  pg_httpMode :: bool
  pg_backend :: g_backend
  pg_cache :: "('db, 'w) gstate"

record fenv =
  fe_perm :: "key \<Rightarrow> u32"
  fe_nlink :: "key \<Rightarrow> u64"
  fe_dirsize :: "key \<Rightarrow> u64"
  fe_size_field :: "u64 \<Rightarrow> u64"
  fe_statvfs :: "key \<Rightarrow> statvfsbuf"

definition pg_fs :: "('db, 'w) prog \<Rightarrow> fsys" where
  "pg_fs p = w_fs (g_world (pg_cache p))"

definition set_fs :: "fsys \<Rightarrow> ('db, 'w) prog \<Rightarrow> ('db, 'w) prog" where
  "set_fs fs p = p\<lparr>pg_cache := (pg_cache p)\<lparr>g_world := (g_world (pg_cache p))\<lparr>w_fs := fs\<rparr>\<rparr>\<rparr>"

definition set_net :: "'w \<Rightarrow> ('db, 'w) prog \<Rightarrow> ('db, 'w) prog" where
  "set_net net p = p\<lparr>pg_cache := (pg_cache p)\<lparr>g_world := (g_world (pg_cache p))\<lparr>w_net := net\<rparr>\<rparr>\<rparr>"

text \<open>The environment with the backend the process has at this moment.\<close>

definition cur_env :: "('db, 'w) env \<Rightarrow> ('db, 'w) prog \<Rightarrow> ('db, 'w) env" where
  "cur_env ev p = ev\<lparr>ev_backend := pg_backend p\<rparr>"

definition backend_download ::
    "('db, 'w) env \<Rightarrow> HttpBackend option \<Rightarrow> string \<Rightarrow> bytes \<Rightarrow> u64 \<Rightarrow> u64 \<Rightarrow> ('db, 'w) prog
      \<Rightarrow> (exn + int \<times> bytes) \<times> ('db, 'w) prog" where
  "backend_download ev be path buf sz off p =
     (case be of
        None \<Rightarrow> (Inl Undefined_behaviour, p)
      | Some b \<Rightarrow>
          (case download (ev_cu ev) b path buf sz off (w_net (g_world (pg_cache p))) of
             (n, buf', net) \<Rightarrow> (Inr (n, buf'), set_net net p)))"

section \<open>Paths\<close>

text \<open>The statement \<open>path + 1;\<close> has no effect, and \<open>back()\<close> of an empty string is
  undefined.  The directory is changed in place.\<close>

definition append_path :: "cptr \<Rightarrow> string \<Rightarrow> (exn + string) \<times> string" where
  "append_path path dir =
     (if path = Literal_slash then (Inr dir, dir)
      else if dir = [] then (Inl Undefined_behaviour, dir)
      else let dir' = (if last dir \<noteq> CHR ''/'' then butlast dir @ ''/'' else dir)
           in (Inr (dir' @ chars_of path), dir'))"

definition realCachePath :: "cptr \<Rightarrow> ('db, 'w) prog \<Rightarrow> (exn + string) \<times> ('db, 'w) prog" where
  "realCachePath path p =
     (case append_path path (pg_cacheDirectory p) of (r, d) \<Rightarrow> (r, p\<lparr>pg_cacheDirectory := d\<rparr>))"

definition realFilePath :: "cptr \<Rightarrow> ('db, 'w) prog \<Rightarrow> (exn + string) \<times> ('db, 'w) prog" where
  "realFilePath path p =
     (case append_path path (pg_fileRemoteDirectory p) of (r, d) \<Rightarrow> (r, p\<lparr>pg_fileRemoteDirectory := d\<rparr>))"

section \<open>Scanning JSON\<close>

definition QUOTE :: char where "QUOTE = CHR 0x22"

definition quoted :: "string \<Rightarrow> string" where "quoted s = QUOTE # s @ [QUOTE]"

definition is_space :: "char \<Rightarrow> bool" where
  "is_space c \<longleftrightarrow> c \<in> {CHR 0x20, CHR 0x09, CHR 0x0A, CHR 0x0B, CHR 0x0C, CHR 0x0D}"

definition is_digit :: "char \<Rightarrow> bool" where
  "is_digit c \<longleftrightarrow> 48 \<le> (of_char c :: nat) \<and> (of_char c :: nat) \<le> 57"

text \<open>\<open>while (pos < json.size() && P(json[pos])) pos += 1\<close>.\<close>

definition skip_while :: "(char \<Rightarrow> bool) \<Rightarrow> string \<Rightarrow> nat \<Rightarrow> nat" where
  "skip_while P s pos = pos + length (takeWhile P (drop pos s))"

lemma skip_while_ge: "pos \<le> skip_while P s pos"
  by (simp add: skip_while_def)

text \<open>\<open>out\<close> is a \<open>std::set\<close>: a sorted list without repetitions.\<close>

function json_names :: "string \<Rightarrow> nat \<Rightarrow> string list \<Rightarrow> string list" where
  "json_names json pos out =
     (case str_find json (quoted ''name'') pos of
        None \<Rightarrow> out
      | Some p1 \<Rightarrow>
          (case str_find json '':'' p1 of
             None \<Rightarrow> out
           | Some p2 \<Rightarrow>
               (let p3 = skip_while is_space json (p2 + 1) in
                if p3 \<ge> length json \<or> json ! p3 \<noteq> QUOTE then json_names json p3 out
                else case str_find json [QUOTE] (p3 + 1) of
                  None \<Rightarrow> out
                | Some e \<Rightarrow>
                    json_names json (e + 1) (insort_insert (slice (p3 + 1) (e - (p3 + 1)) json) out))))"
  by pat_completeness auto
termination
proof (relation "measure (\<lambda>(json, pos, out). length json + 1 - pos)", goal_cases)
  case 1
  then show ?case by simp
next
  case (2 json pos out p1 p2 p3)
  then have "pos \<le> p1" "p1 \<le> p2" "p2 + 1 \<le> length json"
    using str_find_Some [of json "quoted ''name''" pos p1] str_find_Some [of json "'':''" p1 p2] by auto
  then show ?case using 2(3) skip_while_ge [of "p2 + 1" is_space json] by simp
next
  case (3 json pos out p1 p2 p3 e)
  then have "pos \<le> p1" "p1 \<le> p2" "p3 + 1 \<le> e" "e + 1 \<le> length json"
    using str_find_Some [of json "quoted ''name''" pos p1] str_find_Some [of json "'':''" p1 p2]
      str_find_Some [of json "[QUOTE]" "p3 + 1" e] by auto
  then show ?case using 3(3) skip_while_ge [of "p2 + 1" is_space json] by simp
qed

declare json_names.simps [simp del]

definition findJsonNames :: "string \<Rightarrow> string list \<Rightarrow> string list" where
  "findJsonNames json out = json_names json 0 out"

text \<open>\<open>stoi\<close> of a string of digits: empty is an invalid argument, a value past \<open>INT_MAX\<close> out
  of range.\<close>

definition stoi :: "string \<Rightarrow> exn + u64" where
  "stoi ds =
     (if ds = [] then Inl Invalid_argument
      else if of_dec ds > 2147483647 then Inl Out_of_range
      else Inr (of_nat (of_dec ds)))"

definition parse_size :: "string \<Rightarrow> exn + u64" where
  "parse_size json =
     (case str_find json (quoted ''size'') 0 of
        None \<Rightarrow> Inr 0
      | Some p \<Rightarrow>
          (case str_find json '':'' p of
             None \<Rightarrow> Inr 0
           | Some c \<Rightarrow>
               (let start = skip_while (\<lambda>x. \<not> is_digit x) json (c + 1);
                    pos = skip_while is_digit json start
                in stoi (slice start (pos - start) json))))"

definition parse_is_directory :: "string \<Rightarrow> bool" where
  "parse_is_directory json =
     (case str_find json (quoted ''is_directory'') 0 of
        None \<Rightarrow> False
      | Some p \<Rightarrow>
          (case str_find json '':'' p of
             None \<Rightarrow> False
           | Some c \<Rightarrow> str_find json ''true'' c \<noteq> None))"

definition chars_of_bytes :: "bytes \<Rightarrow> string" where
  "chars_of_bytes bs = map (\<lambda>b. char_of (unat b)) bs"

text \<open>\<open>Inr None\<close> is the return value \<open>false\<close>.\<close>

definition getFileInfo ::
    "('db, 'w) env \<Rightarrow> cptr \<Rightarrow> ('db, 'w) prog \<Rightarrow> (exn + (bool \<times> u64) option) \<times> ('db, 'w) prog" where
  "getFileInfo ev path p =
     (case backend_download ev (pg_apiBackend p) (''/info'' @ chars_of path) (replicate 1024 0) 1024 0 p of
        (Inl e, p1) \<Rightarrow> (Inl e, p1)
      | (Inr (n, buf), p1) \<Rightarrow>
          (if n < 0 then (Inr None, p1)
           else let json = chars_of_bytes (take (nat n) buf) in
                case parse_size json of
                  Inl e \<Rightarrow> (Inl e, p1)
                | Inr sz \<Rightarrow> (Inr (Some (parse_is_directory json, sz)), p1)))"

section \<open>Attributes\<close>

definition S_IFDIR :: u32 where "S_IFDIR = 0x4000"

definition S_IFREG :: u32 where "S_IFREG = 0x8000"

definition zero_stat :: statbuf where
  "zero_stat = \<lparr>st_mode = 0, st_nlink = 0, st_size = 0\<rparr>"

definition sys_stat :: "fenv \<Rightarrow> string \<Rightarrow> fsys \<Rightarrow> int + statbuf" where
  "sys_stat fe path fs =
     (let k = resolve fs path in
      if path = [] then Inl ENOENT
      else case lookup fs k of
        None \<Rightarrow> Inl ENOENT
      | Some Dir \<Rightarrow> Inr \<lparr>st_mode = S_IFDIR OR fe_perm fe k, st_nlink = fe_nlink fe k, st_size = fe_dirsize fe k\<rparr>
      | Some (File bs) \<Rightarrow>
          Inr \<lparr>st_mode = S_IFREG OR fe_perm fe k, st_nlink = fe_nlink fe k, st_size = of_nat (length bs)\<rparr>)"

text \<open>The entry the cache returns is a \<open>CacheEntry\<close>, read as the C struct \<open>cache_entry\<close>: its
  size is whatever bytes the object has there.\<close>

definition getAttribute ::
    "('db, 'w) env \<Rightarrow> fenv \<Rightarrow> cptr \<Rightarrow> ('db, 'w) prog \<Rightarrow> ((exn + int) \<times> statbuf) \<times> ('db, 'w) prog" where
  "getAttribute ev fe path p =
     (if path = Literal_slash then
        ((Inr 0, zero_stat\<lparr>st_mode := S_IFDIR OR 493, st_nlink := 2\<rparr>), p)
      else if pg_fileRemoteDirectory p \<noteq> [] then
        (case realFilePath path p of
           (Inl e, p1) \<Rightarrow> ((Inl e, zero_stat), p1)
         | (Inr rp, p1) \<Rightarrow>
             (case sys_stat fe rp (pg_fs p1) of
                Inl _ \<Rightarrow> ((Inr (- 1), zero_stat), p1)
              | Inr st \<Rightarrow> ((Inr 0, st), p1)))
      else if pg_httpMode p then
        (case getFileInfo ev path p of
           (Inl e, p1) \<Rightarrow> ((Inl e, zero_stat), p1)
         | (Inr None, p1) \<Rightarrow> ((Inr (- 1), zero_stat), p1)
         | (Inr (Some (isDirectory, fsize)), p1) \<Rightarrow>
             ((Inr 0,
               if isDirectory then zero_stat\<lparr>st_mode := S_IFDIR OR 493, st_nlink := 2\<rparr>
               else \<lparr>st_mode = S_IFREG OR 420, st_nlink = 1, st_size = fsize\<rparr>), p1))
      else
        (case (if \<not> cache_has_valid_entry (pg_cache p) (chars_of path)
               then (case backend_download ev (pg_dataBackend p) (chars_of path) [0] 0 0 p of
                       (Inl e, p1) \<Rightarrow> (Inl e, p1)
                     | (Inr (n, _), p1) \<Rightarrow> (Inr (n < 0), p1))
               else (Inr False, p)) of
           (Inl e, p1) \<Rightarrow> ((Inl e, zero_stat), p1)
         | (Inr True, p1) \<Rightarrow> ((Inr (- 1), zero_stat), p1)
         | (Inr False, p1) \<Rightarrow>
             (case cache_get_entry (pg_cache p1) (chars_of path) of
                None \<Rightarrow> ((Inr (- 1), zero_stat), p1)
              | Some a \<Rightarrow>
                  ((Inr 0, \<lparr>st_mode = S_IFREG OR 420, st_nlink = 1, st_size = fe_size_field fe a\<rparr>), p1))))"

definition getStats ::
    "fenv \<Rightarrow> cptr \<Rightarrow> statvfsbuf \<Rightarrow> ('db, 'w) prog \<Rightarrow> ((exn + int) \<times> statvfsbuf) \<times> ('db, 'w) prog" where
  "getStats fe path stbuf p =
     (if fs_exists (pg_fs p) (pg_cacheDirectory p)
      then ((Inr 0, fe_statvfs fe (resolve (pg_fs p) (pg_cacheDirectory p))), p)
      else ((Inr (- 1), stbuf), p))"

section \<open>Directories\<close>

text \<open>\<open>opendir\<close> and \<open>readdir\<close>: the names in a directory other than the two dots.\<close>

definition dir_names :: "fsys \<Rightarrow> string \<Rightarrow> string list" where
  "dir_names fs path =
     (if path \<noteq> [] \<and> lookup fs (resolve fs path) = Some Dir \<and> deny fs (resolve fs path) = None
      then map last (children fs (resolve fs path)) else [])"

definition insert_names :: "string list \<Rightarrow> string list \<Rightarrow> string list" where
  "insert_names names out = fold insort_insert names out"

text \<open>The names passed to \<open>filler\<close>, in order.\<close>

definition readDirectory ::
    "('db, 'w) env \<Rightarrow> cptr \<Rightarrow> ('db, 'w) prog \<Rightarrow> ((exn + int) \<times> string list) \<times> ('db, 'w) prog" where
  "readDirectory ev path p =
     (if path \<noteq> Literal_slash then ((Inr (- 1), []), p)
      else
        (case (if pg_fileRemoteDirectory p \<noteq> []
               then (Inr (insert_names (dir_names (pg_fs p) (pg_fileRemoteDirectory p)) []), p)
               else if pg_httpMode p
               then (case backend_download ev (pg_apiBackend p) (''/list'' @ chars_of path)
                            (replicate 65536 0) 65536 0 p of
                       (Inl e, p1) \<Rightarrow> (Inl e, p1)
                     | (Inr (n, buf), p1) \<Rightarrow>
                         (Inr (if n > 0 then findJsonNames (chars_of_bytes (take (nat n) buf)) [] else []), p1))
               else (Inr [], p)) of
           (Inl e, p1) \<Rightarrow> ((Inl e, [''.'', ''..'']), p1)
         | (Inr directories, p1) \<Rightarrow>
             ((Inr 0, [''.'', ''..''] @
                 insert_names (dir_names (pg_fs p1) (pg_cacheDirectory p1)) directories), p1)))"

text \<open>A system call that returns -1 makes the handler return -1.\<close>

definition makeDirectory :: "cptr \<Rightarrow> u32 \<Rightarrow> ('db, 'w) prog \<Rightarrow> ((exn + int) \<times> unit) \<times> ('db, 'w) prog" where
  "makeDirectory path mode p =
     (case realCachePath path p of
        (Inl e, p1) \<Rightarrow> ((Inl e, ()), p1)
      | (Inr rp, p1) \<Rightarrow>
          (case sys_mkdir rp (pg_fs p1) of
             (Some _, fs) \<Rightarrow> ((Inr (- 1), ()), set_fs fs p1)
           | (None, fs) \<Rightarrow> ((Inr 0, ()), set_fs fs p1)))"

definition removeDirectory :: "cptr \<Rightarrow> ('db, 'w) prog \<Rightarrow> ((exn + int) \<times> unit) \<times> ('db, 'w) prog" where
  "removeDirectory path p =
     (case realCachePath path p of
        (Inl e, p1) \<Rightarrow> ((Inl e, ()), p1)
      | (Inr rp, p1) \<Rightarrow>
          (case sys_rmdir rp (pg_fs p1) of
             (Some _, fs) \<Rightarrow> ((Inr (- 1), ()), set_fs fs p1)
           | (None, fs) \<Rightarrow> ((Inr 0, ()), set_fs fs p1)))"

definition removeFile :: "cptr \<Rightarrow> ('db, 'w) prog \<Rightarrow> ((exn + int) \<times> unit) \<times> ('db, 'w) prog" where
  "removeFile path p =
     (case realCachePath path p of
        (Inl e, p1) \<Rightarrow> ((Inl e, ()), p1)
      | (Inr rp, p1) \<Rightarrow>
          (case sys_unlink rp (pg_fs p1) of
             (Some _, fs) \<Rightarrow> ((Inr (- 1), ()), set_fs fs p1)
           | (None, fs) \<Rightarrow> ((Inr 0, ()), set_fs fs p1)))"

definition openFile :: "cptr \<Rightarrow> 'o \<Rightarrow> ('db, 'w) prog \<Rightarrow> ((exn + int) \<times> 'o) \<times> ('db, 'w) prog" where
  "openFile path fi p = ((Inr 0, fi), p)"

definition createFile :: "cptr \<Rightarrow> u32 \<Rightarrow> 'o \<Rightarrow> ('db, 'w) prog \<Rightarrow> ((exn + int) \<times> 'o) \<times> ('db, 'w) prog" where
  "createFile path mode fi p = ((Inr 0, fi), p)"

section \<open>Data\<close>

definition readFile ::
    "('db, 'w) env \<Rightarrow> cptr \<Rightarrow> bytes \<Rightarrow> u64 \<Rightarrow> u64 \<Rightarrow> ('db, 'w) prog
      \<Rightarrow> ((exn + int) \<times> bytes) \<times> ('db, 'w) prog" where
  "readFile ev path buf sz off p =
     (if pg_fileRemoteDirectory p \<noteq> [] then
        (case realFilePath path p of
           (Inl e, p1) \<Rightarrow> ((Inl e, buf), p1)
         | (Inr rp, p1) \<Rightarrow>
             (case sys_open rp [O_RDONLY] (pg_fs p1) of
                (Inl _, fs1) \<Rightarrow> ((Inr (- 1), buf), set_fs fs1 p1)
              | (Inr fd, fs1) \<Rightarrow>
                  (case sys_pread fd (unat sz) (sint off) fs1 of
                     Inl _ \<Rightarrow> ((Inr (- 1), buf), set_fs fs1 p1)
                   | Inr d \<Rightarrow>
                       (let buf' = splice buf 0 d;
                            p2 = set_fs fs1 p1
                        in case cache_store_file (cur_env ev p2) (chars_of path) buf' (of_nat (length d)) off
                                  (pg_cache p2) of
                             (Inl e, g) \<Rightarrow> ((Inl e, buf'), p2\<lparr>pg_cache := g\<rparr>)
                           | (Inr _, g) \<Rightarrow> ((Inr (to_int32 (int (length d))), buf'), p2\<lparr>pg_cache := g\<rparr>)))))
      else
        (case backend_download ev (pg_dataBackend p) (chars_of path) buf sz off p of
           (Inl e, p1) \<Rightarrow> ((Inl e, buf), p1)
         | (Inr (n, buf'), p1) \<Rightarrow> ((Inr (if n < 0 then - 1 else to_int32 n), buf'), p1)))"

definition writeFile ::
    "('db, 'w) env \<Rightarrow> cptr \<Rightarrow> bytes \<Rightarrow> u64 \<Rightarrow> u64 \<Rightarrow> ('db, 'w) prog
      \<Rightarrow> ((exn + int) \<times> unit) \<times> ('db, 'w) prog" where
  "writeFile ev path buf sz off p =
     (if pg_fileRemoteDirectory p \<noteq> [] then
        (case realFilePath path p of
           (Inl e, p1) \<Rightarrow> ((Inl e, ()), p1)
         | (Inr rp, p1) \<Rightarrow>
             (case sys_open rp [O_CREAT, O_WRONLY] (pg_fs p1) of
                (Inl _, fs1) \<Rightarrow> ((Inr (- 1), ()), set_fs fs1 p1)
              | (Inr fd, fs1) \<Rightarrow>
                  (case sys_pwrite fd (take (unat sz) buf) (sint off) fs1 of
                     (Inl _, fs2) \<Rightarrow> ((Inr (- 1), ()), set_fs fs2 p1)
                   | (Inr n, fs2) \<Rightarrow> ((Inr (to_int32 (int n)), ()), set_fs fs2 p1))))
      else
        (case pg_dataBackend p of
           None \<Rightarrow> ((Inl Undefined_behaviour, ()), p)
         | Some b \<Rightarrow>
             (case upload (ev_cu ev) b (chars_of path) buf sz off (w_net (g_world (pg_cache p))) of
                (n, net) \<Rightarrow> ((Inr (if n < 0 then - 1 else to_int32 n), ()), set_net net p))))"

definition releaseFiles :: "cptr \<Rightarrow> ('db, 'w) prog \<Rightarrow> ((exn + int) \<times> unit) \<times> ('db, 'w) prog" where
  "releaseFiles path p =
     (case cache_apply_eviction (pg_cache p) of
        (Inl e, g) \<Rightarrow> ((Inl e, ()), p\<lparr>pg_cache := g\<rparr>)
      | (Inr _, g) \<Rightarrow> ((Inr 0, ()), p\<lparr>pg_cache := g\<rparr>))"

section \<open>The program\<close>

definition zero_statvfs :: statvfsbuf where
  "zero_statvfs = \<lparr>f_bsize = 0, f_blocks = 0, f_bfree = 0\<rparr>"

text \<open>The table of \<open>main\<close>.  libfuse calls every handler with a path of its own.\<close>

definition operations :: "('db, 'w) env \<Rightarrow> fenv \<Rightarrow> ('db, 'w) prog fuse_operations" where
  "operations ev fe = null_operations
     \<lparr>op_getattr := Some (\<lambda>path fi. getAttribute ev fe (Chars path)),
      op_mkdir := Some (\<lambda>path mode. makeDirectory (Chars path) mode),
      op_unlink := Some (\<lambda>path. removeFile (Chars path)),
      op_rmdir := Some (\<lambda>path. removeDirectory (Chars path)),
      op_open := Some (\<lambda>path fi. openFile (Chars path) fi),
      op_read := Some (\<lambda>path buf sz off fi. readFile ev (Chars path) buf sz off),
      op_write := Some (\<lambda>path buf sz off fi. writeFile ev (Chars path) buf sz off),
      op_statfs := Some (\<lambda>path. getStats fe (Chars path) zero_statvfs),
      op_release := Some (\<lambda>path fi. releaseFiles (Chars path)),
      op_readdir := Some (\<lambda>path off fi flags. readDirectory ev (Chars path)),
      op_create := Some (\<lambda>path mode fi. createFile (Chars path) mode fi)\<rparr>"

text \<open>\<open>fuse_main_real_versioned\<close>, the library's session loop, is the parameter \<open>run\<close>.  The
  table has 42 pointers of eight bytes.\<close>

type_synonym 's fuse_runner =
  "int \<Rightarrow> string list \<Rightarrow> 's fuse_operations \<Rightarrow> u64 \<Rightarrow> libfuse_version \<Rightarrow> u64 \<Rightarrow> 's \<Rightarrow> (exn + int) \<times> 's"

definition fuse_main_fn ::
    "'s fuse_runner \<Rightarrow> int \<Rightarrow> string list \<Rightarrow> 's fuse_operations \<Rightarrow> u64 \<Rightarrow> 's \<Rightarrow> (exn + int) \<times> 's" where
  "fuse_main_fn run argc argv op user_data s =
     run argc argv op (42 * 8)
       \<lparr>lv_major = of_nat FUSE_MAJOR_VERSION, lv_minor = of_nat FUSE_MINOR_VERSION,
        lv_hotfix = of_nat FUSE_HOTFIX_VERSION, lv_padding = 0\<rparr>
       user_data s"

text \<open>The two other inline entry points of the header, which the program does not call: the deprecated
  \<open>fuse_main_real\<close>, which complains to the log first, and \<open>fuse_new_fn\<close>, which chooses one of
  two library functions by the version the program was compiled for.\<close>

definition fuse_main_real ::
    "'s lib fuse_runner \<Rightarrow> int \<Rightarrow> string list \<Rightarrow> 's lib fuse_operations \<Rightarrow> u64 \<Rightarrow> u64 \<Rightarrow> 's lib
      \<Rightarrow> (exn + int) \<times> 's lib" where
  "fuse_main_real run argc argv op op_size user_data s =
     run argc argv op op_size
       \<lparr>lv_major = of_nat FUSE_MAJOR_VERSION, lv_minor = of_nat FUSE_MINOR_VERSION,
        lv_hotfix = of_nat FUSE_HOTFIX_VERSION, lv_padding = 0\<rparr>
       user_data
       (fuse_log FUSE_LOG_ERR (''%s is a libfuse internal function, please use fuse_main()'' @ [CHR 0x0A])
          [LStr ''fuse_main_real''] s)"

type_synonym 's fuse_maker =
  "fuse_args \<Rightarrow> 's fuse_operations \<Rightarrow> u64 \<Rightarrow> libfuse_version \<Rightarrow> u64 \<Rightarrow> 's \<Rightarrow> u64 option \<times> 's"

definition fuse_new_fn ::
    "nat \<Rightarrow> 's fuse_maker \<Rightarrow> 's fuse_maker \<Rightarrow> fuse_args \<Rightarrow> 's fuse_operations \<Rightarrow> u64 \<Rightarrow> u64 \<Rightarrow> 's
      \<Rightarrow> u64 option \<times> 's" where
  "fuse_new_fn use_version fuse_new_30 fuse_new_31 args op op_size user_data s =
     (let version = \<lparr>lv_major = of_nat FUSE_MAJOR_VERSION, lv_minor = of_nat FUSE_MINOR_VERSION,
                     lv_hotfix = of_nat FUSE_HOTFIX_VERSION, lv_padding = 0\<rparr>
      in if use_version = 30 then fuse_new_30 args op op_size version user_data s
         else fuse_new_31 args op op_size version user_data s)"

text \<open>Called with the size of the table, the deprecated entry point differs from the one in use only
  by the message in the log.\<close>

lemma fuse_main_real_eq:
  "fuse_main_real run argc argv op 336 user_data s =
   fuse_main_fn run argc argv op user_data
     (fuse_log FUSE_LOG_ERR (''%s is a libfuse internal function, please use fuse_main()'' @ [CHR 0x0A])
        [LStr ''fuse_main_real''] s)"
  by (simp add: fuse_main_real_def fuse_main_fn_def)

text \<open>\<open>realpath\<close> into a buffer of 4096 bytes.\<close>

definition key_text :: "key \<Rightarrow> string" where
  "key_text k = (if k = [] then ''/'' else concat (map (\<lambda>c. CHR ''/'' # c) k))"

definition sys_realpath :: "string \<Rightarrow> fsys \<Rightarrow> string option" where
  "sys_realpath path fs =
     (let r = key_text (resolve fs path)
      in if fs_exists fs path \<and> length r < 4096 then Some r else None)"

definition cache_dir_path :: "string \<Rightarrow> ('db, 'w) prog \<Rightarrow> string option \<times> ('db, 'w) prog" where
  "cache_dir_path a p =
     (case sys_realpath a (pg_fs p) of
        Some r \<Rightarrow> (Some r, p)
      | None \<Rightarrow>
          (case sys_mkdir a (pg_fs p) of
             (Some _, fs) \<Rightarrow> (None, set_fs fs p)
           | (None, fs) \<Rightarrow> (sys_realpath a fs, set_fs fs p)))"

definition api_base :: "string \<Rightarrow> string" where
  "api_base url =
     (case str_find url ''/api/data'' 0 of
        Some pos \<Rightarrow> take pos url @ ''/api''
      | None \<Rightarrow> url)"

text \<open>The part of \<open>main\<close> between \<open>cache_init\<close> and the table; the result says whether it goes
  on.\<close>

definition open_backends :: "string \<Rightarrow> ('db, 'w) prog \<Rightarrow> bool \<times> ('db, 'w) prog" where
  "open_backends url p =
     (case (if prefix ''file://'' url then (True, p\<lparr>pg_fileRemoteDirectory := drop 7 url\<rparr>)
            else if prefix ''http://'' url \<or> prefix ''https://'' url then
              (case create_backend (api_base url) (pg_backend p) of
                 (be, g) \<Rightarrow>
                   (be \<noteq> None, p\<lparr>pg_httpMode := True, pg_apiBackend := be, pg_backend := g\<rparr>))
            else (True, p)) of
        (False, p1) \<Rightarrow> (False, p1)
      | (True, p1) \<Rightarrow>
          (case create_backend url (pg_backend p1) of
             (be, g) \<Rightarrow> (be \<noteq> None, p1\<lparr>pg_dataBackend := be, pg_backend := g\<rparr>)))"

text \<open>\<open>argv\<close> has \<open>argc\<close> strings and then a null pointer, from which \<open>realpath\<close> and
  \<open>mkdir\<close> fail and no \<open>string\<close> can be made.\<close>

definition fs_main ::
    "('db, 'w) env \<Rightarrow> fenv \<Rightarrow> ('db, 'w) prog fuse_runner \<Rightarrow> string list \<Rightarrow> ('db, 'w) prog
      \<Rightarrow> (exn + int) \<times> ('db, 'w) prog" where
  "fs_main ev fe run argv p =
     (if length argv = 0 then (Inl Undefined_behaviour, p)
      else if length argv = 1 then (Inr (- 1), p)
      else case cache_dir_path (argv ! 1) p of
        (None, p1) \<Rightarrow> (Inr (- 1), p1)
      | (Some r, p1) \<Rightarrow>
          (let p2 = p1\<lparr>pg_cacheDirectory := r\<rparr> in
           case cache_init (cur_env ev p2) r 60 (pg_cache p2) of
             (rc, g) \<Rightarrow>
               (let p3 = p2\<lparr>pg_cache := g\<rparr> in
                if rc \<noteq> 0 then (Inr (- 1), p3)
                else if length argv = 2 then (Inl Undefined_behaviour, p3)
                else case open_backends (argv ! 2) p3 of
                  (False, p4) \<Rightarrow> (Inr (- 1), p4)
                | (True, p4) \<Rightarrow>
                    (let args = FUSE_ARGS_INIT (int (length argv) - 2) (drop 2 argv) in
                     case fuse_main_fn run (fa_argc args) (fa_argv args) (operations ev fe) 0 p4 of
                       (Inl e, p5) \<Rightarrow> (Inl e, p5)
                     | (Inr ret, p5) \<Rightarrow>
                         (case cache_cleanup (pg_cache p5) of
                            (Inl e, g') \<Rightarrow> (Inl e, p5\<lparr>pg_cache := g'\<rparr>)
                          | (Inr _, g') \<Rightarrow> (Inr ret, p5\<lparr>pg_cache := g'\<rparr>))))))"

end
