(* ===== verification/Fuse_Json.thy ===== *)
theory Fuse_Json
  imports Fuse_Main
begin

text \<open>
  What the JSON scanners of \<^verbatim>\<open>fuse/fuse.cc\<close> find in the answers of the server: a listing, whose
  entries start with \<open>{"name": "..."\<close>, and the information on a file.
\<close>

text \<open>An entry of a listing: a name and the text that follows its closing quote.\<close>

definition list_entry :: "string \<times> string \<Rightarrow> string" where
  "list_entry = (\<lambda>(name, tail). ''{'' @ quoted ''name'' @ '': '' @ quoted name @ tail)"

definition occurs :: "string \<Rightarrow> string \<Rightarrow> bool" where
  "occurs p s \<longleftrightarrow> (\<exists>k \<le> length s. prefix p (drop k s))"

definition entry_text :: "string \<times> string \<Rightarrow> bool" where
  "entry_text = (\<lambda>(name, tail). QUOTE \<notin> set name \<and> \<not> occurs (quoted ''name'') tail)"

section \<open>Searching\<close>

lemma occurs_simps [simp]:
  "occurs p [] \<longleftrightarrow> p = []"
  "occurs p (c # s) \<longleftrightarrow> prefix p (c # s) \<or> occurs p s"
proof -
  show "occurs p [] \<longleftrightarrow> p = []" by (simp add: occurs_def)
  show "occurs p (c # s) \<longleftrightarrow> prefix p (c # s) \<or> occurs p s"
    unfolding occurs_def by (metis Suc_le_mono drop_0 drop_Suc_Cons length_Cons not0_implies_Suc zero_le)
qed

lemma find_from_skip:
  "\<forall>k < length t. \<not> prefix p (drop k (t @ s)) \<Longrightarrow> find_from p i (t @ s) = find_from p (i + length t) s"
proof (induction t arbitrary: i)
  case (Cons c t)
  have "\<not> prefix p (c # t @ s)" using Cons.prems [rule_format, of 0] by simp
  moreover have "\<forall>k < length t. \<not> prefix p (drop k (t @ s))"
    using Cons.prems by (metis Suc_less_eq append_Cons drop_Suc_Cons length_Cons)
  ultimately show ?case using Cons.IH [of "Suc i"] by simp
qed simp

lemma find_from_prefix: "prefix p s \<Longrightarrow> find_from p i s = Some i"
  by (cases s) auto

lemma str_find_at:
  "\<forall>k < length t. \<not> prefix p (drop k (t @ s)) \<Longrightarrow> prefix p s \<Longrightarrow>
   str_find (a @ t @ s) p (length a) = Some (length a + length t)"
  by (simp add: str_find_def find_from_skip find_from_prefix)

lemma str_find_absent:
  "\<not> occurs p s \<Longrightarrow> str_find (a @ s) p (length a) = None"
proof -
  assume no: "\<not> occurs p s"
  have "find_from p i s = None" for i
  proof (cases "find_from p i s")
    case (Some j)
    with find_from_Some [OF this] no show ?thesis by (auto simp: occurs_def)
  qed
  then show ?thesis by (simp add: str_find_def)
qed

lemma prefix_single: "prefix [c] (drop k s) \<Longrightarrow> k < length s \<Longrightarrow> s ! k = c"
  by (cases "drop k s") (auto simp: nth_via_drop)

lemma str_find_char:
  "c \<notin> set t \<Longrightarrow> str_find (a @ t @ c # s) [c] (length a) = Some (length a + length t)"
proof (rule str_find_at)
  assume "c \<notin> set t"
  then show "\<forall>k < length t. \<not> prefix [c] (drop k (t @ c # s))"
    by (metis nth_append nth_mem prefix_single length_append trans_less_add1)
qed simp

text \<open>An occurrence of a pattern without the character \<open>c\<close> does not reach over a \<open>c\<close>.\<close>

lemma no_straddle:
  assumes "\<not> occurs p t" and "c \<notin> set p" and "k < length t"
  shows "\<not> prefix p (drop k (t @ c # s))"
proof
  assume pre: "prefix p (drop k (t @ c # s))"
  then have eq: "p = take (length p) (drop k t @ c # s)"
    using assms(3) by (metis append_eq_conv_conj diff_is_0_eq drop0 drop_append less_imp_le_nat prefix_def)
  show False
  proof (cases "length p \<le> length (drop k t)")
    case True
    with eq have "p = take (length p) (drop k t)" by simp
    with assms show False by (metis less_imp_le_nat occurs_def take_is_prefix)
  next
    case False
    then have "c \<in> set (take (length p) (drop k t @ c # s))"
      by (cases "length p - length (drop k t)") auto
    with eq assms(2) show False by simp
  qed
qed

lemma skip_while_at:
  "\<forall>c \<in> set t. P c \<Longrightarrow> (s \<noteq> [] \<longrightarrow> \<not> P (hd s)) \<Longrightarrow>
   skip_while P (a @ t @ s) (length a) = length a + length t"
  by (cases s) (auto simp: skip_while_def takeWhile_tail takeWhile_eq_all_conv [THEN iffD2])

section \<open>Listings\<close>

lemma quoted_name: "quoted ''name'' = [QUOTE, CHR ''n'', CHR ''a'', CHR ''m'', CHR ''e'', QUOTE]"
  by (simp add: quoted_def)

lemma length_quoted [simp]: "length (quoted s) = length s + 2"
  by (simp add: quoted_def)

lemma hd_quoted [simp]: "hd (quoted s @ t) = QUOTE"
  by (simp add: quoted_def)

lemma char_facts:
  "CHR ''{'' \<notin> set (quoted ''name'')" "CHR '':'' \<notin> set (quoted ''name'')" "CHR '':'' \<notin> set (quoted ''size'')"
  "is_space (CHR '' '')" "\<not> is_space QUOTE"
  by (simp_all add: quoted_def QUOTE_def is_space_def)

lemma json_names_turn:
  "str_find j (quoted ''name'') pos = Some p1 \<Longrightarrow> str_find j '':'' p1 = Some p2 \<Longrightarrow>
   skip_while is_space j (p2 + 1) = p3 \<Longrightarrow> p3 < length j \<Longrightarrow> j ! p3 = QUOTE \<Longrightarrow>
   str_find j [QUOTE] (p3 + 1) = Some e \<Longrightarrow>
   json_names j pos out = json_names j (e + 1) (insort_insert (slice (p3 + 1) (e - (p3 + 1)) j) out)"
  by (subst json_names.simps) (simp add: Let_def)

text \<open>One turn of the loop over an entry.\<close>

lemma json_names_entry:
  assumes "\<not> occurs (quoted ''name'') gap" and "QUOTE \<notin> set n"
  shows "json_names (a @ gap @ list_entry (n, tail) @ s) (length a) out =
         json_names (a @ gap @ list_entry (n, tail) @ s)
           (length (a @ gap @ ''{'' @ quoted ''name'' @ '': '' @ quoted n)) (insort_insert n out)"
proof -
  let ?j = "a @ gap @ list_entry (n, tail) @ s" and ?L = "length a + length gap"
  have f1: "str_find ?j (quoted ''name'') (length a) = Some (?L + 1)"
  proof -
    let ?r = "quoted ''name'' @ '': '' @ quoted n @ tail @ s"
    have "\<not> prefix (quoted ''name'') (drop k ((gap @ ''{'') @ ?r))" if k: "k < length (gap @ ''{'')" for k
    proof (cases "k < length gap")
      case True
      with no_straddle [OF assms(1) char_facts(1)] show ?thesis by simp
    next
      case False
      with k have "k = length gap" by simp
      then show ?thesis by (simp add: quoted_def QUOTE_def)
    qed
    then show ?thesis using str_find_at [of "gap @ ''{''" "quoted ''name''" ?r a]
      by (simp add: list_entry_def add.assoc)
  qed
  have f2: "str_find ?j '':'' (?L + 1) = Some (?L + 7)"
    using str_find_char [OF char_facts(2), of "a @ gap @ ''{''" "'' '' @ quoted n @ tail @ s"]
    by (simp add: list_entry_def add.assoc)
  have f3: "skip_while is_space ?j (?L + 8) = ?L + 9"
    using skip_while_at [of "'' ''" is_space "quoted n @ tail @ s" "a @ gap @ ''{'' @ quoted ''name'' @ '':''"]
    by (simp add: list_entry_def char_facts add.assoc eval_nat_numeral)
  have f4: "?L + 9 < length ?j" "?j ! (?L + 9) = QUOTE"
    by (simp_all add: list_entry_def quoted_def nth_append)
  have f5: "str_find ?j [QUOTE] (?L + 10) = Some (?L + 10 + length n)"
    using str_find_char [OF assms(2), of "a @ gap @ ''{'' @ quoted ''name'' @ '': '' @ [QUOTE]" "tail @ s"]
    by (simp add: list_entry_def quoted_def [of n] add.assoc eval_nat_numeral)
  have f6: "slice (?L + 10) (length n) ?j = n"
    by (simp add: slice_def list_entry_def quoted_def)
  have "skip_while is_space ?j (?L + 7 + 1) = ?L + 9" "str_find ?j [QUOTE] (?L + 9 + 1) = Some (?L + 10 + length n)"
    using f3 f5 by (simp_all add: ac_simps)
  from json_names_turn [OF f1 f2 this(1) f4 this(2), of out] f6
  show ?thesis by (simp add: ac_simps eval_nat_numeral)
qed

lemma json_names_listing:
  assumes "\<forall>e \<in> set es. entry_text e" and "\<not> occurs (quoted ''name'') gap"
  shows "json_names (a @ gap @ concat (map list_entry es)) (length a) out = fold insort_insert (map fst es) out"
  using assms
proof (induction es arbitrary: a gap out)
  case Nil
  then show ?case using str_find_absent [of "quoted ''name''" gap a] by (simp add: json_names.simps)
next
  case (Cons e es)
  obtain n tail where e: "e = (n, tail)" by force
  let ?a = "a @ gap @ ''{'' @ quoted ''name'' @ '': '' @ quoted n"
  have regroup: "a @ gap @ list_entry (n, tail) @ concat (map list_entry es) = ?a @ tail @ concat (map list_entry es)"
    by (simp add: list_entry_def)
  have "QUOTE \<notin> set n" "\<not> occurs (quoted ''name'') tail" using Cons.prems e by (auto simp: entry_text_def)
  then show ?case
    using Cons.IH [of tail ?a "insort_insert n out"] Cons.prems
      json_names_entry [of gap n a tail "concat (map list_entry es)" out]
    by (simp add: e regroup del: append_assoc)
qed

lemma set_fold_insort_insert: "set (fold insort_insert ns out) = set ns \<union> set out"
  by (induction ns arbitrary: out) (auto simp: set_insort_insert)

lemma sorted_fold_insort_insert:
  "sorted out \<Longrightarrow> distinct out \<Longrightarrow>
   sorted (fold insort_insert ns out) \<and> distinct (fold insort_insert ns out)"
  by (induction ns arbitrary: out) (simp_all add: sorted_insort_insert distinct_insort_insert)

section \<open>Sizes\<close>

lemma is_digit_digit: "d < 10 \<Longrightarrow> is_digit (digit d)"
  by (simp add: is_digit_def digit_def)

lemma to_dec_digits: "\<forall>c \<in> set (to_dec n). is_digit c"
proof (induction n rule: to_dec.induct)
  case (1 n)
  then show ?case by (subst to_dec.simps) (auto simp: is_digit_digit)
qed

lemma colon_not_size: "\<not> is_digit (CHR '' '')"
  by (simp add: is_digit_def)

lemma parse_size_at:
  assumes "\<forall>k < length pre. \<not> prefix (quoted ''size'') (drop k (pre @ quoted ''size''))"
    and "rest \<noteq> [] \<longrightarrow> \<not> is_digit (hd rest)"
  shows "parse_size (pre @ quoted ''size'' @ '': '' @ to_dec n @ rest) = stoi (to_dec n)"
proof -
  let ?r = "'': '' @ to_dec n @ rest" let ?j = "pre @ quoted ''size'' @ ?r" and ?L = "length pre"
  have "\<not> prefix (quoted ''size'') (drop k (pre @ quoted ''size'' @ ?r))" if k: "k < length pre" for k
  proof
    assume "prefix (quoted ''size'') (drop k (pre @ quoted ''size'' @ ?r))"
    then have "prefix (quoted ''size'') (drop k (pre @ quoted ''size'') @ ?r)" using k by simp
    then have "prefix (quoted ''size'') (drop k (pre @ quoted ''size''))"
      by (rule prefix_length_prefix) (use k in simp_all)
    then show False using assms(1) k by blast
  qed
  then have f1: "str_find ?j (quoted ''size'') 0 = Some ?L"
    using str_find_at [of pre "quoted ''size''" "quoted ''size'' @ ?r" "[]"] by simp
  have f2: "str_find ?j '':'' ?L = Some (?L + 6)"
    using str_find_char [OF char_facts(3), of pre "'' '' @ to_dec n @ rest"] by simp
  have f3: "skip_while (\<lambda>x. \<not> is_digit x) ?j (?L + 7) = ?L + 8"
    using skip_while_at [of "'' ''" "\<lambda>x. \<not> is_digit x" "to_dec n @ rest" "pre @ quoted ''size'' @ '':''"]
      to_dec_digits [of n]
    by (simp add: colon_not_size add.assoc eval_nat_numeral)
  have f4: "skip_while is_digit ?j (?L + 8) = ?L + 8 + length (to_dec n)"
    using skip_while_at [of "to_dec n" is_digit rest "pre @ quoted ''size'' @ '': ''"] to_dec_digits [of n] assms(2)
    by (simp add: add.assoc eval_nat_numeral)
  have f5: "slice (?L + 8) (length (to_dec n)) ?j = to_dec n"
    by (simp add: slice_def)
  show ?thesis using f1 f2 f3 f4 f5 by (simp add: parse_size_def Let_def ac_simps)
qed

section \<open>Properties\<close>

text \<open>C34: the directory scanner finds exactly the names of a listing, whatever else its entries say
  as long as no other member is called \<open>"name"\<close> and no name contains a quote: its result has
  each name once, in order, added to the names it had.\<close>

theorem findJsonNames_listing:
  assumes "\<forall>e \<in> set es. entry_text e" and "sorted out" and "distinct out"
  shows "set (findJsonNames (''['' @ concat (map list_entry es)) out) = fst ` set es \<union> set out \<and>
         sorted (findJsonNames (''['' @ concat (map list_entry es)) out) \<and>
         distinct (findJsonNames (''['' @ concat (map list_entry es)) out)"
proof -
  have "\<not> occurs (quoted ''name'') ''[''"
    by (simp add: quoted_def)
  with json_names_listing [of es "''[''" "[]" out] assms(1)
  have "findJsonNames (''['' @ concat (map list_entry es)) out = fold insort_insert (map fst es) out"
    by (simp add: findJsonNames_def)
  then show ?thesis
    using assms(2,3) by (simp add: set_fold_insort_insert sorted_fold_insort_insert)
qed

theorem findJsonNames_listing_witness:
  "set (findJsonNames (''['' @ concat (map list_entry
      [(''b.txt'', '', '' @ quoted ''size'' @ '': 3}, ''), (''a'', ''}]'')])) []) = {''b.txt'', ''a''}"
  using findJsonNames_listing [of "[(''b.txt'', '', '' @ quoted ''size'' @ '': 3}, ''), (''a'', ''}]'')]" "[]"]
  by (simp add: entry_text_def quoted_def QUOTE_def)

text \<open>C35: the size of a file is read from its information exactly when it fits a 32 bit
  \<open>int\<close>; a larger one makes \<open>stoi\<close> throw, through the handler and out of the program.\<close>

theorem parse_size_int_range:
  assumes "\<forall>k < length pre. \<not> prefix (quoted ''size'') (drop k (pre @ quoted ''size''))"
    and "rest \<noteq> [] \<longrightarrow> \<not> is_digit (hd rest)"
  shows "parse_size (pre @ quoted ''size'' @ '': '' @ to_dec n @ rest) =
         (if n \<le> 2147483647 then Inr (of_nat n) else Inl Out_of_range)"
  using parse_size_at [OF assms] by (simp add: stoi_def str_simps)

theorem parse_size_int_range_witness:
  "parse_size (''{'' @ quoted ''size'' @ '': '' @ to_dec 2147483648 @ ''}'') = Inl Out_of_range"
  using parse_size_int_range [of "''{''" "''}''" 2147483648]
  by (simp add: quoted_def QUOTE_def is_digit_def)

end
