(* ===== verification/Fuse_Session.thy ===== *)
theory Fuse_Session
  imports Fuse_Main Cache_Reads
begin

text \<open>
  Sessions of the file system program: libfuse calls the operations of the table with the paths of
  its own, one request after the other, until one throws.  A request and its dispatch are stated for
  any table; the properties are about the table \<open>operations\<close> of \<^verbatim>\<open>fuse/fuse.cc\<close>.
\<close>

section \<open>Requests\<close>

datatype request =
    Getattr string
  | Mkdir string u32
  | Unlink string
  | Rmdir string
  | Open string fuse_file_info
  | Read string bytes u64 u64 fuse_file_info
  | Write string bytes u64 u64 fuse_file_info
  | Statfs string
  | Release string fuse_file_info
  | Readdir string u64 fuse_file_info u32
  | Create string u32 fuse_file_info

definition answer :: "('o, 's) call option \<Rightarrow> 's \<Rightarrow> (exn + int) \<times> 's" where
  "answer f s =
     (case f of
        None \<Rightarrow> (Inr (- ENOSYS), s)
      | Some g \<Rightarrow> (case g s of ((r, _), s') \<Rightarrow> (r, s')))"

fun dispatch :: "'s fuse_operations \<Rightarrow> request \<Rightarrow> 's \<Rightarrow> (exn + int) \<times> 's" where
  "dispatch ops (Getattr path) = answer (map_option (\<lambda>f. f path None) (op_getattr ops))"
| "dispatch ops (Mkdir path mode) = answer (map_option (\<lambda>f. f path mode) (op_mkdir ops))"
| "dispatch ops (Unlink path) = answer (map_option (\<lambda>f. f path) (op_unlink ops))"
| "dispatch ops (Rmdir path) = answer (map_option (\<lambda>f. f path) (op_rmdir ops))"
| "dispatch ops (Open path fi) = answer (map_option (\<lambda>f. f path fi) (op_open ops))"
| "dispatch ops (Read path buf sz off fi) = answer (map_option (\<lambda>f. f path buf sz off fi) (op_read ops))"
| "dispatch ops (Write path buf sz off fi) = answer (map_option (\<lambda>f. f path buf sz off fi) (op_write ops))"
| "dispatch ops (Statfs path) = answer (map_option (\<lambda>f. f path) (op_statfs ops))"
| "dispatch ops (Release path fi) = answer (map_option (\<lambda>f. f path fi) (op_release ops))"
| "dispatch ops (Readdir path off fi flags) = answer (map_option (\<lambda>f. f path off fi flags) (op_readdir ops))"
| "dispatch ops (Create path mode fi) = answer (map_option (\<lambda>f. f path mode fi) (op_create ops))"

inductive session :: "'s fuse_operations \<Rightarrow> 's \<Rightarrow> 's \<Rightarrow> bool" for ops :: "'s fuse_operations" where
  session_start: "session ops s s"
| session_request: "session ops s s1 \<Longrightarrow> dispatch ops rq s1 = (Inr n, s2) \<Longrightarrow> session ops s s2"

text \<open>What a handler may do to a directory name: replace its last character by a slash.\<close>

definition slash_end :: "string \<Rightarrow> string" where
  "slash_end d = (if d \<noteq> [] \<and> last d \<noteq> CHR ''/'' then butlast d @ ''/'' else d)"

definition keeps :: "('db, 'w) prog \<Rightarrow> ('db, 'w) prog \<Rightarrow> bool" where
  "keeps p p' \<longleftrightarrow>
     pg_httpMode p' = pg_httpMode p \<and> pg_dataBackend p' = pg_dataBackend p \<and>
     pg_apiBackend p' = pg_apiBackend p \<and> pg_backend p' = pg_backend p \<and>
     (pg_cacheDirectory p' = pg_cacheDirectory p \<or> pg_cacheDirectory p' = slash_end (pg_cacheDirectory p)) \<and>
     (pg_fileRemoteDirectory p' = pg_fileRemoteDirectory p \<or>
      pg_fileRemoteDirectory p' = slash_end (pg_fileRemoteDirectory p))"

definition request_size :: "request \<Rightarrow> nat" where
  "request_size rq = (case rq of Read _ _ sz _ _ \<Rightarrow> unat sz | Write _ _ sz _ _ \<Rightarrow> unat sz | _ \<Rightarrow> 0)"

section \<open>Frames of the handlers\<close>

lemma slash_end_idem [simp]: "slash_end (slash_end d) = slash_end d"
  by (simp add: slash_end_def)

lemma keeps_refl [simp]: "keeps p p"
  by (simp add: keeps_def)

lemma keeps_trans: "keeps p q \<Longrightarrow> keeps q r \<Longrightarrow> keeps p r"
  unfolding keeps_def by (metis slash_end_idem)

lemma keeps_cache [simp]: "keeps p (q\<lparr>pg_cache := g\<rparr>) = keeps p q"
  by (simp add: keeps_def)

lemma keeps_set_fs [simp]: "keeps p (set_fs fs q) = keeps p q"
  by (simp add: keeps_def set_fs_def)

lemma keeps_set_net [simp]: "keeps p (set_net net q) = keeps p q"
  by (simp add: keeps_def set_net_def)

lemma pg_fs_simps [simp]: "pg_fs (set_fs fs p) = fs" "pg_fs (p\<lparr>pg_fileRemoteDirectory := d\<rparr>) = pg_fs p"
  "pg_fs (p\<lparr>pg_cacheDirectory := d\<rparr>) = pg_fs p"
  by (simp_all add: pg_fs_def set_fs_def)

lemma append_path_Chars:
  "append_path (Chars s) dir = (if dir = [] then (Inl Undefined_behaviour, []) else (Inr (slash_end dir @ s), slash_end dir))"
  by (simp add: append_path_def slash_end_def Let_def)

lemma append_path_dir: "snd (append_path path dir) = dir \<or> snd (append_path path dir) = slash_end dir"
  by (cases path) (auto simp: append_path_Chars, simp add: append_path_def)

lemma keeps_realCachePath: "realCachePath path p = (r, p') \<Longrightarrow> keeps p p'"
  using append_path_dir [of path "pg_cacheDirectory p"]
  by (auto simp: realCachePath_def keeps_def split: prod.splits)

lemma keeps_realFilePath: "realFilePath path p = (r, p') \<Longrightarrow> keeps p p'"
  using append_path_dir [of path "pg_fileRemoteDirectory p"]
  by (auto simp: realFilePath_def keeps_def split: prod.splits)

lemma keeps_backend_download: "backend_download ev be path buf sz off p = (r, p') \<Longrightarrow> keeps p p'"
  by (auto simp: backend_download_def split: option.splits prod.splits)

lemma keeps_getFileInfo: "getFileInfo ev path p = (r, p') \<Longrightarrow> keeps p p'"
  by (auto simp: getFileInfo_def Let_def split: prod.splits sum.splits if_splits dest!: keeps_backend_download)

lemmas keeps_steps = keeps_realCachePath keeps_realFilePath keeps_backend_download keeps_getFileInfo

lemma keeps_getAttribute: "keeps p (snd (getAttribute ev fe path p))"
  by (auto simp: getAttribute_def split: prod.splits sum.splits option.splits bool.splits if_splits dest!: keeps_steps)

lemma keeps_readDirectory: "keeps p (snd (readDirectory ev path p))"
  by (auto simp: readDirectory_def split: prod.splits sum.splits if_splits dest!: keeps_steps)

lemma keeps_directory_ops:
  "keeps p (snd (makeDirectory path mode p))" "keeps p (snd (removeDirectory path p))" "keeps p (snd (removeFile path p))"
  by (auto simp: makeDirectory_def removeDirectory_def removeFile_def split: prod.splits sum.splits option.splits
      dest!: keeps_steps)

lemma keeps_readFile: "keeps p (snd (readFile ev path buf sz off p))"
  by (auto simp: readFile_def Let_def split: prod.splits sum.splits if_splits dest!: keeps_steps)

lemma keeps_writeFile: "keeps p (snd (writeFile ev path buf sz off p))"
  by (auto simp: writeFile_def Let_def split: prod.splits sum.splits option.splits if_splits dest!: keeps_steps)

lemma keeps_releaseFiles: "keeps p (snd (releaseFiles path p))"
  by (auto simp: releaseFiles_def split: prod.splits sum.splits)

lemma keeps_getStats: "keeps p (snd (getStats fe path st p))"
  by (simp add: getStats_def)

lemmas keeps_handlers = keeps_getAttribute keeps_readDirectory keeps_directory_ops keeps_readFile
  keeps_writeFile keeps_releaseFiles keeps_getStats

lemma snd_answer: "snd (answer (Some g) s) = snd (g s)" "fst (answer (Some g) s) = fst (fst (g s))"
  by (simp_all add: answer_def split: prod.splits)

lemma operations_simps [simp]:
  "op_getattr (operations ev fe) = Some (\<lambda>path fi. getAttribute ev fe (Chars path))"
  "op_mkdir (operations ev fe) = Some (\<lambda>path mode. makeDirectory (Chars path) mode)"
  "op_unlink (operations ev fe) = Some (\<lambda>path. removeFile (Chars path))"
  "op_rmdir (operations ev fe) = Some (\<lambda>path. removeDirectory (Chars path))"
  "op_open (operations ev fe) = Some (\<lambda>path fi. openFile (Chars path) fi)"
  "op_read (operations ev fe) = Some (\<lambda>path buf sz off fi. readFile ev (Chars path) buf sz off)"
  "op_write (operations ev fe) = Some (\<lambda>path buf sz off fi. writeFile ev (Chars path) buf sz off)"
  "op_statfs (operations ev fe) = Some (\<lambda>path. getStats fe (Chars path) zero_statvfs)"
  "op_release (operations ev fe) = Some (\<lambda>path fi. releaseFiles (Chars path))"
  "op_readdir (operations ev fe) = Some (\<lambda>path off fi flags. readDirectory ev (Chars path))"
  "op_create (operations ev fe) = Some (\<lambda>path mode fi. createFile (Chars path) mode fi)"
  by (simp_all add: operations_def)

lemma dispatch_keeps: "keeps p (snd (dispatch (operations ev fe) rq p))"
  by (cases rq) (simp_all add: snd_answer keeps_handlers openFile_def createFile_def)

lemma session_keeps: "session (operations ev fe) p p' \<Longrightarrow> keeps p p'"
proof (induction rule: session.induct)
  case (session_request s s1 rq n s2)
  then show ?case using dispatch_keeps [of s1 ev fe rq] by (auto intro: keeps_trans)
qed simp

section \<open>Return values\<close>

lemma to_int32_id: "0 \<le> n \<Longrightarrow> n < 2147483648 \<Longrightarrow> to_int32 n = n"
  by (simp add: to_int32_def signed_take_bit_int_eq_self)

lemma room_le:
  fixes pos cap n :: u64
  assumes "pos \<le> cap" shows "pos + min n (cap - pos) \<le> cap"
proof -
  have "unat (min n (cap - pos)) \<le> unat cap - unat pos"
    using assms unat_sub [of pos cap] by (metis min.cobounded2 word_le_nat_alt)
  then have "unat pos + unat (min n (cap - pos)) \<le> unat cap"
    using assms by (simp add: word_le_nat_alt)
  with unat_plus_le [OF this] show ?thesis by (simp add: word_le_nat_alt)
qed

lemma deliver_pos: "sw_pos sw \<le> sw_cap sw \<Longrightarrow>
  sw_cap (deliver cs sw) = sw_cap sw \<and> sw_pos (deliver cs sw) \<le> sw_cap sw"
proof (induction cs arbitrary: sw)
  case Nil
  then show ?case by (simp add: deliver_def)
next
  case (Cons c cs)
  let ?sw = "snd (write_slice_cb c 1 (of_nat (length c)) sw)"
  have "sw_cap ?sw = sw_cap sw \<and> sw_pos ?sw \<le> sw_cap sw"
    using Cons.prems room_le [OF Cons.prems] by (simp add: write_slice_cb_def Let_def)
  with Cons.IH [of ?sw] show ?case by (simp add: deliver_def)
qed

lemma download_le:
  assumes "unat len < 9223372036854775808" and "download cu b path buf len off w = (n, buf', w')"
  shows "n \<le> int (unat len)"
proof (cases "cu_init cu w")
  case (Pair ok w1)
  have le: "sw_pos (deliver cs \<lparr>sw_dst = buf, sw_cap = len, sw_pos = 0\<rparr>) \<le> len" for cs
    using deliver_pos [of "\<lparr>sw_dst = buf, sw_cap = len, sw_pos = 0\<rparr>" cs] by simp
  have "sint (sw_pos (deliver cs \<lparr>sw_dst = buf, sw_cap = len, sw_pos = 0\<rparr>)) \<le> uint len" for cs
  proof -
    have "unat (sw_pos (deliver cs \<lparr>sw_dst = buf, sw_cap = len, sw_pos = 0\<rparr>)) < 9223372036854775808"
      using le [of cs] assms(1) by (simp add: word_le_nat_alt)
    from sint_small [OF this] le [of cs] show ?thesis by (simp add: word_le_def)
  qed
  then show ?thesis using assms(2) Pair
    by (auto simp: download_def Let_def split: bool.splits prod.splits if_splits intro: order_trans [of _ 0])
qed

lemma upload_le:
  assumes "unat len < 9223372036854775808" and "upload cu b path buf len off w = (n, w')"
  shows "n \<le> int (unat len)"
  using assms sint_small [of len]
  by (auto simp: upload_def Let_def split: bool.splits prod.splits if_splits intro: order_trans [of _ 0])

lemma code_range: "n \<le> int k \<Longrightarrow> k < 2147483648 \<Longrightarrow> \<not> n < 0 \<Longrightarrow> - 1 \<le> to_int32 n"
  by (simp add: to_int32_id)

lemma readFile_code:
  assumes "unat sz < 2147483648" and "fst (fst (readFile ev path buf sz off p)) = Inr n"
  shows "- 1 \<le> n"
proof (cases "pg_fileRemoteDirectory p = []")
  case True
  have "m \<le> int (unat sz)" if "backend_download ev be path' buf sz off p = (Inr (m, b'), p1)" for be path' m b' p1
    using that assms(1) download_le [of sz]
    by (auto simp: backend_download_def split: option.splits prod.splits)
  then have "- 1 \<le> to_int32 m"
    if "backend_download ev be path' buf sz off p = (Inr (m, b'), p1)" "\<not> m < 0" for be path' m b' p1
    using that assms(1) code_range by blast
  then show ?thesis using True assms(2)
    by (auto simp: readFile_def split: prod.splits sum.splits if_splits)
next
  case False
  have "length d \<le> unat sz" if "sys_pread fd (unat sz) o' fs = Inr d" for fd o' fs d
    using that by (auto simp: sys_pread_def length_slice split: if_splits option.splits node.splits)
  then have "- 1 \<le> to_int32 (int (length d))" if "sys_pread fd (unat sz) o' fs = Inr d" for fd o' fs d
    using that assms(1) by (fastforce simp: to_int32_id)
  then show ?thesis using False assms(2)
    by (auto simp: readFile_def Let_def split: prod.splits sum.splits)
qed

lemma writeFile_code:
  fixes p :: "('db, 'w) prog"
  assumes "unat sz < 2147483648" and "fst (fst (writeFile ev path buf sz off p)) = Inr n"
  shows "- 1 \<le> n"
proof -
  have "m \<le> unat sz" if "sys_pwrite fd (take (unat sz) buf) o' fs = (Inr m, fs')" for fd o' fs m fs'
    using that by (auto simp: sys_pwrite_def split: if_splits option.splits node.splits)
  then have "- 1 \<le> to_int32 (int m)" if "sys_pwrite fd (take (unat sz) buf) o' fs = (Inr m, fs')" for fd o' fs m fs'
    using that assms(1) by (fastforce simp: to_int32_id)
  moreover have "- 1 \<le> to_int32 m" if "upload cu b path' buf sz off w = (m, w')" "\<not> m < 0"
    for cu b path' m w' and w :: 'w
    using upload_le [OF _ that(1)] that(2) assms(1) by (intro code_range [of m "unat sz"]) auto
  ultimately show ?thesis using assms(2)
    by (auto simp: writeFile_def split: prod.splits sum.splits option.splits if_splits)
qed

lemma other_codes:
  "fst (fst (getAttribute ev fe path p)) = Inr n \<Longrightarrow> n = 0 \<or> n = - 1"
  "fst (fst (readDirectory ev path p)) = Inr n \<Longrightarrow> n = 0 \<or> n = - 1"
  "fst (fst (makeDirectory path mode p)) = Inr n \<Longrightarrow> n = 0 \<or> n = - 1"
  "fst (fst (removeDirectory path p)) = Inr n \<Longrightarrow> n = 0 \<or> n = - 1"
  "fst (fst (removeFile path p)) = Inr n \<Longrightarrow> n = 0 \<or> n = - 1"
  "fst (fst (releaseFiles path p)) = Inr n \<Longrightarrow> n = 0 \<or> n = - 1"
  "fst (fst (getStats fe path st p)) = Inr n \<Longrightarrow> n = 0 \<or> n = - 1"
  by (auto simp: getAttribute_def readDirectory_def makeDirectory_def removeDirectory_def removeFile_def
      releaseFiles_def getStats_def split: prod.splits sum.splits option.splits bool.splits if_splits)

lemma dispatch_code:
  assumes "request_size rq < 2147483648" and "dispatch (operations ev fe) rq p = (Inr n, p')"
  shows "- 1 \<le> n"
proof -
  have "fst (dispatch (operations ev fe) rq p) = Inr n" using assms(2) by simp
  then show ?thesis using assms(1)
    by (cases rq) (auto simp: snd_answer request_size_def openFile_def createFile_def
        dest: readFile_code writeFile_code other_codes)
qed

section \<open>Reading and writing local files\<close>

lemma realFilePath_Chars:
  "pg_fileRemoteDirectory p \<noteq> [] \<Longrightarrow>
   realFilePath (Chars path) p =
     (Inr (slash_end (pg_fileRemoteDirectory p) @ path), p\<lparr>pg_fileRemoteDirectory := slash_end (pg_fileRemoteDirectory p)\<rparr>)"
  by (simp add: realFilePath_def append_path_Chars)

lemma slash_end_nonempty [simp]: "slash_end d = [] \<longleftrightarrow> d = []"
  by (simp add: slash_end_def)

lemma set_fs_same [simp]: "set_fs (pg_fs p) (p\<lparr>pg_fileRemoteDirectory := d\<rparr>) = p\<lparr>pg_fileRemoteDirectory := d\<rparr>"
  by (simp add: set_fs_def pg_fs_def)

lemma cur_env_simps [simp]: "cur_env ev (p\<lparr>pg_fileRemoteDirectory := d\<rparr>) = cur_env ev p"
  by (simp add: cur_env_def)

text \<open>A write that succeeds leaves a readable file with the bytes in place.\<close>

lemma write_back:
  assumes "sys_open rp [O_CREAT, O_WRONLY] fs = (Inr k, fs1)" and "sys_pwrite k d off fs1 = (Inr m, fs2)"
  shows "m = length d \<and> sys_open rp [O_RDONLY] fs2 = (Inr k, fs2) \<and> sys_pread k (length d) off fs2 = Inr d"
proof -
  obtain bs where bs: "lookup fs1 k = Some (File bs)" "0 \<le> off" "ioerr fs1 k = None"
      "m = length d" "fs2 = set_node k (File (file_write bs (nat off) d)) fs1"
    using assms(2) by (auto simp: sys_pwrite_def split: if_splits option.splits node.splits)
  have "k \<noteq> []" using bs(1) by auto
  then have look: "lookup fs2 k = Some (File (file_write bs (nat off) d))" by (simp add: bs(5) lookup_set_node)
  have env: "same_env fs fs2" using sys_open_env [of fs rp "[O_CREAT, O_WRONLY]"] assms(1)
    by (auto simp: bs(5) same_env_def)
  have "rp \<noteq> []" "k = resolve fs rp" "deny fs k = None"
    using assms(1) by (auto simp: sys_open_def Let_def split: if_splits option.splits node.splits)
  then have "rp \<noteq> []" "resolve fs2 rp = k" "deny fs2 k = None" "ioerr fs2 k = None"
    using env bs(3,5) same_env_resolve [OF env, of rp] by (simp_all add: same_env_def)
  with look bs(2,4) show ?thesis
    by (simp add: sys_open_def sys_pread_def Let_def buf_simps)
qed

lemma open_backends_frame:
  "\<exists>p'. open_backends url p = (True, p') \<and> pg_cacheDirectory p' = pg_cacheDirectory p \<and> pg_cache p' = pg_cache p"
  by (simp add: open_backends_def create_backend_def hb_init_def)

section \<open>Properties of sessions\<close>

definition demo_prog :: "string \<Rightarrow> string \<Rightarrow> fsys \<Rightarrow> mem_world \<Rightarrow> (mem_db, mem_world) prog" where
  "demo_prog cdir fdir fs net =
     \<lparr>pg_dataBackend = Some demo_backend, pg_apiBackend = None, pg_cacheDirectory = cdir,
      pg_fileRemoteDirectory = fdir, pg_httpMode = False, pg_backend = Some demo_backend,
      pg_cache = \<lparr>g_cache = Some demo_cache, g_leaked = [], g_world = \<lparr>w_fs = fs, w_net = net\<rparr>\<rparr>\<rparr>"

definition demo_fenv :: fenv where
  "demo_fenv = \<lparr>fe_perm = (\<lambda>_. 493), fe_nlink = (\<lambda>_. 1), fe_dirsize = (\<lambda>_. 4096), fe_size_field = (\<lambda>_. 0),
     fe_statvfs = (\<lambda>_. zero_statvfs)\<rparr>"

text \<open>No sequence of requests changes the mode of the program or its backends, and all it can
  do to the two directory names is to replace the last character by a slash, once.\<close>

lemma session_keeps_configuration:
  assumes "session (operations ev fe) p p'"
  shows "pg_httpMode p' = pg_httpMode p \<and> pg_dataBackend p' = pg_dataBackend p \<and>
     pg_apiBackend p' = pg_apiBackend p \<and> pg_backend p' = pg_backend p \<and>
     pg_cacheDirectory p' \<in> {pg_cacheDirectory p, slash_end (pg_cacheDirectory p)} \<and>
     pg_fileRemoteDirectory p' \<in> {pg_fileRemoteDirectory p, slash_end (pg_fileRemoteDirectory p)}"
  using session_keeps [OF assms] by (auto simp: keeps_def)


text \<open>C37: a directory made through the file system is not made in the cache directory but in the one
  whose name lacks its last character.\<close>

theorem makeDirectory_misplaced:
  assumes "pg_cacheDirectory p = d @ CHR ''/'' # c" and "d \<noteq> []" and "CHR ''/'' \<notin> set c"
    and "plain (butlast c)" and "plain n"
    and "makeDirectory (Chars (CHR ''/'' # n)) mode p = ((Inr 0, ()), p')"
  shows "lookup (pg_fs p') (resolve (pg_fs p) d @ [butlast c, n]) = Some Dir \<and>
     lookup (pg_fs p') (resolve (pg_fs p) d @ [c, n]) = lookup (pg_fs p) (resolve (pg_fs p) d @ [c, n])"
proof -
  let ?d = "d @ CHR ''/'' # butlast c" and ?fs = "pg_fs p"
  have c: "c \<noteq> []" "butlast c \<noteq> c" using assms(4) by (auto simp: plain_def dest: butlast_neq_self)
  moreover have "last c \<noteq> CHR ''/''" using assms(3) c(1) last_in_set by metis
  ultimately have se: "slash_end (pg_cacheDirectory p) = ?d @ ''/''"
    using assms(1) by (auto simp: slash_end_def butlast_append)
  have res: "resolve ?fs ((?d @ ''/'') @ CHR ''/'' # n) = resolve ?fs d @ [butlast c, n]"
    using assms(2,4,5) resolve_trailing_slash [of ?d ?fs]
    by (subst resolve_append_plain) (simp_all add: resolve_append_plain)
  have "realCachePath (Chars (CHR ''/'' # n)) p =
      (Inr ((?d @ ''/'') @ CHR ''/'' # n), p\<lparr>pg_cacheDirectory := ?d @ ''/''\<rparr>)"
    using assms(1) se by (simp add: realCachePath_def append_path_Chars)
  with assms(6) have mk: "fst (sys_mkdir ((?d @ ''/'') @ CHR ''/'' # n) ?fs) = None"
    "pg_fs p' = snd (sys_mkdir ((?d @ ''/'') @ CHR ''/'' # n) ?fs)"
    by (auto simp: makeDirectory_def split: prod.splits option.splits)
  show ?thesis
    unfolding mk(2) sys_mkdir_lookup res using mk(1) c(2) by simp
qed

text \<open>In file mode a write followed by a read of the same range returns the bytes written and
  touches nothing of the buffer past them, whatever the cache holds; only an exception of the cache,
  which stores every range that is read, can replace the count.\<close>

lemma writeFile_readFile:
  assumes "pg_fileRemoteDirectory p \<noteq> []" and "unat sz \<le> length buf" and "unat sz \<le> length buf2"
    and "unat sz < 2147483648"
    and "writeFile ev (Chars path) buf sz off p = ((Inr n, ()), p1)" and "0 \<le> n"
    and "readFile ev (Chars path) buf2 sz off p1 = ((r, buf'), p2)"
  shows "n = int (unat sz) \<and> buf' = take (unat sz) buf @ drop (unat sz) buf2 \<and>
     r = map_sum id (\<lambda>_. n) (fst (cache_store_file (cur_env ev p1) path buf' sz off (pg_cache p1)))"
proof -
  let ?d = "slash_end (pg_fileRemoteDirectory p)"
  obtain k fs1 fs2 m where wr: "sys_open (?d @ path) [O_CREAT, O_WRONLY] (pg_fs p) = (Inr k, fs1)"
      "sys_pwrite k (take (unat sz) buf) (sint off) fs1 = (Inr m, fs2)" "n = to_int32 (int m)"
      "p1 = set_fs fs2 (p\<lparr>pg_fileRemoteDirectory := ?d\<rparr>)"
    using assms(1,5,6) by (auto simp: writeFile_def realFilePath_Chars split: prod.splits sum.splits)
  note wb = write_back [OF wr(1,2)]
  have len: "length (take (unat sz) buf) = unat sz" using assms(2) by simp
  have n: "n = int (unat sz)" using wr(3) wb assms(4) len by (simp add: to_int32_id)
  have p1: "pg_fileRemoteDirectory p1 = ?d" "pg_fs p1 = fs2"
    by (simp_all add: wr(4)) (simp add: set_fs_def)
  have "p1\<lparr>pg_fileRemoteDirectory := ?d\<rparr> = p1" by (simp add: wr(4) set_fs_def)
  then have rf: "realFilePath (Chars path) p1 = (Inr (?d @ path), p1)"
    using realFilePath_Chars [of p1 path] assms(1) p1(1) by simp
  have "readFile ev (Chars path) buf2 sz off p1 =
      (case cache_store_file (cur_env ev p1) path (splice buf2 0 (take (unat sz) buf)) sz off (pg_cache p1) of
         (Inl e, g) \<Rightarrow> ((Inl e, splice buf2 0 (take (unat sz) buf)), p1\<lparr>pg_cache := g\<rparr>)
       | (Inr _, g) \<Rightarrow> ((Inr n, splice buf2 0 (take (unat sz) buf)), p1\<lparr>pg_cache := g\<rparr>))"
  proof -
    have "set_fs fs2 p1 = p1" using p1(2) by (simp add: set_fs_def pg_fs_def wr(4))
    then show ?thesis
      using assms(1) wb len n wr(3) p1 by (simp add: readFile_def rf Let_def split: prod.split sum.split)
  qed
  with assms(7) n len assms(3) show ?thesis
    by (auto simp: splice_def split: prod.splits sum.splits)
qed

text \<open>C14: in the HTTP modes a read returns exactly the bytes of the remote object and uses the
  network alone: the cache object, its files and its metadata stay as they are.\<close>

theorem readFile_remote_exact:
  assumes "pg_fileRemoteDirectory p = []" and "pg_dataBackend p = Some b"
    and "range_server (ev_cu ev) (base_url b) content" and "no_nul (base_url b)" and "no_nul path"
    and "0 < unat sz" and "unat sz \<le> length buf" and "unat sz < 2147483648"
    and "unat off + unat sz < 9223372036854775808"
    and "content (w_net (g_world (pg_cache p))) path = Some body" and "unat off < length body"
  shows "\<exists>net. readFile ev (Chars path) buf sz off p =
     ((Inr (int (min (unat sz) (length body - unat off))), splice buf 0 (slice (unat off) (unat sz) body)), set_net net p) \<and>
     content net = content (w_net (g_world (pg_cache p)))"
proof -
  let ?w = "w_net (g_world (pg_cache p))"
  obtain net where "backend_read_range (ev_cu ev) (Some b) path buf sz off ?w =
      (int (length (slice (unat off) (unat sz) body)), splice buf 0 (slice (unat off) (unat sz) body), net)"
    "content net = content ?w"
    using http_range [OF assms(3-7,9), of ?w] assms(10,11) by auto
  moreover have "to_int32 (int (min (unat sz) (length body - unat off))) = int (min (unat sz) (length body - unat off))"
    using assms(8) by (intro to_int32_id) simp_all
  ultimately show ?thesis
    using assms(1,2) by (intro exI [of _ net])
      (simp add: readFile_def backend_download_def backend_read_range_def length_slice)
qed

text \<open>C38: for the root given as the program's own literal, a listing in file mode is the two dots
  and then, sorted and each once, the names of the remote and of the cache directory; for every path
  that libfuse passes, the root included, the handler fails.\<close>

theorem readDirectory_root_only_as_literal:
  assumes "pg_fileRemoteDirectory p \<noteq> []"
  shows "(\<exists>ns. readDirectory ev Literal_slash p = ((Inr 0, [''.'', ''..''] @ ns), p) \<and> sorted ns \<and> distinct ns \<and>
       set ns = set (dir_names (pg_fs p) (pg_fileRemoteDirectory p)) \<union> set (dir_names (pg_fs p) (pg_cacheDirectory p))) \<and>
     readDirectory ev (Chars path) p = ((Inr (- 1), []), p)"
proof -
  have "set (insert_names ns out) = set ns \<union> set out \<and>
      (sorted out \<and> distinct out \<longrightarrow> sorted (insert_names ns out) \<and> distinct (insert_names ns out))" for ns out
    by (induction ns arbitrary: out)
      (auto simp: insert_names_def set_insort_insert sorted_insort_insert distinct_insort_insert)
  then show ?thesis using assms by (auto simp: readDirectory_def)
qed

text \<open>The backends of an HTTP mount: data requests go to the URL given, information requests to
  the part before \<open>/api/data\<close> followed by \<open>/api\<close>, and the process-wide backend that the cache
  uses is the one for the data.\<close>

lemma open_backends_http:
  assumes "url = host @ ''/api/data'' @ rest" and "prefix ''http://'' url \<or> prefix ''https://'' url"
    and "\<forall>k < length host. \<not> prefix ''/api/data'' (drop k url)"
  shows "\<exists>p'. open_backends url p = (True, p') \<and> pg_httpMode p' \<and>
     map_option base_url (pg_apiBackend p') = Some (host @ ''/api'') \<and>
     map_option base_url (pg_dataBackend p') = Some url \<and> pg_backend p' = pg_dataBackend p' \<and>
     pg_fileRemoteDirectory p' = pg_fileRemoteDirectory p \<and> pg_cache p' = pg_cache p"
proof -
  obtain j where j: "str_find url ''/api/data'' 0 = Some j"
    using str_find_None [of url "''/api/data''" 0 "length host"] assms(1)
    by (cases "str_find url ''/api/data'' 0") auto
  have "j = length host"
    using str_find_Some [OF j] str_find_first [OF j, of "length host"] assms(1,3)
    by (metis append_eq_conv_conj linorder_neqE_nat prefixI zero_le)
  with j have "api_base url = host @ ''/api''" by (simp add: api_base_def assms(1))
  moreover have "\<not> prefix ''file://'' url" using assms(2) by (auto simp: prefix_def)
  ultimately show ?thesis
    using assms(2) by (simp add: open_backends_def create_backend_def hb_init_def)
qed


section \<open>Witnesses\<close>

text \<open>A tree with the directories \<open>/a\<close>, \<open>/a/c\<close> and \<open>/a/ca\<close>.\<close>

definition tree_fs :: fsys where
  "tree_fs = \<lparr>cwd = [], nodes = [([''a''], Dir), ([''a'', ''c''], Dir), ([''a'', ''ca''], Dir)],
     deny = (\<lambda>_. None), ioerr = (\<lambda>_. None)\<rparr>"

lemmas tree_simps = demo_prog_def tree_fs_def pg_fs_def set_fs_def resolve_def absolute_def norm_step_def lookup_def

lemma tree_mkdir:
  "makeDirectory (Chars ''/x'') 0 (demo_prog ''/a/ca'' [] tree_fs []) =
   ((Inr 0, ()), demo_prog ''/a/c/'' [] (set_node [''a'', ''c'', ''x''] Dir tree_fs) [])"
  by (simp add: makeDirectory_def realCachePath_def append_path_Chars slash_end_def sys_mkdir_def Let_def tree_simps
      set_node_def)

lemma session_keeps_configuration_witness:
  "pg_cacheDirectory (demo_prog ''/a/c/'' [] (set_node [''a'', ''c'', ''x''] Dir tree_fs) [])
     \<in> {''/a/ca'', slash_end ''/a/ca''}"
proof -
  have "session (operations demo_env demo_fenv) (demo_prog ''/a/ca'' [] tree_fs [])
      (demo_prog ''/a/c/'' [] (set_node [''a'', ''c'', ''x''] Dir tree_fs) [])"
    by (rule session_request [OF session_start, where rq = "Mkdir ''/x'' 0" and n = 0])
      (simp add: answer_def tree_mkdir)
  from session_keeps_configuration [OF this] show ?thesis by (simp add: demo_prog_def)
qed


theorem makeDirectory_misplaced_witness:
  "lookup (pg_fs (demo_prog ''/a/c/'' [] (set_node [''a'', ''c'', ''x''] Dir tree_fs) [])) [''a'', ''c'', ''x''] = Some Dir"
  using makeDirectory_misplaced [OF _ _ _ _ _ tree_mkdir, of "''/a''" "''ca''"]
  by (simp add: plain_def tree_simps)

lemma tree_write:
  "writeFile demo_env (Chars ''/f'') [1, 2, 3] 3 0 (demo_prog ''/a/ca'' ''/a/c/'' tree_fs []) =
   ((Inr 3, ()), demo_prog ''/a/ca'' ''/a/c/'' (set_node [''a'', ''c'', ''f''] (File [1, 2, 3])
      (set_node [''a'', ''c'', ''f''] (File []) tree_fs)) [])"
  by (simp add: writeFile_def realFilePath_def append_path_Chars slash_end_def sys_open_def sys_pwrite_def file_write_def
      Let_def tree_simps set_node_def to_int32_def signed_take_bit_int_eq_self)

lemma writeFile_readFile_witness:
  "\<exists>r p2. readFile demo_env (Chars ''/f'') [0, 0, 0, 9] 3 0
       (demo_prog ''/a/ca'' ''/a/c/'' (set_node [''a'', ''c'', ''f''] (File [1, 2, 3])
          (set_node [''a'', ''c'', ''f''] (File []) tree_fs)) []) = ((r, [1, 2, 3, 9]), p2)"
proof -
  obtain r buf' p2 where rd: "readFile demo_env (Chars ''/f'') [0, 0, 0, 9] 3 0
       (demo_prog ''/a/ca'' ''/a/c/'' (set_node [''a'', ''c'', ''f''] (File [1, 2, 3])
          (set_node [''a'', ''c'', ''f''] (File []) tree_fs)) []) = ((r, buf'), p2)"
    by (metis prod.collapse)
  have "buf' = [1, 2, 3, 9]"
    using writeFile_readFile [OF _ _ _ _ tree_write _ rd] by (simp add: demo_prog_def)
  with rd show ?thesis by blast
qed

theorem readFile_remote_exact_witness:
  "\<exists>net. readFile demo_env (Chars ''/f'') [0, 0, 0] 2 1 (demo_prog ''/a/ca'' [] tree_fs [(''/f'', [5, 6, 7, 8])]) =
     ((Inr 2, [6, 7, 0]), set_net net (demo_prog ''/a/ca'' [] tree_fs [(''/f'', [5, 6, 7, 8])]))"
proof -
  have "range_server (ev_cu demo_env) (base_url demo_backend) map_of" "no_nul (base_url demo_backend)"
    using mem_curl_server [of "''http://h''"] by (simp_all add: demo_env_def demo_backend_def no_nul_def)
  from readFile_remote_exact [OF _ _ this, of "demo_prog ''/a/ca'' [] tree_fs [(''/f'', [5, 6, 7, 8])]" "''/f''" 2 "[0, 0, 0]" 1
      "[5, 6, 7, 8]"]
  show ?thesis by (auto simp: demo_prog_def no_nul_def splice_def slice_def)
qed

theorem readDirectory_root_only_as_literal_witness:
  "readDirectory demo_env (Chars ''/'') (demo_prog ''/a/ca'' ''/a'' tree_fs []) =
     ((Inr (- 1), []), demo_prog ''/a/ca'' ''/a'' tree_fs []) \<and>
   (\<exists>ns. readDirectory demo_env Literal_slash (demo_prog ''/a/ca'' ''/a'' tree_fs []) =
     ((Inr 0, [''.'', ''..''] @ ns), demo_prog ''/a/ca'' ''/a'' tree_fs []) \<and> set ns = {''c'', ''ca''})"
proof -
  have "dir_names tree_fs ''/a'' = [''c'', ''ca'']" "dir_names tree_fs ''/a/ca'' = []"
    by (simp_all add: dir_names_def children_def tree_simps)
  then show ?thesis
    using readDirectory_root_only_as_literal [of "demo_prog ''/a/ca'' ''/a'' tree_fs []" demo_env "''/''"]
    by (auto simp: demo_prog_def pg_fs_def)
qed

lemma open_backends_http_witness:
  "\<exists>p'. open_backends ''http://h/api/data'' (demo_prog ''/a'' [] tree_fs []) = (True, p') \<and>
     map_option base_url (pg_apiBackend p') = Some ''http://h/api''"
  using open_backends_http [of "''http://h/api/data''" "''http://h''" "[]" "demo_prog ''/a'' [] tree_fs []"]
  by (auto simp: less_Suc_eq_le le_Suc_eq numeral_eq_Suc)


end
