(* ===== verification/Mount_Refinement.thy ===== *)
theory Mount_Refinement
  imports Fuse_Session Cache_Invariant
begin

text \<open>
  The mounted file system in file mode against its specification: a set of files, absent or a list of
  bytes.  Every answer of the operation table to a read, a write, a \<open>getattr\<close>, an \<open>open\<close> or a
  \<open>create\<close> is the one of the specification, although every read also writes the bytes it found into
  the cache: the block store, its directories and the mirrored files stay apart from the files served.
\<close>

section \<open>The specification\<close>

text \<open>\<open>None\<close>: no file of this name; files out of the map are not in the specification.\<close>

type_synonym mount_files = "string \<rightharpoonup> bytes option"

datatype reply = Data int bytes | Attributes int u64 | Code int

definition mount_range :: "bytes \<Rightarrow> u64 \<Rightarrow> u64 \<Rightarrow> bool" where
  "mount_range buf sz off \<longleftrightarrow>
     unat sz \<le> length buf \<and> unat sz < 2147483648 \<and> unat off + unat sz < 9223372036854775808"

definition file_bytes :: "bytes option \<Rightarrow> bytes" where
  "file_bytes f = (case f of None \<Rightarrow> [] | Some bs \<Rightarrow> bs)"

fun mount_step :: "request \<Rightarrow> mount_files \<Rightarrow> (reply \<times> mount_files) option" where
  "mount_step (Read path buf sz off fi) vs =
     (case vs path of
        None \<Rightarrow> None
      | Some f \<Rightarrow>
          if mount_range buf sz off then
            Some (case f of
                    None \<Rightarrow> Data (- 1) buf
                  | Some bs \<Rightarrow>
                      let d = slice (unat off) (unat sz) bs in Data (int (length d)) (splice buf 0 d), vs)
          else None)"
| "mount_step (Write path buf sz off fi) vs =
     (case vs path of
        None \<Rightarrow> None
      | Some f \<Rightarrow>
          if mount_range buf sz off then
            Some (Code (int (unat sz)),
                  vs(path \<mapsto> Some (file_write (file_bytes f) (unat off) (take (unat sz) buf))))
          else None)"
| "mount_step (Getattr path) vs =
     (case vs path of
        None \<Rightarrow> None
      | Some None \<Rightarrow> Some (Attributes (- 1) 0, vs)
      | Some (Some bs) \<Rightarrow> Some (Attributes 0 (of_nat (length bs)), vs))"
| "mount_step (Open path fi) vs = Some (Code 0, vs)"
| "mount_step (Create path mode fi) vs = Some (Code 0, vs)"
| "mount_step _ vs = None"

section \<open>Requests with what they return\<close>

definition reply_of :: "('o, 's) call option \<Rightarrow> (int \<Rightarrow> 'o \<Rightarrow> reply) \<Rightarrow> 's \<Rightarrow> (exn + reply) \<times> 's" where
  "reply_of f mk s =
     (case f of
        None \<Rightarrow> (Inr (Code (- ENOSYS)), s)
      | Some g \<Rightarrow> (case g s of ((r, out), s') \<Rightarrow> (map_sum id (\<lambda>n. mk n out) r, s')))"

fun mount_call :: "'s fuse_operations \<Rightarrow> request \<Rightarrow> 's \<Rightarrow> (exn + reply) \<times> 's" where
  "mount_call ops (Read path buf sz off fi) =
     reply_of (map_option (\<lambda>f. f path buf sz off fi) (op_read ops)) Data"
| "mount_call ops (Getattr path) =
     reply_of (map_option (\<lambda>f. f path None) (op_getattr ops)) (\<lambda>n st. Attributes n (st_size st))"
| "mount_call ops rq = (\<lambda>s. case dispatch ops rq s of (r, s') \<Rightarrow> (map_sum id Code r, s'))"

section \<open>The relation\<close>

abbreviation remote_key :: "string \<Rightarrow> fsys \<Rightarrow> string \<Rightarrow> key" where
  "remote_key dir fs path \<equiv> resolve fs (slash_end dir @ path)"

definition file_at :: "fsys \<Rightarrow> key \<Rightarrow> bytes option \<Rightarrow> bool" where
  "file_at fs k f \<longleftrightarrow> k \<noteq> [] \<and> deny fs k = None \<and> ioerr fs k = None \<and> lookup fs (butlast k) = Some Dir \<and>
     lookup fs k = map_option File f"

text \<open>The files served, the store and the mirrored files have different names.\<close>

definition mount_apart :: "string \<Rightarrow> string \<Rightarrow> string set \<Rightarrow> fsys \<Rightarrow> bool" where
  "mount_apart rt dir P fs \<longleftrightarrow>
     (\<forall>p \<in> P. \<forall>q \<in> P. let mk = resolve fs (mirror_path rt q) in
        remote_key dir fs p \<noteq> mk \<and> butlast (remote_key dir fs p) \<noteq> mk \<and>
        resolve fs (parent_path (mirror_path rt p)) \<noteq> mk \<and>
        (p \<noteq> q \<longrightarrow> remote_key dir fs p \<noteq> remote_key dir fs q)) \<and>
     (\<forall>p \<in> P. remote_key dir fs p \<noteq> store_key (BlockStore rt kBlockSize) fs \<and>
        remote_key dir fs p \<notin> cache_keys (store_key (BlockStore rt kBlockSize) fs))"

definition mount_fs :: "string \<Rightarrow> string \<Rightarrow> mount_files \<Rightarrow> fsys \<Rightarrow> bool" where
  "mount_fs rt dir vs fs \<longleftrightarrow>
     store_ok (BlockStore rt kBlockSize) fs \<and> mount_apart rt dir (dom vs) fs \<and>
     (\<forall>p \<in> dom vs. mirror_ok (BlockStore rt kBlockSize) rt p fs) \<and>
     (\<forall>p f. vs p = Some f \<longrightarrow> file_at fs (remote_key dir fs p) f)"

definition mount_sim :: "('db, 'w) env \<Rightarrow> string \<Rightarrow> mount_files \<Rightarrow> ('db, 'w) prog \<Rightarrow> bool" where
  "mount_sim ev rt vs p \<longleftrightarrow>
     pg_fileRemoteDirectory p \<noteq> [] \<and> mount_fs rt (pg_fileRemoteDirectory p) vs (pg_fs p) \<and>
     (\<exists>st. g_cache (pg_cache p) = Some st \<and> cache_wf (cur_env ev p) rt st)"

lemma mount_fsD:
  assumes "mount_fs rt dir vs fs"
  shows "store_ok (BlockStore rt kBlockSize) fs" and "fs_wf fs"
    and "vs p = Some f \<Longrightarrow> mirror_ok (BlockStore rt kBlockSize) rt p fs"
    and "vs p = Some f \<Longrightarrow> file_at fs (remote_key dir fs p) f"
  using assms store_okD(1) [of "BlockStore rt kBlockSize" fs] by (auto simp: mount_fs_def)

lemma mount_apartD:
  assumes "mount_apart rt dir P fs" and "p \<in> P" and "q \<in> P"
  shows "remote_key dir fs p \<noteq> resolve fs (mirror_path rt q)" and "butlast (remote_key dir fs p) \<noteq> resolve fs (mirror_path rt q)"
    and "resolve fs (parent_path (mirror_path rt p)) \<noteq> resolve fs (mirror_path rt q)"
    and "p \<noteq> q \<Longrightarrow> remote_key dir fs p \<noteq> remote_key dir fs q"
    and "remote_key dir fs p \<noteq> store_key (BlockStore rt kBlockSize) fs"
    and "remote_key dir fs p \<notin> cache_keys (store_key (BlockStore rt kBlockSize) fs)"
  using assms by (simp_all add: mount_apart_def Let_def)

lemma mount_apart_env: "same_env fs fs' \<Longrightarrow> mount_apart rt dir P fs' = mount_apart rt dir P fs"
  by (simp add: mount_apart_def Let_def same_env_resolve store_key_env)

lemma mount_dir [simp]: "mount_fs rt (slash_end dir) vs fs = mount_fs rt dir vs fs"
  by (simp add: mount_fs_def mount_apart_def)

text \<open>A change of the file system that leaves the directories of the mirrored files.\<close>

lemma mount_fs_change:
  assumes M: "mount_fs rt dir vs fs" and env: "same_env fs fs'" and ok: "store_ok (BlockStore rt kBlockSize) fs'"
    and dom: "dom vs' = dom vs"
    and parents: "\<And>q. q \<in> dom vs \<Longrightarrow> lookup fs' (resolve fs (parent_path (mirror_path rt q))) = Some Dir"
    and files: "\<And>q f. vs' q = Some f \<Longrightarrow> file_at fs' (remote_key dir fs q) f"
  shows "mount_fs rt dir vs' fs'"
proof -
  have "mirror_ok (BlockStore rt kBlockSize) rt q fs'" if "q \<in> dom vs" for q
    using M that by (intro mirror_ok_keep [OF _ env parents]) (auto simp: mount_fs_def)
  then show ?thesis
    using M ok files unfolding mount_fs_def dom mount_apart_env [OF env] by (simp add: same_env_resolve [OF env])
qed

section \<open>A write to a file served\<close>

lemma mount_write:
  assumes M: "mount_fs rt dir vs fs" and p: "vs p = Some f"
    and at: "only_at (remote_key dir fs p) fs fs'" and new: "lookup fs' (remote_key dir fs p) = Some (File bs)"
  shows "mount_fs rt dir (vs(p \<mapsto> Some bs)) fs'"
proof -
  let ?k = "remote_key dir fs p"
  have A: "mount_apart rt dir (dom vs) fs" using M by (simp add: mount_fs_def)
  have pd: "p \<in> dom vs" using p by blast
  have env: "same_env fs fs'" and same: "\<And>k. k \<noteq> ?k \<Longrightarrow> lookup fs' k = lookup fs k" using at by (auto simp: only_at_def)
  have nodir: "lookup fs ?k \<noteq> Some Dir" using mount_fsD(4) [OF M p] by (auto simp: file_at_def)
  then have dirs: "lookup fs' k = Some Dir" if "lookup fs k = Some Dir" for k using that same [of k] by metis
  show ?thesis
  proof (rule mount_fs_change [OF M env])
    show "store_ok (BlockStore rt kBlockSize) fs'"
      by (rule only_at_store_ok [OF mount_fsD(1) [OF M] at mount_apartD(5,6) [OF A pd pd]])
    show "dom (vs(p \<mapsto> Some bs)) = dom vs" using p by auto
    show "lookup fs' (resolve fs (parent_path (mirror_path rt q))) = Some Dir" if "q \<in> dom vs" for q
      using that M by (intro dirs mirror_okD(2)) (auto simp: mount_fs_def)
  next
    fix q g assume q: "(vs(p \<mapsto> Some bs)) q = Some g"
    obtain g0 where g0: "vs q = Some g0" using p q by (cases "q = p") auto
    have fa: "file_at fs (remote_key dir fs q) g0" by (rule mount_fsD(4) [OF M g0])
    have "lookup fs' (remote_key dir fs q) = map_option File g"
    proof (cases "q = p")
      case False
      then have "remote_key dir fs q \<noteq> ?k" using mount_apartD(4) [OF A _ pd False] g0 by blast
      then show ?thesis using same fa q g0 False by (simp add: file_at_def)
    qed (use q new in auto)
    with fa dirs env show "file_at fs' (remote_key dir fs q) g" by (simp add: file_at_def same_env_def)
  qed
qed

section \<open>Storing in the cache\<close>

text \<open>The cache changes no file served.\<close>

lemma mount_frame:
  assumes M: "mount_fs rt dir vs fs" and p: "vs p = Some f"
    and frame: "cache_frame (BlockStore rt kBlockSize) rt p fs fs'" and env: "same_env fs fs'"
    and ok: "store_ok (BlockStore rt kBlockSize) fs'"
  shows "mount_fs rt dir vs fs'"
proof (rule mount_fs_change [OF M env ok refl])
  have A: "mount_apart rt dir (dom vs) fs" using M by (simp add: mount_fs_def)
  have pd: "p \<in> dom vs" using p by blast
  show "lookup fs' (resolve fs (parent_path (mirror_path rt q))) = Some Dir" if q: "q \<in> dom vs" for q
  proof -
    have "mirror_ok (BlockStore rt kBlockSize) rt q fs" using M q by (simp add: mount_fs_def)
    from mirror_okD(2) [OF this] mount_apartD(3) [OF A q pd] frame show ?thesis by (simp add: cache_frame_def)
  qed
  fix q g assume g: "vs q = Some g"
  then have q: "q \<in> dom vs" by blast
  show "file_at fs' (remote_key dir fs q) g"
    using mount_fsD(4) [OF M g] mount_apartD(1,2,6) [OF A q pd] frame env
    by (simp add: file_at_def cache_frame_def same_env_def)
qed

lemma entry_ok_or_evicted:
  assumes "cache_wf ev rt st" shows "entry_ok ev p st \<or> evicted p st"
proof (cases "map_of (cs_entries st) p")
  case (Some x)
  then have "(p, x) \<in> set (cs_entries st)" by (rule map_of_SomeD)
  then show ?thesis using assms Some by (cases x) (auto simp: cache_wf_def ce_wf_def entry_ok_def evicted_def)
qed (simp add: entry_ok_def)

lemma store_file_sim:
  fixes g :: "('db, 'w) gstate" and ev :: "('db, 'w) env"
  assumes M: "mount_fs rt dir vs (w_fs (g_world g))" and p: "vs p = Some f"
    and st: "g_cache g = Some st" "cache_wf ev rt st"
    and len: "unat off + unat len < 9223372036854775808" "unat len \<le> length buf"
  shows "\<exists>n g' st'. cache_store_file ev p buf len off g = (Inr n, g') \<and> g_cache g' = Some st' \<and>
    cache_wf ev rt st' \<and> mount_fs rt dir vs (w_fs (g_world g'))"
  using entry_ok_or_evicted [OF st(2), of p]
proof
  assume "evicted p st"
  then show ?thesis
    using cm_write_evicted [of p st ev buf len off "g_world g"] st M by (simp add: cache_store_file_def)
next
  assume e: "entry_ok ev p st"
  have roots: "cs_store st = BlockStore rt kBlockSize" "cs_root st = rt" using st(2) by (simp_all add: cache_wf_def)
  obtain fd st' w' where wr: "cm_write ev p buf len off st (g_world g) = (Inr (int (unat len)), st', w')"
    "write_inv (hash_hex (ev_hash ev) p) buf (unat off) (cs_store st) (cs_root st) p (g_world g) (unat len) fd st' w'"
    using cm_write_inv [of st "g_world g" p ev off len buf] mount_fsD(1,3) [OF M] p roots e len by auto
  then have "mount_fs rt dir vs (w_fs w')"
    using roots by (intro mount_frame [OF M p]) (simp_all add: write_inv_def only_shards_def)
  then show ?thesis
    using wr(1) st(1) cm_write_wf [OF wr(1) st(2)] by (simp add: cache_store_file_def)
qed

section \<open>The handlers\<close>

text \<open>The system calls on a file served.\<close>

lemma file_at_open:
  assumes "file_at fs (resolve fs rp) f" and "rp \<noteq> []"
  shows "sys_open rp [O_RDONLY] fs = ((case f of None \<Rightarrow> Inl ENOENT | Some _ \<Rightarrow> Inr (resolve fs rp)), fs)"
    and "sys_stat fe rp fs = (case f of None \<Rightarrow> Inl ENOENT
      | Some bs \<Rightarrow> Inr \<lparr>st_mode = S_IFREG OR fe_perm fe (resolve fs rp), st_nlink = fe_nlink fe (resolve fs rp),
          st_size = of_nat (length bs)\<rparr>)"
  using assms by (auto simp: file_at_def sys_open_def sys_stat_def Let_def split: option.splits)

lemma file_at_write:
  assumes "file_at fs k f" and "k = resolve fs rp" and "rp \<noteq> []" and "fs_wf fs" and "0 \<le> off"
  shows "\<exists>fs1 fs2. sys_open rp [O_CREAT, O_WRONLY] fs = (Inr k, fs1) \<and> sys_pwrite k d off fs1 = (Inr (length d), fs2) \<and>
    only_at k fs fs2 \<and> lookup fs2 k = Some (File (file_write (file_bytes f) (nat off) d))"
proof -
  let ?new = "File (file_write (file_bytes f) (nat off) d)"
  have k: "k \<noteq> []" using assms(1) by (simp add: file_at_def)
  obtain fs1 where fs1: "sys_open rp [O_CREAT, O_WRONLY] fs = (Inr k, fs1)" "lookup fs1 k = Some (File (file_bytes f))"
      "ioerr fs1 k = None"
  proof (cases f)
    case None
    then show ?thesis
      using assms(1-3) k that [of "set_node k (File []) fs"]
      by (simp add: file_at_def sys_open_def file_bytes_def lookup_set_node Let_def)
  next
    case (Some bs)
    then show ?thesis using assms(1-3) that [of fs] by (simp add: file_at_def sys_open_def file_bytes_def Let_def)
  qed
  have put: "sys_pwrite k d off fs1 = (Inr (length d), set_node k ?new fs1)"
    using fs1(2,3) assms(5) by (simp add: sys_pwrite_def)
  have at: "only_at k fs fs1" using only_at_open [OF assms(4) fs1(1)] assms(2) by simp
  then have "only_at k fs1 (set_node k ?new fs1)"
    using only_at_pwrite [of fs1 k d off] put by (simp add: only_at_def)
  from only_at_trans [OF at this] have "only_at k fs (set_node k ?new fs1)" .
  moreover have "lookup (set_node k ?new fs1) k = Some ?new" using k by (simp add: lookup_set_node)
  ultimately show ?thesis using fs1(1) put by blast
qed

lemma to_int32_nat: "n < 2147483648 \<Longrightarrow> to_int32 (int n) = int n"
  by (rule to_int32_id) linarith+

lemma mount_simD:
  assumes "mount_sim ev rt vs p" and "vs path = Some f"
  shows "file_at (pg_fs p) (resolve (pg_fs p) (slash_end (pg_fileRemoteDirectory p) @ path)) f"
    and "pg_fileRemoteDirectory p \<noteq> []"
  using assms mount_fsD(4) [of rt "pg_fileRemoteDirectory p" vs "pg_fs p" path f] by (auto simp: mount_sim_def)

lemma mount_sim_slash [simp]:
  "mount_sim ev rt vs (p\<lparr>pg_fileRemoteDirectory := slash_end (pg_fileRemoteDirectory p)\<rparr>) = mount_sim ev rt vs p"
  by (simp add: mount_sim_def)

lemma mount_getattr_sim:
  assumes sim: "mount_sim ev rt vs p" and f: "vs path = Some f"
  shows "\<exists>p'. mount_call (operations ev fe) (Getattr path) p =
      (Inr (case f of None \<Rightarrow> Attributes (- 1) 0 | Some bs \<Rightarrow> Attributes 0 (of_nat (length bs))), p') \<and>
    mount_sim ev rt vs p'"
proof -
  note S = mount_simD [OF sim f]
  show ?thesis
    using file_at_open(2) [OF S(1)] S(2) sim
    by (auto simp: reply_of_def getAttribute_def realFilePath_Chars zero_stat_def split: option.splits)
qed

lemma mount_read_sim:
  fixes p :: "('db, 'w) prog" and ev :: "('db, 'w) env"
  assumes sim: "mount_sim ev rt vs p" and f: "vs path = Some f" and range: "mount_range buf sz off"
  shows "\<exists>p'. mount_call (operations ev fe) (Read path buf sz off fi) p =
      (Inr (case f of None \<Rightarrow> Data (- 1) buf
         | Some bs \<Rightarrow> let d = slice (unat off) (unat sz) bs in Data (int (length d)) (splice buf 0 d)), p') \<and>
    mount_sim ev rt vs p'"
proof -
  note S = mount_simD [OF sim f]
  let ?p = "p\<lparr>pg_fileRemoteDirectory := slash_end (pg_fileRemoteDirectory p)\<rparr>"
  show ?thesis
  proof (cases f)
    case None
    then show ?thesis
      using file_at_open(1) [OF S(1)] S(2) sim by (simp add: reply_of_def readFile_def realFilePath_Chars)
  next
    case (Some bs)
    let ?d = "slice (unat off) (unat sz) bs"
    have R: "unat sz \<le> length buf" "unat sz < 2147483648" "unat off + unat sz < 9223372036854775808"
      using range by (simp_all add: mount_range_def)
    have d: "length ?d \<le> unat sz" by (simp add: length_slice)
    have lim: "unat off + unat (of_nat (length ?d) :: u64) < 9223372036854775808"
      "unat (of_nat (length ?d) :: u64) \<le> length (splice buf 0 ?d)"
      using d R by (simp_all add: unat_of_nat length_splice)
    obtain st where st: "g_cache (pg_cache p) = Some st" "cache_wf (cur_env ev p) rt st"
      "mount_fs rt (pg_fileRemoteDirectory p) vs (w_fs (g_world (pg_cache p)))"
      using sim by (auto simp: mount_sim_def pg_fs_def)
    obtain n g st' where store: "cache_store_file (cur_env ev p) path (splice buf 0 ?d) (of_nat (length ?d)) off (pg_cache p) =
        (Inr n, g)" "g_cache g = Some st'" "cache_wf (cur_env ev p) rt st'"
        "mount_fs rt (pg_fileRemoteDirectory p) vs (w_fs (g_world g))"
      using store_file_sim [OF st(3) f st(1,2) lim] by blast
    have pread: "sys_pread (resolve (pg_fs p) (slash_end (pg_fileRemoteDirectory p) @ path)) (unat sz) (sint off) (pg_fs p) = Inr ?d"
      using S(1) Some R(3) by (simp add: file_at_def sys_pread_def sint_small)
    have ret: "to_int32 (int (length ?d)) = int (length ?d)" using d R(2) by (intro to_int32_nat) simp
    have "readFile ev (Chars path) buf sz off p = ((Inr (int (length ?d)), splice buf 0 ?d), ?p\<lparr>pg_cache := g\<rparr>)"
      using file_at_open(1) [OF S(1)] S(2) Some pread store(1) ret
      by (simp add: readFile_def realFilePath_Chars Let_def)
    moreover have "mount_sim ev rt vs (?p\<lparr>pg_cache := g\<rparr>)"
      using store(2-4) S(2) by (simp add: mount_sim_def pg_fs_def cur_env_def)
    ultimately show ?thesis using Some by (simp add: reply_of_def Let_def)
  qed
qed

lemma mount_write_sim:
  fixes p :: "('db, 'w) prog" and ev :: "('db, 'w) env"
  assumes sim: "mount_sim ev rt vs p" and f: "vs path = Some f" and range: "mount_range buf sz off"
  shows "\<exists>p'. mount_call (operations ev fe) (Write path buf sz off fi) p = (Inr (Code (int (unat sz))), p') \<and>
    mount_sim ev rt (vs(path \<mapsto> Some (file_write (file_bytes f) (unat off) (take (unat sz) buf)))) p'"
proof -
  note S = mount_simD [OF sim f]
  let ?d = "slash_end (pg_fileRemoteDirectory p)" and ?b = "take (unat sz) buf" and ?fs = "pg_fs p"
  let ?p = "p\<lparr>pg_fileRemoteDirectory := ?d\<rparr>"
  have R: "length ?b = unat sz" "unat sz < 2147483648" "sint off = int (unat off)"
    using range sint_small [of off] by (simp_all add: mount_range_def)
  have M: "mount_fs rt (pg_fileRemoteDirectory p) vs ?fs" using sim by (simp add: mount_sim_def)
  obtain fs1 fs2 where w: "sys_open (?d @ path) [O_CREAT, O_WRONLY] ?fs = (Inr (resolve ?fs (?d @ path)), fs1)"
    "sys_pwrite (resolve ?fs (?d @ path)) ?b (sint off) fs1 = (Inr (length ?b), fs2)"
    "only_at (resolve ?fs (?d @ path)) ?fs fs2"
    "lookup fs2 (resolve ?fs (?d @ path)) = Some (File (file_write (file_bytes f) (unat off) ?b))"
    using file_at_write [OF S(1) refl _ mount_fsD(2) [OF M], where d = ?b and off = "sint off"] S(2) R(3) by auto
  have ret: "to_int32 (int (unat sz)) = int (unat sz)" by (rule to_int32_nat [OF R(2)])
  have "writeFile ev (Chars path) buf sz off p = ((Inr (int (unat sz)), ()), set_fs fs2 ?p)"
    using w(1,2) S(2) R(1) ret by (simp add: writeFile_def realFilePath_Chars)
  moreover have "mount_fs rt (pg_fileRemoteDirectory p) (vs(path \<mapsto> Some (file_write (file_bytes f) (unat off) ?b))) fs2"
    by (rule mount_write [OF M f w(3,4)])
  ultimately show ?thesis
    using sim by (auto simp: answer_def mount_sim_def set_fs_def pg_fs_def cur_env_def simp del: fun_upd_apply)
qed

interpretation mount: forward_simulation "mount_sim ev rt" mount_step "mount_call (operations ev fe)" for ev rt fe
proof unfold_locales
  fix vs p rq r vs'
  assume sim: "mount_sim ev rt vs p" and step: "mount_step rq vs = Some (r, vs')"
  show "\<exists>p'. mount_call (operations ev fe) rq p = (Inr r, p') \<and> mount_sim ev rt vs' p'"
  proof (cases rq)
    case (Read path buf sz off fi)
    then show ?thesis using mount_read_sim [OF sim] step by (fastforce split: option.splits if_splits)
  next
    case (Write path buf sz off fi)
    then show ?thesis using mount_write_sim [OF sim] step by (auto split: option.splits if_splits simp del: fun_upd_apply)
  next
    case (Getattr path)
    then show ?thesis using mount_getattr_sim [OF sim] step by (fastforce split: option.splits)
  qed (use sim step in \<open>auto simp: answer_def openFile_def createFile_def\<close>)
qed


section \<open>Witness\<close>

definition demo_fi :: fuse_file_info where
  "demo_fi = \<lparr>fi_flags = 0, fi_writepage = False, fi_direct_io = False, fi_keep_cache = False, fi_flush = False,
     fi_nonseekable = False, fi_flock_release = False, fi_cache_readdir = False, fi_noflush = False,
     fi_parallel_direct_writes = False, fi_fh = 0, fi_lock_owner = 0, fi_poll_events = 0,
     fi_backing_id = 0, fi_compat_flags = 0\<rparr>"

lemma demo_wf: "cache_wf (cur_env demo_env p) ''/c'' demo_cache" if "pg_backend p = Some demo_backend"
proof -
  have "cur_env demo_env p = demo_env" using that by (simp add: cur_env_def demo_env_def)
  then show ?thesis using CacheManager_wf [of demo_env "''/c''" "demo_world []"] by (simp add: demo_cache_def)
qed

lemma demo_apart: "mount_apart ''/c'' ''/'' {''/file''} root_fs"
proof -
  have m: "mirror_path ''/c'' ''/file'' = ''/c/file''" by (simp add: mirror_path_def path_join_def absolute_def)
  have p: "parent_path ''/c/file'' = ''/c/''" using parent_path_plain [of "''file''" "''/c''"] by simp
  have r: "resolve root_fs ''/c/file'' = [''c'', ''file'']" "resolve root_fs ''/c/'' = [''c'']"
    "remote_key ''/'' root_fs ''/file'' = [''file'']"
    by (simp_all add: resolve_def absolute_def norm_step_def slash_end_def)
  have "store_key (BlockStore ''/c'' kBlockSize) root_fs = [''c'']" by (simp add: store_key_def BlockStore_def demo_root)
  then show ?thesis using m p r by (auto simp: mount_apart_def cache_keys_def key_defs)
qed


end
