(* ===== verification/Main_Program.thy ===== *)
theory Main_Program
  imports Fuse_Main Time_Policy
begin

text \<open>
  \<^verbatim>\<open>main.cc\<close>: the start-up of the planned stand-alone program.  It calls three functions that the
  repository declares at most and never defines (a \<open>MetadataStore\<close> constructor with one argument,
  \<open>BlockStore::cleanup\<close> and \<open>init_fuse_ops\<close>), so that it does not build; they are the
  parameters of the record \<open>mainlib\<close>, and the session loop of libfuse is the parameter \<open>run\<close>
  as in \<^verbatim>\<open>fuse.cc\<close>.  The state is what the components keep for the process: the backend and
  the cache with its world.
\<close>

section \<open>The program\<close>

record ('db, 'w) proc =
  pr_backend :: g_backend
  pr_cache :: "('db, 'w) gstate"

record ('db, 'w) mainlib =
  ml_MetadataStore :: "string \<Rightarrow> 'db mstore"
  ml_bs_cleanup :: "bstore \<Rightarrow> fsys \<Rightarrow> fsys"
  ml_init_fuse_ops :: "('db, 'w) proc fuse_operations \<Rightarrow> bstore \<Rightarrow> lru \<Rightarrow> tpolicy \<Rightarrow> 'db mstore \<Rightarrow> HttpBackend
    \<Rightarrow> bool \<times> ('db, 'w) proc fuse_operations"

definition proc_fs :: "('db, 'w) proc \<Rightarrow> fsys" where
  "proc_fs p = w_fs (g_world (pr_cache p))"

definition set_proc_fs :: "fsys \<Rightarrow> ('db, 'w) proc \<Rightarrow> ('db, 'w) proc" where
  "set_proc_fs fs p = p\<lparr>pr_cache := (pr_cache p)\<lparr>g_world := (g_world (pr_cache p))\<lparr>w_fs := fs\<rparr>\<rparr>\<rparr>"

text \<open>The objects \<open>main\<close> builds before the session: the metadata store, the operation table and the
  block store, or \<open>None\<close> when a step fails and \<open>main\<close> returns 1.\<close>

definition main_setup ::
    "('db, 'w) env \<Rightarrow> ('db, 'w) mainlib \<Rightarrow> string \<Rightarrow> string \<Rightarrow> ('db, 'w) proc
      \<Rightarrow> ('db mstore \<times> ('db, 'w) proc fuse_operations \<times> bstore) option \<times> ('db, 'w) proc" where
  "main_setup ev ml mountpoint backend_url p =
     (case cache_init (ev\<lparr>ev_backend := pr_backend p\<rparr>) mountpoint 3600 (pr_cache p) of
        (rc, g) \<Rightarrow>
          (let p1 = p\<lparr>pr_cache := g\<rparr> in
           if rc \<noteq> 0 then (None, p1)
           else let blockStore = BlockStore (mountpoint @ ''/blocks'') 4096 in
             case bs_init blockStore (proc_fs p1) of
               (False, fs) \<Rightarrow> (None, set_proc_fs fs p1)
             | (True, fs) \<Rightarrow>
                 (let p2 = set_proc_fs fs p1 in
                  case ms_init (ev_sq ev) (ml_MetadataStore ml (mountpoint @ ''/cache_meta.db'')) of
                    (False, _) \<Rightarrow> (None, p2)
                  | (True, metaStore) \<Rightarrow>
                      (case create_backend backend_url (pr_backend p2) of
                         (None, b) \<Rightarrow> (None, p2\<lparr>pr_backend := b\<rparr>)
                       | (Some httpBackend, b) \<Rightarrow>
                           (case ml_init_fuse_ops ml null_operations blockStore (LruPolicy 1000) (TimePolicy 3600)
                                   metaStore httpBackend of
                              (False, _) \<Rightarrow> (None, p2\<lparr>pr_backend := b\<rparr>)
                            | (True, ops) \<Rightarrow> (Some (metaStore, ops, blockStore), p2\<lparr>pr_backend := b\<rparr>))))))"

text \<open>The exit status, the database as \<open>metaStore.cleanup()\<close> leaves it, if it was reached, and the
  state.  Printing the usage needs \<open>argv[0]\<close>.\<close>

definition remote_cache_main ::
    "('db, 'w) env \<Rightarrow> ('db, 'w) mainlib \<Rightarrow> ('db, 'w) proc fuse_runner \<Rightarrow> string list \<Rightarrow> ('db, 'w) proc
      \<Rightarrow> (exn + int) \<times> 'db option \<times> ('db, 'w) proc" where
  "remote_cache_main ev ml run argv p =
     (if argv = [] then (Inl Undefined_behaviour, None, p)
      else if length argv < 3 then (Inr 1, None, p)
      else case main_setup ev ml (argv ! 1) (argv ! 2) p of
        (None, p1) \<Rightarrow> (Inr 1, None, p1)
      | (Some (metaStore, ops, blockStore), p1) \<Rightarrow>
          (case fuse_main_fn run (int (length argv)) argv ops 0 p1 of
             (Inl e, p2) \<Rightarrow> (Inl e, None, p2)
           | (Inr ret, p2) \<Rightarrow>
               (case cache_cleanup (pr_cache p2) of
                  (Inl e, g) \<Rightarrow> (Inl e, None, p2\<lparr>pr_cache := g\<rparr>)
                | (Inr _, g) \<Rightarrow>
                    (let p3 = p2\<lparr>pr_cache := g\<rparr>;
                         p4 = set_proc_fs (ml_bs_cleanup ml blockStore (proc_fs p3)) p3
                     in (Inr ret, fst (ms_cleanup (ev_sq ev) metaStore), p4)))))"

section \<open>What it does\<close>

lemma main_setup_ok:
  assumes "main_setup ev ml mountpoint backend_url p = (Some (m, ops, b), p')"
  shows "b = BlockStore (mountpoint @ ''/blocks'') 4096 \<and> g_cache (pr_cache p') \<noteq> None \<and>
    pr_backend p' = Some \<lparr>base_url = backend_url, bearer_token = []\<rparr> \<and> ms_db_handle m \<noteq> None"
  using assms
  by (auto simp: main_setup_def Let_def cache_init_def set_proc_fs_def create_backend_def hb_init_def ms_init_def
      split: prod.splits bool.splits option.splits)

text \<open>When \<open>main\<close> comes back from a session, the session ran on the whole argument list with the
  table that \<open>init_fuse_ops\<close> filled, while the cache object existed and the URL's backend was the one
  of the process; its status is the status of the session, the cache has been let go, and the
  \<open>cleanup\<close> of the metadata store has dropped the table, so that nothing of it outlives the run.\<close>

lemma remote_cache_main_session:
  assumes "remote_cache_main ev ml run argv p = (Inr ret, Some db, p')"
  shows "3 \<le> length argv \<and> (\<exists>m ops b p1 p2 d.
    main_setup ev ml (argv ! 1) (argv ! 2) p = (Some (m, ops, b), p1) \<and>
    g_cache (pr_cache p1) \<noteq> None \<and> pr_backend p1 = Some \<lparr>base_url = argv ! 2, bearer_token = []\<rparr> \<and>
    run (int (length argv)) argv ops 336 \<lparr>lv_major = 3, lv_minor = 16, lv_hotfix = 2, lv_padding = 0\<rparr> 0 p1 = (Inr ret, p2) \<and>
    g_cache (pr_cache p') = None \<and> ms_db_handle m = Some d \<and> db = snd (sq_exec (ev_sq ev) d sql_drop))"
proof -
  have len: "3 \<le> length argv" using assms by (auto simp: remote_cache_main_def split: if_splits)
  obtain x p1 where st: "main_setup ev ml (argv ! 1) (argv ! 2) p = (x, p1)" by force
  obtain m ops b where x: "x = Some (m, ops, b)"
    using assms st len by (cases x) (auto simp: remote_cache_main_def split: if_splits)
  note ok = main_setup_ok [OF st [unfolded x]]
  obtain r p2 where run: "fuse_main_fn run (int (length argv)) argv ops 0 p1 = (r, p2)" by force
  have r: "r = Inr ret" "fst (cache_cleanup (pr_cache p2)) = Inr ()" "fst (ms_cleanup (ev_sq ev) m) = Some db"
      "p' = set_proc_fs (ml_bs_cleanup ml b (proc_fs (p2\<lparr>pr_cache := snd (cache_cleanup (pr_cache p2))\<rparr>)))
         (p2\<lparr>pr_cache := snd (cache_cleanup (pr_cache p2))\<rparr>)"
    using assms st x run len
    by (auto simp: remote_cache_main_def Let_def split: if_splits sum.splits prod.splits)
  have "g_cache (snd (cache_cleanup g)) = None" if "fst (cache_cleanup g) = Inr ()" for g :: "('a, 'b) gstate"
    using that by (auto simp: cache_cleanup_def split: option.splits prod.splits sum.splits)
  from this [OF r(2)] have gone: "g_cache (pr_cache p') = None" by (simp add: r(4) set_proc_fs_def)
  obtain d where d: "ms_db_handle m = Some d" using ok by auto
  then have db: "db = snd (sq_exec (ev_sq ev) d sql_drop)" using r(3) by (simp add: ms_cleanup_def)
  have "run (int (length argv)) argv ops 336 \<lparr>lv_major = 3, lv_minor = 16, lv_hotfix = 2, lv_padding = 0\<rparr> 0 p1 = (Inr ret, p2)"
    using run r(1) by (simp add: fuse_main_fn_def FUSE_MAJOR_VERSION_def FUSE_MINOR_VERSION_def FUSE_HOTFIX_VERSION_def)
  then show ?thesis using len st x ok gone d db by blast
qed

end
