(* ===== verification/Spec2Isabelle.thy ===== *)
theory Spec2Isabelle
  imports Cache_Failures Cache_Refinement Time_Policy Fuse_Json Mount_Refinement Main_Program
begin

text \<open>
  A verification of CacheSystemWithFuse, a FUSE file system over a remote store (HTTP or a local
  directory) with a block cache on disk.

  \<^bold>\<open>The program.\<close>  \<^verbatim>\<open>fuse/fuse.cc\<close> is the file system: \<open>main\<close> sets up the cache and the
  backends and hands a table of operations to libfuse, which calls a handler per request.
  \<^verbatim>\<open>cache/cache_manager.cc\<close> caches objects in blocks of 64 KiB: a read takes a block from the block
  store or fetches it from the backend, or from a mirrored local file, and stores it; a write changes the
  block in the store, marks it dirty and writes the mirrored file; eviction follows the LRU policy
  until the files below the cache root are small enough; sequential reads make the thread pool
  prefetch.  \<^verbatim>\<open>cache/block_store.cc\<close> keeps an object in part files of 2 GiB in two levels of shard
  directories (\<^verbatim>\<open>cache/fs_layout.h\<close>); \<^verbatim>\<open>cache/policy/metadata/metadata_store.cc\<close> keeps a table in
  SQLite and the dirty bitmaps; \<^verbatim>\<open>backend/http_backend.cc\<close> makes range requests with libcurl;
  \<^verbatim>\<open>fuse/fuse_ops.cc\<close> holds wrappers that forward to an operation table.

  \<^bold>\<open>Theories.\<close>

  \<^item> \<open>Cache_Prelude\<close>: words, byte buffers (\<open>splice\<close>, \<open>slice\<close>), the string functions of the
    standard library that the code uses, exceptions, collections of rewrite rules; the locales
    \<open>transition_system\<close> (invariants of reachable states) and \<open>forward_simulation\<close> (runs of calls
    against a specification).
  \<^item> \<open>Posix_Fs\<close>: a file system with path resolution and the system calls, with error injection
    (\<open>deny\<close>, \<open>ioerr\<close>), well-formedness and its preservation.
  \<^item> \<open>Fs_Layout\<close>, \<open>Block_Store\<close>: \<^verbatim>\<open>fs_layout.h\<close> and the class \<open>BlockStore\<close> (\<open>bs_read\<close>,
    \<open>bs_write\<close>, \<open>delete_object\<close>).  The locale \<open>object_store\<close> is the contract the cache relies
    on, an abstract map from object and part to bytes; the interpretation \<open>bs\<close> discharges it
    for the code's functions over \<open>store_abs\<close> and \<open>store_ok\<close>.
  \<^item> \<open>Eviction_Policy\<close>: the contract of a policy as a locale; \<open>Lru_Policy\<close> and \<open>Time_Policy\<close>
    interpret it.  The LRU list and table of iterators are modelled with tokens for iterators and
    abstracted to a list of nodes; the policy is equivalent to a reference on that list
    (\<open>ref_step\<close>), for any scores.  A \<open>double\<close> is a rational or a special value.
  \<^item> \<open>Thread_Pool\<close>: the pool as a step relation over all interleavings of workers, \<open>enqueue\<close>
    and the destructor, with wake-ups; no task is lost or run twice and the destructor drains.
  \<^item> \<open>Dirty_Bitmap\<close>, \<open>Metadata_Store\<close>: packing of bit vectors, the SQL statements and the bitmaps.
  \<^item> \<open>Http_Backend\<close>: the callbacks, \<open>download\<close>, \<open>upload\<close>, \<open>remove\<close> and the process-wide
    backend.  The locale \<open>range_source\<close> is what a reader of ranges relies on; \<open>http\<close> interprets it.
  \<^item> \<open>Cache_Manager\<close>: every method of \<open>CacheManager\<close> and the C interface.  The state of the object
    is the record \<open>cstate\<close>, file system and network are the record \<open>world\<close>.
  \<^item> \<open>Cache_Reads\<close>, \<open>Cache_Writes\<close>: what reads return (from the store, read through, past the end,
    over a hole), that a read returns what was written and that dirty blocks are marked, and that a
    write to part of an uncached block leaves zeros around it.
  \<^item> \<open>Cache_Eviction\<close>: the steps of a cache (\<open>cache_step\<close>: a call, a prefetch job, or one turn of the
    loops that run without the mutex), the keys given to the LRU policy, the end of the eviction loop
    and the fate of evicted entries under any sequence of steps.
  \<^item> \<open>Cache_Flush\<close>: the files a flush touches (\<open>flush_frame\<close>), the bitmap files after a write and a
    flush (\<open>flushed\<close>), and the store after the eviction of an entry.
  \<^item> \<open>Cache_Prefetch\<close>: a prefetch job keeps the cached copy consistent and completes its window, and
    the way from a sequential read to the job.
  \<^item> \<open>Cache_Invariant\<close>: the type invariant \<open>cache_wf\<close> of the object, kept by every step; the
    interpretation \<open>cache\<close> of \<open>transition_system\<close> carries it to every reachable state, where the
    hypotheses of the other theorems on entries, names and bitmaps hold.
  \<^item> \<open>Cache_Failures\<close>: reads that find neither server nor mirrored file, a new object on the files of
    an old one, jobs of evicted objects, and that no request ever carries written data.
  \<^item> \<open>Cache_Files\<close>, \<open>Cache_Refinement\<close>: the cache against files.  The specification \<open>file_step\<close> keeps
    the bytes of each file and how many of its blocks the cache has seen without a gap, and accepts a
    read or write inside the file that starts there; \<open>cache_sim\<close> relates it to the object, its
    store and its queue of jobs.  The interpretation \<open>files\<close> of \<open>forward_simulation\<close> carries one
    call (read, write, flush, a turn or wake-up of a worker) to every sequence of calls.
  \<^item> \<open>Fuse_Common\<close>, \<open>Fuse_Ops\<close>: the types, flags and inline functions of the libfuse headers in the
    repository, and the wrappers of \<^verbatim>\<open>fuse_ops.cc\<close>.  The table of operations is a chain of record
    extensions in the order of its members (\<open>name_operations\<close> to \<open>fuse_operations\<close>).
  \<^item> \<open>Fuse_Main\<close>, \<open>Fuse_Json\<close>, \<open>Fuse_Session\<close>: the handlers and \<open>main\<close> of \<^verbatim>\<open>fuse.cc\<close>, the JSON
    scanners on listings and file information, and sessions as sequences of requests.
  \<^item> \<open>Mount_Refinement\<close>: the operation table in file mode against a set of files (\<open>mount_step\<close>,
    \<open>mount_sim\<close>), the second interpretation of \<open>forward_simulation\<close>.  Every read also stores in the
    cache; \<open>cache_frame\<close> says that this reaches only the store and the mirrored file.
  \<^item> \<open>Main_Program\<close>: \<open>main\<close> of \<^verbatim>\<open>main.cc\<close>, which sets up another block store, the policies and a
    metadata store beside the cache and runs a session.

  \<^bold>\<open>Conventions.\<close>  A C++ exception, or undefined behaviour, is \<open>Inl\<close> of \<open>exn\<close>; a system call's
  error is \<open>Inl errno\<close>.  \<open>size_t\<close>, \<open>off_t\<close> and pointers are 64 bit words and arithmetic wraps as in
  the code; where the code reads them signed the model uses \<open>sint\<close>.  A buffer argument is a list of
  bytes that the function returns updated.  Uninitialised stack bytes, addresses of entries and
  \<open>std::hash\<close> are parameters (\<open>env\<close>).  A path argument of a handler is a pointer (\<open>cptr\<close>), since the
  code compares addresses.

  \<^bold>\<open>Parameters and what is assumed of them.\<close>  libcurl and the server (\<open>curl\<close>; \<open>range_server\<close> says
  that a range request is answered with the bytes of the range), SQLite (\<open>sqlite\<close>; \<open>sqlite_table\<close>
  says that the statements of the class act on a table), libfuse's session loop (\<open>fuse_runner\<close>),
  \<open>fuse_buf_copy\<close>, and the functions that \<^verbatim>\<open>main.cc\<close> calls and the repository does not define
  (\<open>mainlib\<close>).  Each hypothesis is met by an executable instance (\<open>mem_curl\<close>, \<open>mem_sqlite\<close>)
  in the witnesses.

  \<^bold>\<open>Loops and bounds.\<close>  No fuel is used: the read and write loops, the eviction loop, the JSON scanner
  and the directory loops are total functions with a measure.  Theorems on offsets assume
  that offset plus length stays below \<open>2\<^sup>6\<^sup>3\<close>, the range of \<open>off_t\<close>; 65536 is the block size,
  \<open>part_size\<close> the size of a part.

  \<^bold>\<open>Not modelled.\<close>  Data races inside a turn: the methods under the mutex are atomic steps, and eviction
  and the prefetch jobs, which take no lock, interleave with them turn by turn.  Partial transfers on
  regular files, symbolic and hard links, permissions, rounding of floating point and the destruction
  of static objects at exit.  The library functions that the headers only declare, since
  no source file defines or calls them; the duplicate declarations of \<^verbatim>\<open>fuse_ops.h\<close>, whose members are
  those of \<^verbatim>\<open>fuse.h\<close>; the Python test server and the test drivers.
\<close>

end
